(* ===== verification/Prelude.thy ===== *)
theory Prelude
  imports Main "HOL-Library.Word"
begin

text \<open>
  Shared vocabulary of the development: the machine integers of the crate, the checked and
  saturating operations of the standard library on them, page arithmetic, and the outcome of an
  operation that may fail, wait or panic. Nothing here is specific to one component.
\<close>

unbundle bit_operations_syntax

section \<open>Machine integers\<close>

text \<open>
  Every integer keeps its width. \<open>usize\<close> is 64 bits wide, as on the 64-bit targets of the crate
  (\<open>x86_64\<close>, \<open>aarch64\<close>, \<open>riscv64gc\<close>), so \<open>usize::try_from\<close> on a \<open>u64\<close> never fails.
\<close>

type_synonym u8 = "8 word"
type_synonym u16 = "16 word"
type_synonym u32 = "32 word"
type_synonym u64 = "64 word"
type_synonym usize = "64 word"

named_theorems word_nat \<open>equations that read a word operation as one on natural numbers\<close>

definition checked_add :: "'a::len word \<Rightarrow> 'a word \<Rightarrow> 'a word option" where
  "checked_add a b = (if unat a + unat b < 2 ^ LENGTH('a) then Some (a + b) else None)"

definition checked_mul :: "'a::len word \<Rightarrow> 'a word \<Rightarrow> 'a word option" where
  "checked_mul a b = (if unat a * unat b < 2 ^ LENGTH('a) then Some (a * b) else None)"

definition saturating_add :: "'a::len word \<Rightarrow> 'a word \<Rightarrow> 'a word" where
  "saturating_add a b = (if unat a + unat b < 2 ^ LENGTH('a) then a + b else - 1)"

lemma unat_bound: "unat a < 2 ^ LENGTH('a)"
  for a :: "'a::len word"
  by (rule unsigned_less)

lemma unat_max_word: "unat (- 1 :: 'a::len word) = 2 ^ LENGTH('a) - 1"
  by (simp add: unsigned_minus_1_eq_mask mask_eq_exp_minus_1)

lemma unat_two_power: "k < LENGTH('a) \<Longrightarrow> unat ((2::'a::len word) ^ k) = 2 ^ k"
  by (metis Word.unat_of_nat mod_less of_nat_numeral of_nat_power one_less_numeral_iff
      power_strict_increasing_iff semiring_norm(76))

lemma unat_ucast_up:
  "LENGTH('a) \<le> LENGTH('b) \<Longrightarrow> unat (ucast x :: 'b::len word) = unat x"
  for x :: "'a::len word"
proof -
  assume le: "LENGTH('a) \<le> LENGTH('b)"
  have "unat x < 2 ^ LENGTH('a)"
    by (rule unat_bound)
  also have "(2::nat) ^ LENGTH('a) \<le> 2 ^ LENGTH('b)"
    using le by simp
  finally show ?thesis
    by (simp only: unsigned_ucast_eq take_bit_nat_eq_self)
qed

lemma unat_ucast_32_64 [simp]: "unat (ucast x :: 64 word) = unat x" for x :: "32 word"
  by (rule unat_ucast_up) simp

lemma unat_ucast_down:
  "unat x < 2 ^ LENGTH('b) \<Longrightarrow> unat (ucast x :: 'b::len word) = unat x"
  for x :: "'a::len word"
  by (simp only: unsigned_ucast_eq take_bit_nat_eq_self)

lemma unat_add_no_wrap:
  "unat a + unat b < 2 ^ LENGTH('a) \<Longrightarrow> unat (a + b) = unat a + unat b"
  for a b :: "'a::len word"
  by (simp add: unat_word_ariths)

lemma unat_sub_le: "b \<le> a \<Longrightarrow> unat (a - b) = unat a - unat b"
  for a b :: "'a::len word"
  by (simp add: unat_sub)

lemma checked_add_Some_iff [word_nat]:
  "checked_add a b = Some c \<longleftrightarrow> unat c = unat a + unat b"
  for a b c :: "'a::len word"
  by (metis checked_add_def option.inject option.simps(3) unat_add_no_wrap unat_bound
      word_unat_eq_iff)

lemma checked_add_None_iff [word_nat]:
  "checked_add a b = None \<longleftrightarrow> 2 ^ LENGTH('a) \<le> unat a + unat b"
  for a b :: "'a::len word"
  by (auto simp: checked_add_def)

lemma checked_mul_Some_iff [word_nat]:
  "checked_mul a b = Some c \<longleftrightarrow> unat c = unat a * unat b"
  for a b c :: "'a::len word"
proof (cases "unat a * unat b < 2 ^ LENGTH('a)")
  case True
  then have "unat (a * b) = unat a * unat b"
    by (simp add: unat_word_ariths)
  with True show ?thesis
    by (auto simp: checked_mul_def word_unat_eq_iff)
next
  case False
  then have "checked_mul a b = None"
    by (simp only: checked_mul_def if_False)
  moreover have "unat c \<noteq> unat a * unat b"
    using False unat_bound [of c] by metis
  ultimately have "checked_mul a b = None" and "unat c \<noteq> unat a * unat b"
    by blast+
  then show ?thesis by simp
qed

lemma unat_saturating_add [word_nat]:
  "unat (saturating_add a b) = min (unat a + unat b) (2 ^ LENGTH('a) - 1)"
  for a b :: "'a::len word"
proof (cases "unat a + unat b < 2 ^ LENGTH('a)")
  case True
  then show ?thesis
    by (simp add: saturating_add_def unat_add_no_wrap)
next
  case False
  then show ?thesis
    by (simp add: saturating_add_def unat_max_word)
qed

section \<open>Pages\<close>

text \<open>
  \<open>page_size()\<close> is answered by the operating system and is a parameter of the model. All the
  code relies on is that it is a power of two between 4 KiB and 2 GiB.
\<close>

definition is_page_size :: "u64 \<Rightarrow> bool" where
  "is_page_size p \<longleftrightarrow> (\<exists>k\<in>{12..<32}. p = 2 ^ k)"

text \<open>\<open>a & !(page - 1)\<close>: the base of the page holding \<open>a\<close>.\<close>

definition page_base :: "u64 \<Rightarrow> u64 \<Rightarrow> u64" where
  "page_base p a = a AND NOT (p - 1)"

lemma is_page_size_4096: "is_page_size 4096"
  unfolding is_page_size_def by (rule bexI [of _ 12]) simp_all

lemma is_page_sizeE:
  assumes "is_page_size p"
  obtains k where "12 \<le> k" "k < 32" "p = 2 ^ k" "unat p = 2 ^ k"
proof -
  from assms obtain k where k: "12 \<le> k" "k < 32" "p = 2 ^ k"
    by (auto simp: is_page_size_def)
  then have "unat p = 2 ^ k"
    by (simp add: unat_two_power)
  with k show ?thesis by (rule that)
qed

lemma unat_page_base_pow:
  fixes a :: u64
  assumes "k < 64"
  shows "unat (a AND NOT (2 ^ k - 1)) = unat a - unat a mod 2 ^ k"
proof -
  have "a - (a AND mask k) = a AND NOT (a AND mask k)"
    by (rule disjunctive_diff_eq_and_not) (auto simp: bit_eq_iff bit_simps)
  also have "\<dots> = a AND NOT (mask k)"
    by (rule bit_word_eqI) (auto simp: bit_simps)
  finally have split: "a AND NOT (mask k) = a - take_bit k a"
    by (simp add: take_bit_eq_mask)
  have le: "take_bit k a \<le> a"
    by (metis take_bit_eq_mask word_and_le2)
  have "unat (a AND NOT (mask k)) = unat a - unat (take_bit k a)"
    using le by (simp add: split unat_sub_le)
  moreover have "unat (take_bit k a) = unat a mod 2 ^ k"
    by (subst unsigned_take_bit_eq) (rule take_bit_eq_mod)
  ultimately show ?thesis
    by (simp add: mask_eq_exp_minus_1)
qed

lemma unat_page_base [word_nat]:
  "is_page_size p \<Longrightarrow> unat (page_base p a) = unat a - unat a mod unat p"
  by (auto elim!: is_page_sizeE simp: page_base_def unat_page_base_pow)

lemma page_base_le: "is_page_size p \<Longrightarrow> page_base p a \<le> a"
  by (simp add: word_le_nat_alt unat_page_base)

lemma page_base_dvd: "is_page_size p \<Longrightarrow> unat p dvd unat (page_base p a)"
  by (simp add: unat_page_base minus_mod_eq_mult_div)

lemma page_offset_less: "is_page_size p \<Longrightarrow> unat a - unat (page_base p a) < unat p"
  by (auto elim!: is_page_sizeE simp: unat_page_base_pow page_base_def)

lemma is_page_size_dvd:
  assumes "is_page_size p" "b \<in> {1, 2, 4, 8}"
  shows "b dvd unat p"
proof -
  obtain k where k: "12 \<le> k" "unat p = 2 ^ k"
    using assms(1) by (auto elim: is_page_sizeE)
  have "b dvd 2 ^ 3"
    using assms(2) by auto
  also have "(2::nat) ^ 3 dvd 2 ^ k"
    by (rule le_imp_power_dvd) (use k(1) in simp)
  finally show ?thesis by (simp add: k(2))
qed

section \<open>Outcomes\<close>

text \<open>
  An operation of the crate that touches shared state returns \<open>Done\<close> with its \<open>Result\<close>
  (\<open>Inl\<close> an error, \<open>Inr\<close> a value) and the new state, waits for another thread or process
  (\<open>Blocks\<close>: there is no step to take now), or panics. \<open>pbind\<close> sequences two operations the way
  \<open>?\<close> does: the first error, wait or panic is the outcome of the whole.
\<close>

datatype 'a run = Done 'a | Blocks | Panics

type_synonym ('e, 's, 'a) prog = "'s \<Rightarrow> (('e + 'a) \<times> 's) run"

definition pret :: "'a \<Rightarrow> ('e, 's, 'a) prog" where
  "pret x = (\<lambda>s. Done (Inr x, s))"

definition pfail :: "'e \<Rightarrow> ('e, 's, 'a) prog" where
  "pfail e = (\<lambda>s. Done (Inl e, s))"

definition pbind :: "('e, 's, 'a) prog \<Rightarrow> ('a \<Rightarrow> ('e, 's, 'b) prog) \<Rightarrow> ('e, 's, 'b) prog" where
  "pbind m f = (\<lambda>s. case m s of
       Done (Inl e, s') \<Rightarrow> Done (Inl e, s')
     | Done (Inr x, s') \<Rightarrow> f x s'
     | Blocks \<Rightarrow> Blocks
     | Panics \<Rightarrow> Panics)"

text \<open>A \<open>Result\<close> computed without touching the state.\<close>

definition plift :: "('e + 'a) \<Rightarrow> ('e, 's, 'a) prog" where
  "plift r = (\<lambda>s. Done (r, s))"

lemma pbind_Done_iff:
  "pbind m f s = Done (r, t) \<longleftrightarrow>
     (\<exists>e. m s = Done (Inl e, t) \<and> r = Inl e) \<or>
     (\<exists>x u. m s = Done (Inr x, u) \<and> f x u = Done (r, t))"
  by (auto simp: pbind_def split: run.splits sum.splits)

lemma pbind_Inr_iff:
  "pbind m f s = Done (Inr y, t) \<longleftrightarrow>
     (\<exists>x u. m s = Done (Inr x, u) \<and> f x u = Done (Inr y, t))"
  by (auto simp: pbind_Done_iff)

lemma pbind_Panics_iff:
  "pbind m f s = Panics \<longleftrightarrow>
     m s = Panics \<or> (\<exists>x u. m s = Done (Inr x, u) \<and> f x u = Panics)"
  by (auto simp: pbind_def split: run.splits sum.splits)

text \<open>\<open>?\<close> on a \<open>Result\<close> outside the state.\<close>

definition rbind :: "('e + 'a) \<Rightarrow> ('a \<Rightarrow> 'e + 'b) \<Rightarrow> 'e + 'b" where
  "rbind r f = (case r of Inl e \<Rightarrow> Inl e | Inr x \<Rightarrow> f x)"

lemma rbind_simps [simp]:
  "rbind (Inl e) f = Inl e"
  "rbind (Inr x) f = f x"
  by (simp_all add: rbind_def)

lemma rbind_Inr_iff: "rbind r f = Inr y \<longleftrightarrow> (\<exists>x. r = Inr x \<and> f x = Inr y)"
  by (cases r) auto

lemma rbind_Inl_iff: "rbind r f = Inl e \<longleftrightarrow> r = Inl e \<or> (\<exists>x. r = Inr x \<and> f x = Inl e)"
  by (cases r) auto

text \<open>An operation that does not panic and keeps \<open>good\<close>, whether it succeeds or not.\<close>

definition keeps :: "('s \<Rightarrow> bool) \<Rightarrow> ('e, 's, 'a) prog \<Rightarrow> bool" where
  "keeps good m \<longleftrightarrow> (\<forall>s. good s \<longrightarrow> m s \<noteq> Panics \<and> (\<forall>r s'. m s = Done (r, s') \<longrightarrow> good s'))"

lemma keeps_pret [intro]: "keeps good (pret x)" "keeps good (pfail e)" "keeps good (plift q)"
  by (simp_all add: keeps_def pret_def pfail_def plift_def)

lemma keeps_pbind [intro]:
  "keeps good m \<Longrightarrow> (\<And>x. keeps good (f x)) \<Longrightarrow> keeps good (pbind m f)"
  unfolding keeps_def pbind_Done_iff pbind_Panics_iff by blast

end
