(* ===== verification/Strings.thy ===== *)
theory Strings
  imports Prelude "HOL-Library.Char_ord" "HOL-Library.List_Lexorder"
begin

text \<open>
  Rust's \<open>str\<close> is a sequence of bytes in UTF-8, and so is \<open>string\<close> here: one \<open>char\<close> per byte,
  with \<open>&s[i..]\<close>, \<open>len\<close> and byte order as the code has them. This theory holds the standard
  library's operations on them that the crate calls (\<open>trim\<close>, \<open>split_once\<close>, \<open>strip_prefix\<close>,
  ASCII case folding, \<open>split_whitespace\<close>, the \<open>format!\<close> directives \<open>{}\<close>, \<open>{:X}\<close> and
  \<open>{:0nX}\<close>), the UTF-8 check of \<open>str::from_utf8\<close>, and the file-name part of \<open>Path\<close>.
\<close>

type_synonym path = string

definition byte :: "char \<Rightarrow> nat" where
  "byte c = of_char c"

lemma byte_char_of [simp]: "n < 256 \<Longrightarrow> byte (char_of n) = n"
  by (simp add: byte_def)

section \<open>Prefixes and separators\<close>

definition starts_with :: "string \<Rightarrow> string \<Rightarrow> bool" where
  "starts_with s p \<longleftrightarrow> take (length p) s = p"

definition strip_prefix :: "string \<Rightarrow> string \<Rightarrow> string option" where
  "strip_prefix s p = (if starts_with s p then Some (drop (length p) s) else None)"

text \<open>\<open>s.split_once(sep)\<close>: the parts before and after the first occurrence of \<open>sep\<close>.\<close>

fun split_once :: "string \<Rightarrow> string \<Rightarrow> (string \<times> string) option" where
  "split_once sep [] = (if sep = [] then Some ([], []) else None)"
| "split_once sep (c # cs) =
     (if starts_with (c # cs) sep then Some ([], drop (length sep) (c # cs))
      else map_option (\<lambda>(a, b). (c # a, b)) (split_once sep cs))"

text \<open>\<open>s.split(b)\<close> on one byte: always at least one part.\<close>

fun split_byte :: "char \<Rightarrow> string \<Rightarrow> string list" where
  "split_byte b [] = [[]]"
| "split_byte b (c # cs) =
     (if c = b then [] # split_byte b cs
      else case split_byte b cs of [] \<Rightarrow> [[c]] | p # ps \<Rightarrow> (c # p) # ps)"

lemma strip_prefix_Some_iff [simp]: "strip_prefix s p = Some r \<longleftrightarrow> s = p @ r"
  by (auto simp: strip_prefix_def starts_with_def) (metis append_take_drop_id)

lemma starts_with_append [simp]: "starts_with (p @ r) p"
  by (simp add: starts_with_def)

lemma starts_with_iff: "starts_with s p \<longleftrightarrow> (\<exists>r. s = p @ r)"
  by (metis append_take_drop_id starts_with_append starts_with_def)

lemma split_once_Some:
  "split_once sep s = Some (a, b) \<Longrightarrow> s = a @ sep @ b"
proof (induction sep s arbitrary: a rule: split_once.induct)
  case (1 sep)
  then show ?case by (auto split: if_splits)
next
  case (2 sep c cs)
  show ?case
  proof (cases "starts_with (c # cs) sep")
    case True
    with "2.prems" show ?thesis
      by (auto simp: starts_with_def) (metis append_take_drop_id)
  next
    case False
    with "2.prems" obtain a' where "split_once sep cs = Some (a', b)" "a = c # a'"
      by auto
    with "2.IH" [OF False] show ?thesis by simp
  qed
qed

section \<open>UTF-8\<close>

text \<open>
  \<open>char_len\<close> reads the length of a character off its first byte, as \<open>chars()\<close> does on a valid
  string; \<open>utf8_chars\<close> cuts a string into its characters.
\<close>

definition char_len :: "char \<Rightarrow> nat" where
  "char_len c = (if byte c < 0x80 then 1 else if byte c < 0xE0 then 2
                 else if byte c < 0xF0 then 3 else 4)"

function utf8_chars :: "string \<Rightarrow> string list" where
  "utf8_chars [] = []"
| "utf8_chars (c # cs) =
     take (char_len c) (c # cs) # utf8_chars (drop (char_len c) (c # cs))"
  by pat_completeness auto
termination
  by (relation "measure length") (auto simp: char_len_def)

definition is_cont :: "char \<Rightarrow> bool" where
  "is_cont c \<longleftrightarrow> 0x80 \<le> byte c \<and> byte c < 0xC0"

text \<open>\<open>str::from_utf8\<close>: the well-formed byte sequences (no overlong forms, no surrogates).\<close>

fun utf8_valid :: "string \<Rightarrow> bool" where
  "utf8_valid [] = True"
| "utf8_valid (c # cs) =
     (let n = byte c in
      if n < 0x80 then utf8_valid cs
      else if 0xC2 \<le> n \<and> n < 0xE0 then
        (case cs of d # ds \<Rightarrow> is_cont d \<and> utf8_valid ds | _ \<Rightarrow> False)
      else if 0xE0 \<le> n \<and> n < 0xF0 then
        (case cs of d # e # ds \<Rightarrow>
             is_cont d \<and> is_cont e \<and> (n = 0xE0 \<longrightarrow> 0xA0 \<le> byte d)
             \<and> (n = 0xED \<longrightarrow> byte d < 0xA0) \<and> utf8_valid ds
         | _ \<Rightarrow> False)
      else if 0xF0 \<le> n \<and> n < 0xF5 then
        (case cs of d # e # f # ds \<Rightarrow>
             is_cont d \<and> is_cont e \<and> is_cont f \<and> (n = 0xF0 \<longrightarrow> 0x90 \<le> byte d)
             \<and> (n = 0xF4 \<longrightarrow> byte d < 0x90) \<and> utf8_valid ds
         | _ \<Rightarrow> False)
      else False)"

text \<open>\<open>String::push(char)\<close>: the UTF-8 bytes of a scalar value.\<close>

definition utf8_encode :: "nat \<Rightarrow> string" where
  "utf8_encode n =
     (if n < 0x80 then [char_of n]
      else if n < 0x800 then [char_of (0xC0 + n div 64), char_of (0x80 + n mod 64)]
      else if n < 0x10000 then
        [char_of (0xE0 + n div 4096), char_of (0x80 + n div 64 mod 64), char_of (0x80 + n mod 64)]
      else
        [char_of (0xF0 + n div 262144), char_of (0x80 + n div 4096 mod 64),
         char_of (0x80 + n div 64 mod 64), char_of (0x80 + n mod 64)])"

section \<open>White space\<close>

text \<open>The characters with the Unicode \<open>White_Space\<close> property, by their UTF-8 bytes.\<close>

definition is_ws :: "string \<Rightarrow> bool" where
  "is_ws ch \<longleftrightarrow> (let b = map byte ch in
     (case b of
        [n] \<Rightarrow> n = 32 \<or> (9 \<le> n \<and> n \<le> 13)
      | [m, n] \<Rightarrow> m = 0xC2 \<and> (n = 0x85 \<or> n = 0xA0)
      | [l, m, n] \<Rightarrow>
          (l = 0xE1 \<and> m = 0x9A \<and> n = 0x80)
          \<or> (l = 0xE2 \<and> m = 0x80 \<and>
              ((0x80 \<le> n \<and> n \<le> 0x8A) \<or> n = 0xA8 \<or> n = 0xA9 \<or> n = 0xAF))
          \<or> (l = 0xE2 \<and> m = 0x81 \<and> n = 0x9F)
          \<or> (l = 0xE3 \<and> m = 0x80 \<and> n = 0x80)
      | _ \<Rightarrow> False))"

definition trim_by :: "(string \<Rightarrow> bool) \<Rightarrow> string \<Rightarrow> string" where
  "trim_by p s = concat (rev (dropWhile p (rev (dropWhile p (utf8_chars s)))))"

definition str_trim :: "string \<Rightarrow> string" where
  "str_trim s = trim_by is_ws s"

text \<open>\<open>split_whitespace\<close>: the maximal runs of characters that are not white space.\<close>

fun ws_tokens :: "string list \<Rightarrow> string \<Rightarrow> string list" where
  "ws_tokens [] cur = (if cur = [] then [] else [cur])"
| "ws_tokens (ch # chs) cur =
     (if is_ws ch then (if cur = [] then ws_tokens chs [] else cur # ws_tokens chs [])
      else ws_tokens chs (cur @ ch))"

definition split_whitespace :: "string \<Rightarrow> string list" where
  "split_whitespace s = ws_tokens (utf8_chars s) []"

lemma utf8_chars_ascii:
  "\<forall>c\<in>set s. byte c < 0x80 \<Longrightarrow> utf8_chars s = map (\<lambda>c. [c]) s"
  by (induction s) (auto simp: char_len_def)

lemma concat_singletons [simp]: "concat (map (\<lambda>c. [c]) s) = s"
  by (induction s) auto

text \<open>A string of ASCII characters that are not white space is its own \<open>trim\<close>.\<close>

definition is_graph :: "char \<Rightarrow> bool" where
  "is_graph c \<longleftrightarrow> 32 < byte c \<and> byte c < 0x80"

lemma str_trim_graph:
  assumes "\<forall>c\<in>set s. is_graph c"
  shows "str_trim s = s"
proof -
  have ascii: "utf8_chars s = map (\<lambda>c. [c]) s"
    using assms by (intro utf8_chars_ascii) (auto simp: is_graph_def)
  have keep: "dropWhile is_ws xs = xs" if "\<forall>x\<in>set xs. \<not> is_ws x" for xs
    using that by (cases xs) auto
  have "\<forall>x\<in>set (map (\<lambda>c. [c]) s). \<not> is_ws x"
    using assms by (auto simp: is_graph_def is_ws_def)
  then show ?thesis
    by (simp add: str_trim_def trim_by_def ascii keep)
qed

section \<open>ASCII case\<close>

definition ascii_lower :: "char \<Rightarrow> char" where
  "ascii_lower c = (if 65 \<le> byte c \<and> byte c \<le> 90 then char_of (byte c + 32) else c)"

definition to_ascii_lowercase :: "string \<Rightarrow> string" where
  "to_ascii_lowercase s = map ascii_lower s"

definition eq_ignore_ascii_case :: "string \<Rightarrow> string \<Rightarrow> bool" where
  "eq_ignore_ascii_case a b \<longleftrightarrow> to_ascii_lowercase a = to_ascii_lowercase b"

text \<open>\<open>haystack.contains(needle)\<close>.\<close>

fun str_contains :: "string \<Rightarrow> string \<Rightarrow> bool" where
  "str_contains [] p = (p = [])"
| "str_contains (c # cs) p = (starts_with (c # cs) p \<or> str_contains cs p)"

section \<open>Formatting\<close>

function digits_of :: "nat \<Rightarrow> nat \<Rightarrow> nat list" where
  "digits_of b n = (if n < b \<or> b < 2 then [n] else digits_of b (n div b) @ [n mod b])"
  by pat_completeness auto
termination
  by (relation "measure snd") auto

declare digits_of.simps [simp del]

definition hex_upper :: "nat \<Rightarrow> char" where
  "hex_upper d = (if d < 10 then char_of (48 + d) else char_of (55 + d))"

definition hex_lower :: "nat \<Rightarrow> char" where
  "hex_lower d = (if d < 10 then char_of (48 + d) else char_of (87 + d))"

definition fmt_dec :: "nat \<Rightarrow> string" where
  "fmt_dec n = map hex_upper (digits_of 10 n)"

definition fmt_hex :: "nat \<Rightarrow> string" where
  "fmt_hex n = map hex_upper (digits_of 16 n)"

definition pad0 :: "nat \<Rightarrow> string \<Rightarrow> string" where
  "pad0 w s = replicate (w - length s) (CHR ''0'') @ s"

definition fmt_hex0 :: "nat \<Rightarrow> nat \<Rightarrow> string" where
  "fmt_hex0 w n = pad0 w (fmt_hex n)"

definition fmt_hex_lower0 :: "nat \<Rightarrow> nat \<Rightarrow> string" where
  "fmt_hex_lower0 w n = pad0 w (map hex_lower (digits_of 16 n))"

text \<open>A single-quoted, and a double-quoted, piece of a message.\<close>

definition sq :: "string \<Rightarrow> string" where
  "sq s = [CHR 0x27] @ s @ [CHR 0x27]"

definition dq :: "string \<Rightarrow> string" where
  "dq s = [CHR 0x22] @ s @ [CHR 0x22]"

fun join_with :: "string \<Rightarrow> string list \<Rightarrow> string" where
  "join_with sep [] = []"
| "join_with sep [x] = x"
| "join_with sep (x # y # ys) = x @ sep @ join_with sep (y # ys)"

lemma digits_of_less: "2 \<le> b \<Longrightarrow> d \<in> set (digits_of b n) \<Longrightarrow> d < b"
proof (induction b n rule: digits_of.induct)
  case (1 b n)
  then show ?case
    by (cases "n < b") (auto simp: digits_of.simps [of b n])
qed

lemma digits_of_nonempty [simp]: "digits_of b n \<noteq> []"
  by (subst digits_of.simps) simp

lemma digits_of_value:
  "2 \<le> b \<Longrightarrow> foldl (\<lambda>a d. a * b + d) 0 (digits_of b n) = n"
proof (induction b n rule: digits_of.induct)
  case (1 b n)
  then show ?case
    by (cases "n < b") (auto simp: digits_of.simps [of b n])
qed

section \<open>Paths\<close>

text \<open>
  The components of a path as \<open>Path::components\<close> yields them: empty parts and \<open>.\<close> parts
  disappear (a leading \<open>.\<close> is a component of its own kind, never a file name).
\<close>

definition path_parts :: "path \<Rightarrow> string list" where
  "path_parts p = filter (\<lambda>c. c \<noteq> [] \<and> c \<noteq> ''.'') (split_byte (CHR ''/'') p)"

definition path_is_absolute :: "path \<Rightarrow> bool" where
  "path_is_absolute p = starts_with p ''/''"

text \<open>\<open>Path::file_name\<close>: the last component, unless it is \<open>..\<close>.\<close>

definition path_file_name :: "path \<Rightarrow> string option" where
  "path_file_name p = (case rev (path_parts p) of
       [] \<Rightarrow> None
     | c # _ \<Rightarrow> if c = ''..'' then None else Some c)"

text \<open>\<open>Path::join\<close>: an absolute argument replaces the path.\<close>

definition path_join :: "path \<Rightarrow> path \<Rightarrow> path" where
  "path_join p q = (if path_is_absolute q then q
     else if p = [] \<or> last p = CHR ''/'' then p @ q
     else p @ ''/'' @ q)"

text \<open>\<open>Path::parent\<close>, as the path's text without its last component.\<close>

definition path_parent :: "path \<Rightarrow> path option" where
  "path_parent p = (case rev (path_parts p) of
       [] \<Rightarrow> None
     | _ # cs \<Rightarrow> Some ((if path_is_absolute p then ''/'' else []) @ join_with ''/'' (rev cs)))"

section \<open>Lines\<close>

text \<open>\<open>BufRead::read_line\<close> in a loop: the lines with their terminators.\<close>

fun line_chunks :: "string \<Rightarrow> string \<Rightarrow> string list" where
  "line_chunks [] cur = (if cur = [] then [] else [cur])"
| "line_chunks (c # cs) cur =
     (if c = CHR 0x0A then (cur @ [c]) # line_chunks cs []
      else line_chunks cs (cur @ [c]))"

text \<open>
  \<open>while reader.read_line(&mut line).unwrap_or(0) > 0\<close>: a line that is not UTF-8 is an error,
  which ends the loop.
\<close>

definition read_lines :: "string \<Rightarrow> string list" where
  "read_lines s = takeWhile utf8_valid (line_chunks s [])"

end
