(* ===== verification/Errors.thy ===== *)
theory Errors
  imports Strings
begin

text \<open>
  \<open>src/error.rs\<close>: the variants of \<open>MmregError\<close> with their fields in the source's order, the
  machine-readable code of each, and the message \<open>Display\<close> formats.
\<close>

datatype mmreg_error =
    BlueprintUnmapped u64 usize                    \<comment> \<open>address, size\<close>
  | BlueprintSystemRam u64 usize string            \<comment> \<open>address, size, resource\<close>
  | ZombieDtStatus string string path              \<comment> \<open>device name, status, status path\<close>
  | ZombieRuntimePm string string path path        \<comment> \<open>device name, status, pm path, device path\<close>
  | ZombieSupplierPm string string string path     \<comment> \<open>device, supplier, status, supplier pm path\<close>
  | ZombieFpgaState string string string path      \<comment> \<open>device, manager, state, state path\<close>
  | ZombieClockGated string string path            \<comment> \<open>device name, clock name, clk path\<close>
  | ValidationHookFailed string string u64 u32 u32 u32
      \<comment> \<open>profile, check, address, mask, expected, actual\<close>
  | ValidationProfileParse string                  \<comment> \<open>details\<close>
  | DevMemOpen u64 string                          \<comment> \<open>address, details\<close>
  | DevMemMmap u64 u64 usize string                \<comment> \<open>address, page base, size, details\<close>
  | UioOpen string string                          \<comment> \<open>device path, details\<close>
  | UioMmap string usize usize string              \<comment> \<open>device path, region index, size, details\<close>
  | UioAddressInvalid string usize u64 string      \<comment> \<open>device path, region index, address, details\<close>
  | UnalignedAccess u64 u32                        \<comment> \<open>address, offset\<close>
  | UnalignedWidthAccess u64 u32 u32               \<comment> \<open>address, offset, width bits\<close>
  | OutOfBoundsAccess string u32 usize usize       \<comment> \<open>register, offset, access size, region size\<close>
  | LockOpen path string                           \<comment> \<open>lock path, details\<close>
  | LockAcquire string                             \<comment> \<open>details\<close>
  | LockRangeTooLarge string u64 u64               \<comment> \<open>name, pages, max pages\<close>
  | RegisterNotFound string string "string list"   \<comment> \<open>interface, register, available\<close>
  | SubRegisterNotFound string string string "string list"
      \<comment> \<open>interface, register, subregister, available\<close>
  | InvalidSubRegister string string u8 u8         \<comment> \<open>register, subregister, msb, lsb\<close>
  | DebugDisabled u64                              \<comment> \<open>address\<close>
  | UioNotFound string "string list"               \<comment> \<open>name, available\<close>
  | UioAmbiguous string "string list"              \<comment> \<open>name, devices\<close>
  | UioRequired string                             \<comment> \<open>operation\<close>
  | UioIrq string string                           \<comment> \<open>device path, details\<close>
  | ReadOnly string                                \<comment> \<open>name\<close>

text \<open>\<open>MmregError::code\<close>.\<close>

fun err_code :: "mmreg_error \<Rightarrow> string" where
  "err_code (BlueprintUnmapped _ _) = ''E_BLUEPRINT_UNMAPPED''"
| "err_code (BlueprintSystemRam _ _ _) = ''E_BLUEPRINT_RAM''"
| "err_code (ZombieDtStatus _ _ _) = ''E_ZOMBIE_DT_STATUS''"
| "err_code (ZombieRuntimePm _ _ _ _) = ''E_ZOMBIE_RUNTIME_PM''"
| "err_code (ZombieSupplierPm _ _ _ _) = ''E_ZOMBIE_SUPPLIER_PM''"
| "err_code (ZombieFpgaState _ _ _ _) = ''E_ZOMBIE_FPGA_STATE''"
| "err_code (ZombieClockGated _ _ _) = ''E_ZOMBIE_CLOCK_GATED''"
| "err_code (ValidationHookFailed _ _ _ _ _ _) = ''E_VALIDATION_HOOK_FAILED''"
| "err_code (ValidationProfileParse _) = ''E_VALIDATION_PROFILE_PARSE''"
| "err_code (DevMemOpen _ _) = ''E_DEVMEM_OPEN''"
| "err_code (DevMemMmap _ _ _ _) = ''E_DEVMEM_MMAP''"
| "err_code (UioOpen _ _) = ''E_UIO_OPEN''"
| "err_code (UioMmap _ _ _ _) = ''E_UIO_MMAP''"
| "err_code (UioAddressInvalid _ _ _ _) = ''E_UIO_ADDRESS''"
| "err_code (UnalignedAccess _ _) = ''E_UNALIGNED_ACCESS''"
| "err_code (UnalignedWidthAccess _ _ _) = ''E_UNALIGNED_ACCESS''"
| "err_code (OutOfBoundsAccess _ _ _ _) = ''E_OUT_OF_BOUNDS''"
| "err_code (LockOpen _ _) = ''E_LOCK_OPEN''"
| "err_code (LockAcquire _) = ''E_LOCK_ACQUIRE''"
| "err_code (LockRangeTooLarge _ _ _) = ''E_LOCK_RANGE''"
| "err_code (RegisterNotFound _ _ _) = ''E_REG_NOT_FOUND''"
| "err_code (SubRegisterNotFound _ _ _ _) = ''E_SUBREG_NOT_FOUND''"
| "err_code (InvalidSubRegister _ _ _ _) = ''E_SUBREG_RANGE''"
| "err_code (DebugDisabled _) = ''E_DEBUG_DISABLED''"
| "err_code (UioNotFound _ _) = ''E_UIO_NOT_FOUND''"
| "err_code (UioAmbiguous _ _) = ''E_UIO_AMBIGUOUS''"
| "err_code (UioRequired _) = ''E_UIO_REQUIRED''"
| "err_code (UioIrq _ _) = ''E_UIO_IRQ''"
| "err_code (ReadOnly _) = ''E_READ_ONLY''"

section \<open>Display\<close>

text \<open>\<open>{}\<close> and \<open>0x{:X}\<close> on a word.\<close>

definition dec_w :: "'a::len word \<Rightarrow> string" where
  "dec_w w = fmt_dec (unat w)"

definition hex_w :: "'a::len word \<Rightarrow> string" where
  "hex_w w = ''0x'' @ fmt_hex (unat w)"

text \<open>\<open>0x{:08X}\<close>.\<close>

definition hex8_w :: "'a::len word \<Rightarrow> string" where
  "hex8_w w = ''0x'' @ fmt_hex0 8 (unat w)"

definition zombie_intro :: string where
  "zombie_intro = '' Hardware Pre-Flight failed (Zombie Hardware): ''"

definition em_dash :: string where
  "em_dash = [CHR 0xE2, CHR 0x80, CHR 0x94]"

text \<open>\<open>Path::starts_with("/dev")\<close> compares components.\<close>

definition path_in_dev :: "path \<Rightarrow> bool" where
  "path_in_dev p \<longleftrightarrow> path_is_absolute p \<and> take 1 (path_parts p) = [''dev'']"

text \<open>
  The text after the \<open>[E_*]\<close> prefix of each variant's message: first the variants of the
  lock and lookup errors, then those of the operating system and of accesses, then the blueprint,
  pre-flight and profile errors.
\<close>

definition err_body_lookup :: "mmreg_error \<Rightarrow> string" where
  "err_body_lookup e = (case e of
      LockOpen lock_path details \<Rightarrow>
         '' Failed to open inter-process lock file '' @ sq lock_path @ '': '' @ details @
         ''. Remediation: '' @
         (if path_in_dev lock_path
          then ''Give the user read access to the UIO device (udev rule or group membership).''
          else ''Check permissions on the lock file or pre-create the lock directory (`sudo mkdir -m 1777 -p /run/lock/mmreg`).'')
    | LockAcquire details \<Rightarrow>
         '' Failed to acquire exclusive inter-process lock: '' @ details @ ''.''
    | LockRangeTooLarge nm pages max_pages \<Rightarrow>
         '' Sequence lock on '' @ sq nm @ '' would hold '' @ dec_w pages @ '' page locks (at most '' @
         dec_w max_pages @ ''). '' @
         ''Remediation: Open a smaller Device window covering only the registers of the sequence.''
    | RegisterNotFound iface reg available \<Rightarrow>
         '' Register '' @ sq reg @ '' not found in interface '' @ sq iface @
         ''. Available registers: ['' @ join_with '', '' available @ '']''
    | SubRegisterNotFound iface reg sub available \<Rightarrow>
         '' SubRegister '' @ sq sub @ '' not found in Register '' @ sq reg @ '' (interface '' @ sq iface @
         ''). Available subregisters: ['' @ join_with '', '' available @ '']''
    | InvalidSubRegister reg sub hi lo \<Rightarrow>
         '' SubRegister '' @ sq sub @ '' of Register '' @ sq reg @ '' has invalid bit range ['' @
         dec_w hi @ '':'' @ dec_w lo @ '']. Remediation: Use 31 >= msb >= lsb.''
    | DebugDisabled address \<Rightarrow>
         '' Address '' @ hex_w address @
         '' is not inside any UIO region, and this mmreg build has no /dev/mem access. '' @
         ''Remediation: Bind the peripheral to UIO (`compatible = '' @ dq ''generic-uio'' @
         ''`), or use an mmreg built with the `debug` feature (development images only).''
    | UioNotFound nm available \<Rightarrow>
         '' UIO device '' @ sq nm @ '' not found in /sys/class/uio. Available UIO names: ['' @
         join_with '', '' available @ '']. '' @
         ''Remediation: Check the Device Tree `linux,uio-name` / node name and ensure `uio_pdrv_genirq.of_id=generic-uio` is set.''
    | UioAmbiguous nm devices \<Rightarrow>
         '' Multiple UIO devices have the name '' @ sq nm @ '': ['' @ join_with '', '' devices @ '']. '' @
         ''Remediation: Give each Device Tree node a unique `linux,uio-name`, or open by path (`Device::open_uio_path`).''
    | UioRequired operation \<Rightarrow>
         '' Operation '' @ sq operation @ '' requires a UIO-backed device (/dev/uioN). '' @
         ''Remediation: Open the peripheral via `Device::open_uio` or `Device::open_uio_path`.''
    | UioIrq dev_path details \<Rightarrow>
         '' UIO interrupt operation failed on '' @ sq dev_path @ '': '' @ details @ ''. '' @
         ''Remediation: Verify the UIO device has an `interrupts` property in the Device Tree and its driver supports `irqcontrol` (`uio_pdrv_genirq`).''
    | ReadOnly nm \<Rightarrow>
         '' Cannot write to read-only device '' @ sq nm @ ''. '' @
         ''Remediation: Open the device without `.read_only()` and ensure write permission on the device node.''
    | _ \<Rightarrow> [])"

definition err_body_access :: "mmreg_error \<Rightarrow> string" where
  "err_body_access e = (case e of
      DevMemOpen address details \<Rightarrow>
         '' Failed to open /dev/mem for address '' @ hex_w address @ '': '' @ details @ ''. '' @
         ''Remediation: Run with sudo or grant CAP_SYS_RAWIO (`sudo setcap cap_sys_rawio+ep $(which mmreg)`), '' @
         ''or bind the peripheral to a UIO driver (/dev/uioN).''
    | DevMemMmap address base sz details \<Rightarrow>
         '' mmap(/dev/mem) failed for address '' @ hex_w address @ '' (page base '' @ hex_w base @
         '', size '' @ dec_w sz @ '' bytes): '' @ details @ ''. '' @
         ''Remediation: If EPERM/Operation not permitted, the kernel has CONFIG_STRICT_DEVMEM enabled '' @
         em_dash @ '' expose the device via UIO (/dev/uioN) instead.''
    | UioOpen dev_path details \<Rightarrow>
         '' Failed to open UIO device '' @ sq dev_path @ '': '' @ details @ ''. '' @
         ''Remediation: Verify the UIO device exists (`ls -l '' @ dev_path @
         ''`) and current user has read/write permissions (or udev rule).''
    | UioMmap dev_path idx sz details \<Rightarrow>
         '' mmap failed for UIO device '' @ sq dev_path @ '' (region map'' @ dec_w idx @
         '', requested size '' @ dec_w sz @ '' bytes): '' @ details @ ''. '' @
         ''Remediation: Check `/sys/class/uio/*/maps/map'' @ dec_w idx @
         ''/size` to ensure requested size does not exceed region size.''
    | UioAddressInvalid dev_path idx address details \<Rightarrow>
         '' Invalid UIO address '' @ hex_w address @ '' for device '' @ sq dev_path @
         '' (region map'' @ dec_w idx @ ''): '' @ details @ ''. '' @
         ''Remediation: Keep the whole Interface range inside the region given by `/sys/class/uio/<uioN>/maps/map'' @
         dec_w idx @ ''/addr` and `size`, or use MapperType::Auto.''
    | UnalignedAccess address offset \<Rightarrow>
         '' Unaligned 32-bit register access at base '' @ hex_w address @ '' + offset '' @ hex_w offset @
         '' (effective address '' @ hex_w (address + ucast offset) @ ''). '' @
         ''Remediation: Ensure both base address and register offsets are multiples of 4 bytes.''
    | UnalignedWidthAccess address offset bits \<Rightarrow>
         '' Unaligned '' @ dec_w bits @ ''-bit register access at base '' @ hex_w address @
         '' + offset '' @ hex_w offset @ '' (effective address '' @ hex_w (address + ucast offset) @
         ''). Remediation: A '' @ dec_w bits @
         ''-bit access needs an effective address that is a multiple of '' @ dec_w (bits div 8) @ '' bytes.''
    | OutOfBoundsAccess reg offset access_size region_size \<Rightarrow>
         '' Out-of-bounds access for register '' @ sq reg @ '' at offset '' @ hex_w offset @ '' ('' @
         dec_w access_size @ ''-byte access exceeds mapped region size of '' @ dec_w region_size @
         '' bytes). Remediation: Increase the Interface `size` so `offset + '' @ dec_w access_size @
         '' <= size`.''
    | _ \<Rightarrow> err_body_lookup e)"

definition err_body :: "mmreg_error \<Rightarrow> string" where
  "err_body e = (case e of
      BlueprintUnmapped address sz \<Rightarrow>
         '' Address '' @ hex_w address @ '' (size '' @ dec_w sz @
         '' bytes) is not recognized in any system blueprint (/sys/class/uio, /sys/bus/platform/devices/*/of_node/reg, or /proc/iomem). '' @
         ''Remediation: 1) Run with `sudo` if /proc/iomem addresses are hidden (00000000-00000000) for non-root users; '' @
         ''2) Verify the peripheral'' @ [CHR 0x27] @ ''s Device Tree node or UIO driver is loaded; '' @
         ''3) Pass --force (`with_force(true)`) only if you are certain the hardware bus will respond.''
    | BlueprintSystemRam address sz resource \<Rightarrow>
         '' Address '' @ hex_w address @ '' (size '' @ dec_w sz @
         '' bytes) matches restricted memory resource '' @ sq resource @ '' in /proc/iomem. '' @
         ''Refusing to map system RAM, kernel memory, or reserved ranges as MMIO. '' @
         ''Remediation: Verify the peripheral'' @ [CHR 0x27] @ ''s physical address, or pass --force (`with_force(true)`) only if intentionally accessing this range.''
    | ZombieDtStatus dev status status_path \<Rightarrow>
         zombie_intro @ ''Device '' @ sq dev @ '' has Device Tree status '' @ sq status @ '' at '' @
         sq status_path @ '' (expected '' @ sq ''okay'' @ ''). '' @
         ''Remediation: Enable the peripheral in the Device Tree (`status = '' @ dq ''okay'' @
         '';`) or pass --force (`with_force(true)`) to override.''
    | ZombieRuntimePm dev status pm_path dev_path \<Rightarrow>
         zombie_intro @ ''Device '' @ sq dev @ '' power/clock domain is '' @ sq status @ '' at '' @
         sq pm_path @ ''. Accessing a suspended peripheral can hang the AXI/system bus. '' @
         ''Remediation: Wake the device (`echo on | sudo tee '' @ dev_path @
         ''/power/control`), ensure its driver has active clocks, or pass --force to override.''
    | ZombieSupplierPm dev supplier status pm_path \<Rightarrow>
         zombie_intro @ ''Upstream clock/power supplier '' @ sq supplier @ '' for device '' @ sq dev @
         '' is '' @ sq status @ '' at '' @ sq pm_path @ ''. '' @
         ''Remediation: Ensure upstream clock/power controller is active before accessing '' @ sq dev @
         '', or pass --force to override.''
    | ZombieFpgaState dev manager state state_path \<Rightarrow>
         zombie_intro @ ''Device '' @ sq dev @ '' resides on the FPGA fabric, but FPGA manager '' @
         sq manager @ '' is in state '' @ sq state @ '' at '' @ sq state_path @ '' (expected '' @
         sq ''operating'' @ ''). '' @
         ''Remediation: Load the FPGA bitstream first (e.g., via `fpgautil -b <bitstream>`), or pass --force to override.''
    | ZombieClockGated dev clock clk_path \<Rightarrow>
         zombie_intro @ ''Device '' @ sq dev @ '' clock '' @ sq clock @ '' is gated in hardware at '' @
         sq clk_path @ ''. '' @
         ''Accessing a peripheral with a gated clock can cause an AXI bus hang or kernel RCU stall. '' @
         ''Remediation: Enable the peripheral clock via its driver/device tree before accessing registers, or pass --force to override.''
    | ValidationHookFailed profile check address msk expected actual \<Rightarrow>
         '' Pre-Flight Safety Profile '' @ sq profile @ '' failed on check '' @ sq check @
         '' at address '' @ hex_w address @ '': (actual '' @ hex8_w actual @ '' & mask '' @ hex8_w msk @
         '') == '' @ hex8_w (actual AND msk) @ '', expected '' @ hex8_w (expected AND msk) @ ''. '' @
         ''Remediation: Ensure hardware prerequisite '' @ sq check @ '' is satisfied before accessing target bus.''
    | ValidationProfileParse details \<Rightarrow>
         '' Invalid Safety Profile: '' @ details @ ''. '' @
         ''Remediation: Provide a valid JSON profile with `'' @ dq ''name'' @ '': '' @ dq ''...'' @
         ''` and `'' @ dq ''checks'' @ '': [...]` objects (`name`, `addr`, `mask`, `expected`).''
    | _ \<Rightarrow> err_body_access e)"

definition display :: "mmreg_error \<Rightarrow> string" where
  "display e = ''['' @ err_code e @ '']'' @ err_body e"

section \<open>Codes\<close>

text \<open>\<open>CHR '']''\<close> occurs in no code, so the code can be read back off a message.\<close>

lemma err_code_chars: "CHR '']'' \<notin> set (err_code e)"
  by (cases e) auto

definition message_code :: "string \<Rightarrow> string" where
  "message_code m = takeWhile (\<lambda>c. c \<noteq> CHR '']'') (drop 1 m)"

lemma message_code_display: "message_code (display e) = err_code e"
proof -
  have "\<forall>c\<in>set (err_code e). c \<noteq> CHR '']''"
    using err_code_chars [of e] by auto
  then have "takeWhile (\<lambda>c. c \<noteq> CHR '']'') (err_code e @ '']'' @ err_body e) = err_code e"
    by (subst takeWhile_append2) auto
  then show ?thesis
    by (simp add: message_code_def display_def)
qed

end
