(* ===== verification/Widths.thy ===== *)
theory Widths
  imports Errors
begin

text \<open>
  The data of \<open>src/memregs.rs\<close> that the other parts share: the width of an access and the choice
  of a backend.
\<close>

section \<open>Width\<close>

datatype width = WU8 | WU16 | WU32 | WU64

fun width_bytes :: "width \<Rightarrow> usize" where
  "width_bytes WU8 = 1"
| "width_bytes WU16 = 2"
| "width_bytes WU32 = 4"
| "width_bytes WU64 = 8"

definition width_bits :: "width \<Rightarrow> u32" where
  "width_bits w = ucast (width_bytes w * 8)"

definition width_from_bits :: "u32 \<Rightarrow> width option" where
  "width_from_bits bits =
     (if bits = 8 then Some WU8 else if bits = 16 then Some WU16
      else if bits = 32 then Some WU32 else if bits = 64 then Some WU64 else None)"

text \<open>\<open>v as uN\<close> and back: the value cut to the width, zero-extended to 64 bits.\<close>

definition width_cut :: "width \<Rightarrow> u64 \<Rightarrow> u64" where
  "width_cut w v = take_bit (8 * unat (width_bytes w)) v"

lemma unat_width_bytes: "unat (width_bytes w) \<in> {1, 2, 4, 8}"
  by (cases w) auto

lemma unat_width_bytes_pos [simp]: "0 < unat (width_bytes w)"
  by (cases w) auto

lemma width_cut_idem [simp]: "width_cut w (width_cut w v) = width_cut w v"
  by (simp add: width_cut_def)

lemma width_cut_WU64 [simp]: "width_cut WU64 v = v"
proof -
  have "width_cut WU64 v = take_bit LENGTH(64) v"
    by (simp add: width_cut_def)
  also have "\<dots> = v"
    by (rule take_bit_length_eq)
  finally show ?thesis .
qed

lemma width_cut_32 [simp]:
  "width_cut WU32 (ucast (x :: u32)) = ucast x"
  "(ucast (width_cut WU32 v) :: u32) = ucast v"
  by (rule bit_word_eqI; auto simp: width_cut_def bit_simps dest: bit_imp_le_length)+

lemma unat_width_cut: "unat (width_cut w v) < 2 ^ (8 * unat (width_bytes w))"
  unfolding width_cut_def unsigned_take_bit_eq by simp

lemma width_from_bits_bits [simp]: "width_from_bits (width_bits w) = Some w"
  by (cases w) (simp_all add: width_from_bits_def width_bits_def)

lemma width_from_bits_Some: "width_from_bits b = Some w \<Longrightarrow> b = width_bits w"
  by (auto simp: width_from_bits_def width_bits_def split: if_splits)

section \<open>MapperType\<close>

text \<open>\<open>Uio\<close> holds the device path and the region index.\<close>

datatype mapper_type = Auto | DevMem | Uio path usize

end
