(* ===== verification/Mmio.thy ===== *)
theory Mmio
  imports Widths
begin

text \<open>
  \<open>src/mmio.rs\<close>: the operating-system calls of the crate. The calls themselves are answered by the
  kernel and are arguments of the definitions: a loop that retries a call takes the list of the
  answers it gets, and \<open>None\<close> as its result means that the list ran out before the loop ended. A
  mapping is identified by the physical address behind its first byte; the hardware reached
  through it is a state \<open>'h\<close> with a read and a write operation.
\<close>

section \<open>Errors of the standard library\<close>

datatype io_kind = NotFound | Interrupted | InvalidInput | WriteZero | UnexpectedEof | BrokenPipe
  | OtherKind

text \<open>\<open>io::Error\<close>: its \<open>kind()\<close> and its \<open>to_string()\<close>.\<close>

record io_error =
  ie_kind :: io_kind
  ie_text :: string

definition io_from_kind :: "io_kind \<Rightarrow> io_error" where
  "io_from_kind k = \<lparr>ie_kind = k, ie_text = (case k of
       NotFound \<Rightarrow> ''entity not found''
     | Interrupted \<Rightarrow> ''operation interrupted''
     | InvalidInput \<Rightarrow> ''invalid input parameter''
     | WriteZero \<Rightarrow> ''write zero''
     | UnexpectedEof \<Rightarrow> ''unexpected end of file''
     | BrokenPipe \<Rightarrow> ''broken pipe''
     | OtherKind \<Rightarrow> ''other error'')\<rparr>"

section \<open>The kernel\<close>

text \<open>
  An open file is known by the file behind it (\<open>st_dev\<close>, \<open>st_ino\<close>), which is what \<open>flock\<close> and
  the lock registry key on.
\<close>

type_synonym file_key = "nat \<times> nat"

record os_file =
  fl_path :: path
  fl_key :: file_key

text \<open>
  The answers of the kernel: \<open>sysconf\<close>, \<open>open\<close> (path, \<open>O_SYNC\<close>, read-only), \<open>mmap\<close> (file, length,
  read-only, offset) with the physical address behind the first byte, and the bus.
\<close>

record 'h kernel =
  k_sysconf_page :: int
  k_open :: "path \<Rightarrow> bool \<Rightarrow> bool \<Rightarrow> io_error + os_file"
  k_mmap :: "os_file \<Rightarrow> usize \<Rightarrow> bool \<Rightarrow> u64 \<Rightarrow> io_error + u64"
  k_rd :: "u64 \<Rightarrow> width \<Rightarrow> 'h \<Rightarrow> u64 \<times> 'h"
  k_wr :: "u64 \<Rightarrow> width \<Rightarrow> u64 \<Rightarrow> 'h \<Rightarrow> 'h"

definition page_size :: "'h kernel \<Rightarrow> u64" where
  "page_size K = (if k_sysconf_page K > 0 then word_of_int (k_sysconf_page K) else 4096)"

definition open_device :: "'h kernel \<Rightarrow> path \<Rightarrow> bool \<Rightarrow> bool \<Rightarrow> io_error + os_file" where
  "open_device K p sync read_only = k_open K p sync read_only"

section \<open>Retry loops\<close>

text \<open>\<open>flock(LOCK_EX)\<close>: \<open>None\<close> is success.\<close>

fun lock_exclusive :: "io_error option list \<Rightarrow> (io_error + unit) option" where
  "lock_exclusive [] = None"
| "lock_exclusive (None # answers) = Some (Inr ())"
| "lock_exclusive (Some err # answers) =
     (if ie_kind err \<noteq> Interrupted then Some (Inl err) else lock_exclusive answers)"

text \<open>\<open>write(fd, 1u32, 4)\<close>: the error, or the number of bytes written.\<close>

fun irq_unmask :: "(io_error + nat) list \<Rightarrow> (io_error + unit) option" where
  "irq_unmask [] = None"
| "irq_unmask (Inr written # answers) =
     (if written = 4 then Some (Inr ()) else Some (Inl (io_from_kind WriteZero)))"
| "irq_unmask (Inl err # answers) =
     (if ie_kind err = Interrupted then irq_unmask answers else Some (Inl err))"

text \<open>
  Time is in nanoseconds of the monotonic clock; an \<open>Instant\<close> holds seconds below \<open>2^63\<close>.
\<close>

definition instant_checked_add :: "nat \<Rightarrow> nat \<Rightarrow> nat option" where
  "instant_checked_add now d = (if now + d < 2 ^ 63 * 10 ^ 9 then Some (now + d) else None)"

definition i32_max :: int where
  "i32_max = 2 ^ 31 - 1"

definition poll_timeout_ms :: "nat option \<Rightarrow> nat \<Rightarrow> int" where
  "poll_timeout_ms deadline now = (case deadline of
       None \<Rightarrow> - 1
     | Some fin \<Rightarrow>
         (let nanos = fin - now;
              ms = int ((nanos + 999999) div 1000000)
          in if ms \<le> i32_max then ms else i32_max))"

text \<open>\<open>read(fd, buf, 4)\<close>: the error, or the bytes read; the counter is little-endian.\<close>

definition u32_from_ne_bytes :: "string \<Rightarrow> u32" where
  "u32_from_ne_bytes b = word_of_nat (\<Sum>i<4. byte (b ! i) * 256 ^ i)"

fun irq_read :: "(io_error + string) list \<Rightarrow> (io_error + u32 option) option" where
  "irq_read [] = None"
| "irq_read (Inr buf # answers) =
     (if length buf = 4 then Some (Inr (Some (u32_from_ne_bytes buf)))
      else Some (Inl (io_from_kind UnexpectedEof)))"
| "irq_read (Inl err # answers) =
     (if ie_kind err = Interrupted then irq_read answers else Some (Inl err))"

text \<open>
  One turn of the outer loop: the clock when the timeout is computed, the answer of \<open>poll\<close>
  (\<open>PollReady b\<close>: one descriptor, with \<open>POLLIN\<close> set or not) and the clock after it.
\<close>

datatype poll_answer = PollZero | PollError io_error | PollReady bool

type_synonym poll_turn = "nat \<times> poll_answer \<times> nat"

fun irq_wait_loop ::
  "nat option \<Rightarrow> poll_turn list \<Rightarrow> (io_error + string) list \<Rightarrow> (io_error + u32 option) option"
where
  "irq_wait_loop deadline [] reads = None"
| "irq_wait_loop deadline ((before, PollZero, after) # turns) reads =
     (case deadline of
        Some fin \<Rightarrow> if after < fin then irq_wait_loop deadline turns reads else Some (Inr None)
      | None \<Rightarrow> Some (Inr None))"
| "irq_wait_loop deadline ((before, PollError err, after) # turns) reads =
     (if ie_kind err = Interrupted then irq_wait_loop deadline turns reads else Some (Inl err))"
| "irq_wait_loop deadline ((before, PollReady pollin, after) # turns) reads =
     (if \<not> pollin then Some (Inl (io_from_kind BrokenPipe)) else irq_read reads)"

definition irq_wait ::
  "nat \<Rightarrow> nat \<Rightarrow> poll_turn list \<Rightarrow> (io_error + string) list \<Rightarrow> (io_error + u32 option) option"
where
  "irq_wait start timeout turns reads =
     irq_wait_loop (instant_checked_add start timeout) turns reads"

section \<open>Mapping\<close>

record mapping =
  mp_ptr :: u64          \<comment> \<open>physical address behind the first mapped byte\<close>
  mp_len :: usize
  mp_data_offset :: usize

definition mapping_new ::
  "'h kernel \<Rightarrow> os_file \<Rightarrow> u64 \<Rightarrow> usize \<Rightarrow> usize \<Rightarrow> bool \<Rightarrow> io_error + mapping"
where
  "mapping_new K f file_offset data_offset sz read_only =
     (if sz = 0 then Inl (io_from_kind InvalidInput)
      else case checked_add data_offset sz of
        None \<Rightarrow> Inl (io_from_kind InvalidInput)
      | Some len \<Rightarrow>
          if 2 ^ 63 \<le> unat file_offset then Inl (io_from_kind InvalidInput)
          else rbind (k_mmap K f len read_only file_offset)
            (\<lambda>ptr. Inr \<lparr>mp_ptr = ptr, mp_len = len, mp_data_offset = data_offset\<rparr>))"

text \<open>\<open>Mapping::register\<close>: \<open>None\<close> is the failed \<open>assert!\<close>.\<close>

definition mapping_register :: "mapping \<Rightarrow> u32 \<Rightarrow> width \<Rightarrow> u64 option" where
  "mapping_register m offset w =
     (let at = saturating_add (mp_data_offset m) (ucast offset);
          bytes = width_bytes w
      in if at mod bytes = 0
            \<and> (case checked_add at bytes of None \<Rightarrow> False | Some fin \<Rightarrow> fin \<le> mp_len m)
         then Some (mp_ptr m + at) else None)"

definition mapping_read :: "'h kernel \<Rightarrow> mapping \<Rightarrow> u32 \<Rightarrow> width \<Rightarrow> 'h \<Rightarrow> (u64 \<times> 'h) run" where
  "mapping_read K m offset w h = (case mapping_register m offset w of
       None \<Rightarrow> Panics
     | Some p \<Rightarrow> (case k_rd K p w h of (v, h') \<Rightarrow> Done (width_cut w v, h')))"

definition mapping_write :: "'h kernel \<Rightarrow> mapping \<Rightarrow> u32 \<Rightarrow> width \<Rightarrow> u64 \<Rightarrow> 'h \<Rightarrow> 'h run" where
  "mapping_write K m offset w v h = (case mapping_register m offset w of
       None \<Rightarrow> Panics
     | Some p \<Rightarrow> Done (k_wr K p w (width_cut w v) h))"

section \<open>Access to a mapping\<close>

lemma mapping_new_Inr:
  assumes "mapping_new K f fo d sz ro = Inr m"
  shows "sz \<noteq> 0" "mp_data_offset m = d" "unat (mp_len m) = unat d + unat sz"
    "k_mmap K f (mp_len m) ro fo = Inr (mp_ptr m)"
  using assms
  by (auto simp: mapping_new_def rbind_Inr_iff word_nat split: if_splits option.splits)

lemma width_dvd_iff: "at mod width_bytes w = 0 \<longleftrightarrow> unat (width_bytes w) dvd unat at"
  by (simp add: word_unat_eq_iff unat_mod dvd_eq_mod_eq_0)

text \<open>
  The addition of \<open>register\<close> saturates, but a saturated address is never accepted: an access is
  accepted exactly when the sum, as a number, is aligned and leaves room for the access.
\<close>

lemma mapping_register_iff:
  "mapping_register m off w = Some p \<longleftrightarrow>
     unat (width_bytes w) dvd unat (mp_data_offset m) + unat off
     \<and> unat (mp_data_offset m) + unat off + unat (width_bytes w) \<le> unat (mp_len m)
     \<and> p = mp_ptr m + (mp_data_offset m + ucast off)"
proof (cases "unat (mp_data_offset m) + unat off < 2 ^ 64")
  case True
  define at :: u64 where "at = mp_data_offset m + ucast off"
  have sat: "saturating_add (mp_data_offset m) (ucast off :: u64) = at"
    using True by (simp add: saturating_add_def at_def)
  have at: "unat at = unat (mp_data_offset m) + unat off"
    using True by (simp add: at_def unat_add_no_wrap)
  have room: "(case checked_add at (width_bytes w) of None \<Rightarrow> False | Some fin \<Rightarrow> fin \<le> mp_len m)
      \<longleftrightarrow> unat at + unat (width_bytes w) \<le> unat (mp_len m)"
  proof (cases "checked_add at (width_bytes w)")
    case None
    then have "2 ^ 64 \<le> unat at + unat (width_bytes w)"
      by (simp add: checked_add_None_iff)
    then have "\<not> unat at + unat (width_bytes w) \<le> unat (mp_len m)"
      using unat_bound [of "mp_len m"] by simp
    then show ?thesis
      by (simp only: None option.case)
  next
    case (Some c)
    moreover from Some have "unat c = unat at + unat (width_bytes w)"
      by (simp add: checked_add_Some_iff)
    ultimately show ?thesis
      by (simp add: word_le_nat_alt)
  qed
  show ?thesis
    unfolding mapping_register_def Let_def sat room width_dvd_iff at at_def [symmetric]
    by auto
next
  case False
  have sat: "unat (saturating_add (mp_data_offset m) (ucast off :: u64)) = 2 ^ 64 - 1"
    using False by (simp add: unat_saturating_add min_def)
  then have "checked_add (saturating_add (mp_data_offset m) (ucast off)) (width_bytes w) = None"
    unfolding checked_add_None_iff sat by (simp add: Suc_le_eq)
  then have "mapping_register m off w = None"
    by (simp add: mapping_register_def Let_def)
  moreover have "\<not> unat (mp_data_offset m) + unat off + unat (width_bytes w) \<le> unat (mp_len m)"
    using False unat_bound [of "mp_len m"] by simp
  ultimately show ?thesis
    by simp
qed

lemma mapping_bus:
  assumes "mapping_new K f fo d sz ro = Inr m"
  shows "mapping_write K m off w v h =
      (if unat (width_bytes w) dvd unat d + unat off \<and> unat off + unat (width_bytes w) \<le> unat sz
       then Done (k_wr K (mp_ptr m + (d + ucast off)) w (width_cut w v) h) else Panics)
    \<and> mapping_read K m off w h =
      (if unat (width_bytes w) dvd unat d + unat off \<and> unat off + unat (width_bytes w) \<le> unat sz
       then Done (map_prod (width_cut w) id (k_rd K (mp_ptr m + (d + ucast off)) w h)) else Panics)"
proof -
  note m = mapping_new_Inr [OF assms]
  have reg: "mapping_register m off w =
      (if unat (width_bytes w) dvd unat d + unat off \<and> unat off + unat (width_bytes w) \<le> unat sz
       then Some (mp_ptr m + (d + ucast off)) else None)"
  proof (cases "unat (width_bytes w) dvd unat d + unat off \<and> unat off + unat (width_bytes w) \<le> unat sz")
    case True
    then have "mapping_register m off w = Some (mp_ptr m + (d + ucast off))"
      by (simp add: mapping_register_iff m)
    then show ?thesis using True by simp
  next
    case False
    then have "mapping_register m off w \<noteq> Some p" for p
      by (auto simp: mapping_register_iff m)
    then show ?thesis using False by (cases "mapping_register m off w") auto
  qed
  show ?thesis
    by (auto simp: mapping_write_def mapping_read_def reg map_prod_def split: prod.splits)
qed

text \<open>
  C32: a mapping that \<open>Mapping::new\<close> has returned holds exactly the requested window: a read or a
  write inside the window at an aligned position does not panic and reaches the bus at the
  requested byte, and any other panics before it touches the bus.
\<close>

theorem mapping_access:
  assumes "mapping_new K f fo d sz ro = Inr m"
  shows "mapping_write K m off w v h =
      (if unat (width_bytes w) dvd unat d + unat off \<and> unat off + unat (width_bytes w) \<le> unat sz
       then Done (k_wr K (mp_ptr m + (d + ucast off)) w (width_cut w v) h) else Panics)
    \<and> mapping_read K m off w h =
      (if unat (width_bytes w) dvd unat d + unat off \<and> unat off + unat (width_bytes w) \<le> unat sz
       then Done (map_prod (width_cut w) id (k_rd K (mp_ptr m + (d + ucast off)) w h)) else Panics)"
  by (rule mapping_bus [OF assms])

text \<open>A kernel for the witnesses: every file opens and maps, and the bus is a map of bytes.\<close>

definition flat_read :: "u64 \<Rightarrow> width \<Rightarrow> (u64 \<Rightarrow> nat) \<Rightarrow> u64 \<times> (u64 \<Rightarrow> nat)" where
  "flat_read a w ram =
     (word_of_nat (\<Sum>i<unat (width_bytes w). ram (a + word_of_nat i) * 256 ^ i), ram)"

definition flat_write :: "u64 \<Rightarrow> width \<Rightarrow> u64 \<Rightarrow> (u64 \<Rightarrow> nat) \<Rightarrow> (u64 \<Rightarrow> nat)" where
  "flat_write a w v ram =
     (\<lambda>b. if unat (b - a) < unat (width_bytes w) then unat v div 256 ^ unat (b - a) mod 256
          else ram b)"

definition flat_kernel :: "(u64 \<Rightarrow> nat) kernel" where
  "flat_kernel = \<lparr>k_sysconf_page = 4096,
     k_open = (\<lambda>p sync ro. Inr \<lparr>fl_path = p, fl_key = (1, length p)\<rparr>),
     k_mmap = (\<lambda>f len ro off. Inr off),
     k_rd = flat_read, k_wr = flat_write\<rparr>"

theorem mapping_access_witness:
  "mapping_write flat_kernel \<lparr>mp_ptr = 0x1000, mp_len = 0x30, mp_data_offset = 0x20\<rparr> 8 WU32 0x15
     (\<lambda>_. 0) = Done (flat_write 0x1028 WU32 0x15 (\<lambda>_. 0))"
proof -
  have new: "mapping_new flat_kernel \<lparr>fl_path = ''/dev/mem'', fl_key = (1, 8)\<rparr> 0x1000 0x20 0x10 False
      = Inr \<lparr>mp_ptr = 0x1000, mp_len = 0x30, mp_data_offset = 0x20\<rparr>"
    by (simp add: mapping_new_def checked_add_def flat_kernel_def)
  show ?thesis
    using mapping_access [OF new, of 8 WU32 "0x15" "\<lambda>_. 0"]
    by (simp add: flat_kernel_def width_cut_def take_bit_eq_mod)
qed

section \<open>Waiting for an interrupt\<close>

lemma poll_timeout_value:
  obtains ms where "poll_timeout_ms (Some fin) now = min (int ms) i32_max"
    "fin - now \<le> ms * 10 ^ 6" "ms * 10 ^ 6 < fin - now + 10 ^ 6"
proof
  define ms where "ms = (fin - now + 999999) div 1000000"
  show "poll_timeout_ms (Some fin) now = min (int ms) i32_max"
    by (simp add: poll_timeout_ms_def ms_def Let_def min_def)
  have "n \<le> (n + 999999) div 1000000 * 1000000" "(n + 999999) div 1000000 * 1000000 < n + 1000000"
    for n :: nat
    using div_mult_mod_eq [of "n + 999999" 1000000] mod_less_divisor [of 1000000 "n + 999999"]
    by linarith+
  then show "fin - now \<le> ms * 10 ^ 6" "ms * 10 ^ 6 < fin - now + 10 ^ 6"
    by (simp_all add: ms_def)
qed

lemma i32_max_pos: "0 < i32_max"
  by (simp add: i32_max_def)

text \<open>
  The timeout handed to \<open>poll\<close> is the remaining time in milliseconds rounded up: unless it is
  capped at \<open>i32::MAX\<close>, a \<open>poll\<close> that waits it out ends at the deadline or less than a millisecond
  after it, so the loop never spins just before the deadline.
\<close>

theorem poll_timeout_rounds_up:
  "0 \<le> poll_timeout_ms (Some fin) now \<and> poll_timeout_ms (Some fin) now \<le> i32_max
    \<and> (poll_timeout_ms (Some fin) now = 0) = (fin \<le> now)
    \<and> (poll_timeout_ms (Some fin) now \<noteq> i32_max
        \<longrightarrow> fin \<le> now + nat (poll_timeout_ms (Some fin) now) * 10 ^ 6
          \<and> now + nat (poll_timeout_ms (Some fin) now) * 10 ^ 6 < max fin now + 10 ^ 6)"
proof -
  obtain ms where p: "poll_timeout_ms (Some fin) now = min (int ms) i32_max"
    and hi: "fin - now \<le> ms * 10 ^ 6" and lo: "ms * 10 ^ 6 < fin - now + 10 ^ 6"
    by (rule poll_timeout_value)
  have zero: "ms = 0 \<longleftrightarrow> fin \<le> now"
    using hi lo by auto
  have "fin \<le> now + ms * 10 ^ 6"
    using hi by simp
  moreover have "now + ms * 10 ^ 6 < max fin now + 10 ^ 6"
    using lo by linarith
  ultimately have "fin \<le> now + ms * 10 ^ 6" "now + ms * 10 ^ 6 < max fin now + 10 ^ 6"
    by blast+
  then show ?thesis
    using zero i32_max_pos unfolding p by (auto simp: min_def)
qed

theorem poll_timeout_rounds_up_witness:
  "poll_timeout_ms (Some 5000001) 0 = 6
    \<and> (5000001::nat) \<le> 0 + nat (poll_timeout_ms (Some 5000001) 0) * 10 ^ 6"
proof -
  have six: "poll_timeout_ms (Some 5000001) 0 = 6"
    by (simp add: poll_timeout_ms_def i32_max_def)
  then have "poll_timeout_ms (Some 5000001) 0 \<noteq> i32_max"
    by (simp add: i32_max_def)
  with poll_timeout_rounds_up [of 5000001 0] six show ?thesis by blast
qed

text \<open>
  The contract of \<open>poll\<close>: it answers 0 only after its timeout has passed, and never when the
  timeout is infinite.
\<close>

fun poll_contract :: "nat option \<Rightarrow> poll_turn \<Rightarrow> bool" where
  "poll_contract deadline (before, PollZero, after) =
     (deadline \<noteq> None \<and> before + nat (poll_timeout_ms deadline before) * 10 ^ 6 \<le> after)"
| "poll_contract deadline _ = True"

text \<open>The turns whose \<open>poll\<close> timed out.\<close>

definition zero_turns :: "poll_turn list \<Rightarrow> nat" where
  "zero_turns turns = length (filter (\<lambda>(_, a, _). a = PollZero) turns)"

lemma irq_wait_loop_timeout:
  assumes "irq_wait_loop deadline turns reads = Some (Inr None)"
  shows "\<exists>before after. (before, PollZero, after) \<in> set turns \<and> (\<forall>fin. deadline = Some fin \<longrightarrow> fin \<le> after)"
  using assms
proof (induction deadline turns reads rule: irq_wait_loop.induct)
  case (2 deadline before after turns reads)
  show ?case
  proof (cases "\<exists>fin. deadline = Some fin \<and> after < fin")
    case True
    with "2.prems" "2.IH" obtain b a where "(b, PollZero, a) \<in> set turns"
      "\<forall>fin. deadline = Some fin \<longrightarrow> fin \<le> a"
      by auto
    then show ?thesis
      by (intro exI [of _ b] exI [of _ a]) auto
  next
    case False
    then show ?thesis
      by (intro exI [of _ before] exI [of _ after]) auto
  qed
next
  case (4 deadline before pollin after turns reads)
  have "irq_read rs \<noteq> Some (Inr None)" for rs
    by (induction rs rule: irq_read.induct) auto
  with 4 show ?case by (auto split: if_splits)
qed (auto split: if_splits)

text \<open>A turn whose \<open>poll\<close> was interrupted by a signal.\<close>

fun poll_interrupted :: "poll_turn \<Rightarrow> bool" where
  "poll_interrupted (_, PollError err, _) = (ie_kind err = Interrupted)"
| "poll_interrupted _ = False"

lemma irq_wait_loop_interrupted:
  "\<forall>t\<in>set turns. poll_interrupted t
    \<Longrightarrow> irq_wait_loop deadline (turns @ rest) reads = irq_wait_loop deadline rest reads"
  by (induction turns) (auto elim!: poll_interrupted.elims)



end
