(* ===== verification/Parse.thy ===== *)
theory Parse
  imports Errors
begin

text \<open>
  \<open>src/parse.rs\<close>: integers of command-line arguments, safety profiles and sysfs attributes.
  The radix of every caller is 10 or 16; \<open>char::to_digit\<close> panics above 36, so the theorems are
  stated for radices from 2 to 36.
\<close>

section \<open>The parser\<close>

text \<open>\<open>(b as char).to_digit(radix)\<close>.\<close>

definition to_digit :: "char \<Rightarrow> nat \<Rightarrow> nat option" where
  "to_digit c radix =
     (let n = byte c;
          d = (if 48 \<le> n \<and> n \<le> 57 then Some (n - 48)
               else if 97 \<le> n \<and> n \<le> 122 then Some (n - 87)
               else if 65 \<le> n \<and> n \<le> 90 then Some (n - 55)
               else None)
      in case d of Some k \<Rightarrow> if k < radix then Some k else None | None \<Rightarrow> None)"

text \<open>The loop over the digits' bytes, with its accumulator and \<open>saw_digit\<close>.\<close>

fun parse_digits :: "string \<Rightarrow> u32 \<Rightarrow> string \<Rightarrow> u64 \<Rightarrow> bool \<Rightarrow> string + (u64 \<times> bool)" where
  "parse_digits input radix [] acc saw = Inr (acc, saw)"
| "parse_digits input radix (b # bs) acc saw =
     (if b = CHR ''_'' then parse_digits input radix bs acc saw
      else case to_digit b (unat radix) of
          None \<Rightarrow> Inl (''invalid digit '' @ sq (utf8_encode (byte b)) @ '' in '' @ sq input)
        | Some d \<Rightarrow>
            (case Option.bind (checked_mul acc (ucast radix)) (\<lambda>v. checked_add v (of_nat d)) of
               None \<Rightarrow> Inl (''integer overflow in '' @ sq input)
             | Some acc' \<Rightarrow> parse_digits input radix bs acc' True))"

text \<open>The optional prefix: the digits after it and the radix it selects.\<close>

definition split_radix :: "string \<Rightarrow> u32 \<Rightarrow> string \<times> u32" where
  "split_radix t default_radix =
     (if starts_with t ''0x'' \<or> starts_with t ''0X'' then (drop 2 t, 16)
      else if starts_with t ''0d'' \<or> starts_with t ''0D'' then (drop 2 t, 10)
      else (t, default_radix))"

definition parse_u64_radix :: "string \<Rightarrow> u32 \<Rightarrow> string + u64" where
  "parse_u64_radix input default_radix =
     (let trimmed = str_trim input in
      if trimmed = [] \<or> starts_with trimmed ''+'' \<or> starts_with trimmed ''-''
      then Inl (''invalid integer '' @ sq input)
      else (let (digits, radix) = split_radix trimmed default_radix in
            case parse_digits input radix digits 0 False of
              Inl e \<Rightarrow> Inl e
            | Inr (acc, saw) \<Rightarrow>
                if saw then Inr acc else Inl (''no digits found in '' @ sq input)))"

definition parse_u32_radix :: "string \<Rightarrow> u32 \<Rightarrow> string + u32" where
  "parse_u32_radix input default_radix =
     (case parse_u64_radix input default_radix of
        Inl e \<Rightarrow> Inl e
      | Inr val \<Rightarrow>
          if unat val < 2 ^ 32 then Inr (ucast val)
          else Inl (''value '' @ sq input @ '' exceeds 32-bit unsigned integer''))"

section \<open>What the digits denote\<close>

text \<open>
  The specification: a digit string is any mix of digits of the radix and underscores with at
  least one digit, and denotes the positional value of its digits, an unbounded number.
\<close>

definition horner :: "nat \<Rightarrow> nat list \<Rightarrow> nat" where
  "horner b ds = foldl (\<lambda>a d. a * b + d) 0 ds"

definition digits_in :: "nat \<Rightarrow> string \<Rightarrow> nat list" where
  "digits_in b s = map (\<lambda>c. the (to_digit c b)) (filter (\<lambda>c. c \<noteq> CHR ''_'') s)"

definition digit_string :: "nat \<Rightarrow> string \<Rightarrow> bool" where
  "digit_string b s \<longleftrightarrow> (\<forall>c\<in>set s. c = CHR ''_'' \<or> to_digit c b \<noteq> None)"

definition denotes :: "nat \<Rightarrow> string \<Rightarrow> nat \<Rightarrow> bool" where
  "denotes b s n \<longleftrightarrow> digit_string b s \<and> digits_in b s \<noteq> [] \<and> n = horner b (digits_in b s)"

lemma digits_in_simps [simp]:
  "digits_in b [] = []"
  "digits_in b (CHR ''_'' # s) = digits_in b s"
  "c \<noteq> CHR ''_'' \<Longrightarrow> digits_in b (c # s) = the (to_digit c b) # digits_in b s"
  by (simp_all add: digits_in_def)

lemma digit_string_simps [simp]:
  "digit_string b []"
  "digit_string b (c # s) \<longleftrightarrow> (c = CHR ''_'' \<or> to_digit c b \<noteq> None) \<and> digit_string b s"
  by (auto simp: digit_string_def)

lemma to_digit_less: "to_digit c b = Some d \<Longrightarrow> d < b"
  by (auto simp: to_digit_def Let_def split: if_splits)

lemma foldl_horner_mono: "1 \<le> b \<Longrightarrow> a \<le> foldl (\<lambda>a d. a * b + d) a ds" for a b :: nat
proof (induction ds arbitrary: a)
  case Nil
  then show ?case by simp
next
  case (Cons d ds)
  have "a \<le> a * b + d"
    using mult_le_mono2 [OF Cons.prems, of a] by linarith
  also have "\<dots> \<le> foldl (\<lambda>a d. a * b + d) (a * b + d) ds"
    using Cons.prems by (rule Cons.IH)
  finally show ?case by simp
qed

text \<open>One accumulation step is exact, or the unbounded value has left the 64-bit range.\<close>

lemma accumulate_iff:
  fixes acc v :: u64 and radix :: u32
  assumes "d < 64"
  shows "Option.bind (checked_mul acc (ucast radix)) (\<lambda>v. checked_add v (of_nat d)) = Some v
    \<longleftrightarrow> unat v = unat acc * unat radix + d"
proof -
  have r: "unat (ucast radix :: u64) = unat radix"
    by simp
  have d: "unat (of_nat d :: u64) = d"
    using assms by (simp add: unat_of_nat)
  show ?thesis
  proof
    assume "Option.bind (checked_mul acc (ucast radix)) (\<lambda>v. checked_add v (of_nat d)) = Some v"
    then obtain m where "checked_mul acc (ucast radix) = Some m" "checked_add m (of_nat d) = Some v"
      by (auto simp: bind_eq_Some_conv)
    then show "unat v = unat acc * unat radix + d"
      by (simp add: word_nat r d)
  next
    assume v: "unat v = unat acc * unat radix + d"
    then have "unat acc * unat radix < 2 ^ LENGTH(64)"
      using unat_bound [of v] by linarith
    then have "checked_mul acc (ucast radix) = Some (acc * ucast radix)"
      by (simp only: checked_mul_def r if_True)
    moreover from this have "unat (acc * ucast radix) = unat acc * unat radix"
      by (simp add: checked_mul_Some_iff r)
    ultimately show "Option.bind (checked_mul acc (ucast radix)) (\<lambda>v. checked_add v (of_nat d)) = Some v"
      by (simp add: checked_add_Some_iff v d)
  qed
qed

text \<open>A digit that overflows is in no number of 64 bits.\<close>

lemma accumulate_overflow:
  fixes radix :: u32 and acc v :: u64
  assumes "1 \<le> unat radix" "d < 64"
    and "Option.bind (checked_mul acc (ucast radix)) (\<lambda>v. checked_add v (of_nat d)) = (None :: u64 option)"
  shows "unat v \<noteq> foldl (\<lambda>a d. a * unat radix + d) (unat acc * unat radix + d) ds"
proof
  assume v: "unat v = foldl (\<lambda>a d. a * unat radix + d) (unat acc * unat radix + d) ds"
  have "unat acc * unat radix + d \<le> foldl (\<lambda>a d. a * unat radix + d) (unat acc * unat radix + d) ds"
    by (rule foldl_horner_mono) (use assms(1) in simp)
  then have "unat acc * unat radix + d < 2 ^ LENGTH(64)"
    using v unat_bound [of v] by linarith
  then have "unat (of_nat (unat acc * unat radix + d) :: u64) = unat acc * unat radix + d"
    by (simp only: Word.unat_of_nat mod_less)
  then show False
    using assms(3) accumulate_iff [OF assms(2), of acc radix] by (metis option.distinct(1))
qed

lemma parse_digits_Inr_iff:
  assumes "2 \<le> unat radix" "unat radix \<le> 36"
  shows "parse_digits input radix s acc saw = Inr (v, saw') \<longleftrightarrow>
    digit_string (unat radix) s \<and>
    unat v = foldl (\<lambda>a d. a * unat radix + d) (unat acc) (digits_in (unat radix) s) \<and>
    saw' = (saw \<or> digits_in (unat radix) s \<noteq> [])"
proof (induction s arbitrary: acc saw)
  case Nil
  show ?case by (auto simp: word_unat_eq_iff)
next
  case (Cons b s)
  show ?case
  proof (cases "b = CHR ''_''")
    case True
    then show ?thesis by (simp add: Cons.IH)
  next
    case False
    show ?thesis
    proof (cases "to_digit b (unat radix)")
      case None
      with False show ?thesis by simp
    next
      case (Some d)
      then have d: "d < unat radix" and d64: "d < 64"
        using to_digit_less assms(2) by fastforce+
      let ?next = "Option.bind (checked_mul acc (ucast radix)) (\<lambda>v. checked_add v (of_nat d)) :: u64 option"
      show ?thesis
      proof (cases ?next)
        case None
        have "unat v \<noteq> foldl (\<lambda>a d. a * unat radix + d) (unat acc * unat radix + d) (digits_in (unat radix) s)"
          using accumulate_overflow [OF _ d64 None] assms(1) by simp
        with None Some False show ?thesis by simp
      next
        case (Some acc')
        then have "unat acc' = unat acc * unat radix + d"
          using accumulate_iff [OF d64] by blast
        with Some \<open>to_digit b (unat radix) = Some d\<close> False show ?thesis
          by (simp add: Cons.IH)
      qed
    qed
  qed
qed

section \<open>Correctness\<close>

text \<open>The number an input spells: the specification of both parsers.\<close>

definition spells :: "u32 \<Rightarrow> string \<Rightarrow> nat \<Rightarrow> bool" where
  "spells default_radix input n \<longleftrightarrow>
     (let t = str_trim input; (digits, radix) = split_radix t default_radix
      in \<not> starts_with t ''+'' \<and> \<not> starts_with t ''-'' \<and> denotes (unat radix) digits n)"

lemma denotes_unique: "denotes b s m \<Longrightarrow> denotes b s n \<Longrightarrow> m = n"
  by (simp add: denotes_def)

lemma split_radix_cases:
  "split_radix t r = (digits, radix) \<Longrightarrow> radix \<in> {16, 10, r}"
  by (auto simp: split_radix_def split: if_splits)

lemma split_radix_empty: "split_radix [] r = ([], r)"
  by (simp add: split_radix_def starts_with_def)

lemma parse_u64_radix_iff:
  assumes "2 \<le> unat r" "unat r \<le> 36"
  shows "parse_u64_radix input r = Inr v \<longleftrightarrow> spells r input (unat v)"
proof -
  let ?t = "str_trim input"
  obtain digits radix where sp: "split_radix ?t r = (digits, radix)"
    by fastforce
  have radix: "2 \<le> unat radix" "unat radix \<le> 36"
    using split_radix_cases [OF sp] assms by auto
  have empty: "\<not> denotes (unat radix) digits n" if "?t = []" for n
    using that sp by (auto simp: split_radix_empty denotes_def)
  have loop: "parse_digits input radix digits 0 False = Inr (w, True)
      \<longleftrightarrow> denotes (unat radix) digits (unat w)" for w
    using parse_digits_Inr_iff [OF radix, of input digits 0 False w True]
    by (auto simp: denotes_def horner_def)
  show ?thesis
  proof (cases "parse_digits input radix digits 0 False")
    case (Inl e)
    then show ?thesis
      using loop [of v] by (simp add: parse_u64_radix_def spells_def Let_def sp)
  next
    case (Inr p)
    obtain w saw where "p = (w, saw)" by fastforce
    with Inr loop [of v] empty show ?thesis
      by (auto simp: parse_u64_radix_def spells_def Let_def sp)
  qed
qed

text \<open>
  C1: a 64-bit parse succeeds with \<open>v\<close> exactly when the trimmed input carries no sign and, after
  at most one \<open>0x\<close>/\<open>0d\<close> prefix, is a digit string of the radix that denotes \<open>v\<close>: no input is
  accepted with a wrong value, none is rejected that spells a 64-bit number.
\<close>

theorem parse_u64_radix_correct:
  assumes "2 \<le> unat r" "unat r \<le> 36"
  shows "parse_u64_radix input r = Inr v \<longleftrightarrow> spells r input (unat v)"
  by (rule parse_u64_radix_iff [OF assms])

theorem parse_u64_radix_correct_witness:
  "parse_u64_radix ''0x1_F'' 10 = Inr 31 \<longleftrightarrow> spells 10 ''0x1_F'' (unat (31 :: u64))"
  by (rule parse_u64_radix_correct) simp_all

lemma parse_u64_radix_None:
  assumes "2 \<le> unat r" "unat r \<le> 36"
  shows "(\<exists>e. parse_u64_radix input r = Inl e) \<longleftrightarrow> \<not> (\<exists>v. spells r input (unat (v :: u64)))"
  using parse_u64_radix_iff [OF assms, of input]
  by (cases "parse_u64_radix input r") auto

text \<open>
  The 32-bit parser accepts exactly the inputs that spell a number below \<open>2 ^ 32\<close>, with that
  number.
\<close>

theorem parse_u32_radix_correct:
  assumes "2 \<le> unat r" "unat r \<le> 36"
  shows "parse_u32_radix input r = Inr w \<longleftrightarrow> spells r input (unat w)"
proof
  assume "parse_u32_radix input r = Inr w"
  then obtain v where v: "parse_u64_radix input r = Inr v" "unat v < 2 ^ 32" "w = ucast v"
    by (auto simp: parse_u32_radix_def split: sum.splits if_splits)
  then have "unat w = unat v"
    by (simp add: unat_ucast_down)
  then show "spells r input (unat w)"
    using v(1) by (simp add: parse_u64_radix_iff [OF assms])
next
  assume "spells r input (unat w)"
  then have "parse_u64_radix input r = Inr (ucast w)"
    by (simp add: parse_u64_radix_iff [OF assms])
  moreover have "unat w < 2 ^ 32"
    using unat_bound [of w] by simp
  moreover have "ucast (ucast w :: u64) = w"
    by (rule word_unat_eq_iff [THEN iffD2], subst unat_ucast_down) (use unat_bound [of w] in simp_all)
  ultimately show "parse_u32_radix input r = Inr w"
    by (simp add: parse_u32_radix_def)
qed

theorem parse_u32_radix_correct_witness:
  "parse_u32_radix ''0d4_2'' 16 = Inr 42 \<longleftrightarrow> spells 16 ''0d4_2'' (unat (42 :: u32))"
  by (rule parse_u32_radix_correct) simp_all

section \<open>Printed numbers parse back\<close>

lemma to_digit_hex_upper:
  assumes "d < b" "b \<le> 16"
  shows "to_digit (hex_upper d) b = Some d" and "hex_upper d \<noteq> CHR ''_''"
    and "is_graph (hex_upper d)"
proof -
  have b: "byte (hex_upper d) = (if d < 10 then 48 + d else 55 + d)"
    using assms by (simp add: byte_def hex_upper_def)
  then show "to_digit (hex_upper d) b = Some d" "is_graph (hex_upper d)"
    using assms by (auto simp: to_digit_def is_graph_def)
  have "byte (CHR ''_'') = 95"
    by (simp add: byte_def)
  with b assms show "hex_upper d \<noteq> CHR ''_''"
    by (cases "d < 10") auto
qed

lemma hex_upper_0: "hex_upper 0 = CHR ''0''"
  by (simp add: hex_upper_def char_of_eq_iff)

lemma digit_list_denotes:
  assumes "\<forall>d\<in>set ds. d < b" "b \<le> 16"
  shows "digits_in b (map hex_upper ds) = ds" and "digit_string b (map hex_upper ds)"
  using assms by (induction ds) (auto simp: to_digit_hex_upper)

lemma horner_zeros: "horner b (replicate k 0 @ ds) = horner b ds"
  by (induction k) (auto simp: horner_def)

lemma denotes_fmt:
  assumes "2 \<le> b" "b \<le> 16"
  shows "denotes b (pad0 w (map hex_upper (digits_of b n))) n"
    and "\<forall>c\<in>set (pad0 w (map hex_upper (digits_of b n))). is_graph c"
proof -
  let ?ds = "replicate (w - length (digits_of b n)) 0 @ digits_of b n"
  have eq: "pad0 w (map hex_upper (digits_of b n)) = map hex_upper ?ds"
    by (simp add: pad0_def hex_upper_0)
  have less: "\<forall>d\<in>set ?ds. d < b"
    using assms digits_of_less [of b _ n] by auto
  have "horner b ?ds = n"
    using assms digits_of_value [of b n] by (simp add: horner_zeros) (simp add: horner_def)
  then show "denotes b (pad0 w (map hex_upper (digits_of b n))) n"
    unfolding eq denotes_def using digit_list_denotes [OF less assms(2)] by simp
  show "\<forall>c\<in>set (pad0 w (map hex_upper (digits_of b n))). is_graph c"
    unfolding eq using less to_digit_hex_upper(3) [OF _ assms(2)] by fastforce
qed

lemma parse_prefixed_fmt:
  assumes "n < 2 ^ 64"
  shows "parse_u64_radix (''0x'' @ fmt_hex0 w n) r = Inr (of_nat n)"
proof -
  let ?t = "''0x'' @ fmt_hex0 w n"
  have den: "denotes 16 (fmt_hex0 w n) n" and graph: "\<forall>c\<in>set (fmt_hex0 w n). is_graph c"
    unfolding fmt_hex0_def fmt_hex_def by (rule denotes_fmt; simp)+
  have "\<forall>c\<in>set ?t. is_graph c"
    using graph by (auto simp: is_graph_def byte_def)
  then have trim: "str_trim ?t = ?t"
    by (rule str_trim_graph)
  have sp: "split_radix ?t r = (fmt_hex0 w n, 16)"
    by (simp add: split_radix_def starts_with_def)
  have n: "unat (of_nat n :: u64) = n"
    using assms by (simp add: Word.unat_of_nat)
  have "parse_digits ?t 16 (fmt_hex0 w n) 0 False = Inr (of_nat n, True)"
    using den by (subst parse_digits_Inr_iff) (simp_all add: n denotes_def horner_def)
  moreover have "\<not> starts_with ?t ''+''" "\<not> starts_with ?t ''-''"
    by (simp_all add: starts_with_def)
  ultimately show ?thesis
    unfolding parse_u64_radix_def trim Let_def sp split by simp
qed

end
