(* ===== verification/Files.thy ===== *)
theory Files
  imports Mmio Parse
begin

text \<open>
  The file system as the crate reads it (\<open>sysfs\<close>, \<open>procfs\<close>, \<open>debugfs\<close>, the lock directory), and the
  standard library's own integer parser. The contents are the environment's: they are a record of
  answers that the definitions take as an argument, and the one file the crate writes
  (\<open>power/control\<close>) is updated in it. File and directory names given by the kernel are UTF-8, so
  \<open>to_string_lossy\<close> is the identity on them.
\<close>

section \<open>The file system\<close>

text \<open>
  \<open>fs_file\<close>: the bytes of a readable file; \<open>fs_dir\<close>: the entries' names in the order of \<open>read_dir\<close>,
  \<open>fs_canon\<close>: the answer of \<open>canonicalize\<close>; \<open>fs_wr_err\<close>: the error of writing the file, if any.
\<close>

record fs =
  fs_file :: "path \<Rightarrow> string option"
  fs_dir :: "path \<Rightarrow> string list option"
  fs_canon :: "path \<Rightarrow> path option"
  fs_exists :: "path \<Rightarrow> bool"
  fs_wr_err :: "path \<Rightarrow> io_error option"

definition fs_read_to_string :: "fs \<Rightarrow> path \<Rightarrow> string option" where
  "fs_read_to_string F p = (case fs_file F p of
       None \<Rightarrow> None
     | Some b \<Rightarrow> if utf8_valid b then Some b else None)"

definition fs_write :: "path \<Rightarrow> string \<Rightarrow> fs \<Rightarrow> (io_error + unit) \<times> fs" where
  "fs_write p b F = (case fs_wr_err F p of
       Some e \<Rightarrow> (Inl e, F)
     | None \<Rightarrow> (Inr (), F\<lparr>fs_file := (fs_file F)(p \<mapsto> b)\<rparr>))"

section \<open>Integers of the standard library\<close>

text \<open>
  \<open>from_str_radix\<close> and \<open>str::parse\<close> on an unsigned type with values below \<open>bound\<close>: one leading
  \<open>+\<close> is allowed, a lone sign and the empty string are not.
\<close>

fun std_digits :: "nat \<Rightarrow> nat \<Rightarrow> string \<Rightarrow> nat \<Rightarrow> nat option" where
  "std_digits radix bound [] acc = Some acc"
| "std_digits radix bound (c # cs) acc = (case to_digit c radix of
       None \<Rightarrow> None
     | Some d \<Rightarrow> if acc * radix + d < bound then std_digits radix bound cs (acc * radix + d) else None)"

definition from_str_radix :: "nat \<Rightarrow> nat \<Rightarrow> string \<Rightarrow> nat option" where
  "from_str_radix radix bound s =
     (let body = (if starts_with s ''+'' then drop 1 s else s) in
      if body = [] then None else std_digits radix bound body 0)"

lemma std_digits_bound: "acc < bound \<Longrightarrow> std_digits radix bound s acc = Some n \<Longrightarrow> n < bound"
  by (induction s arbitrary: acc) (auto split: option.splits if_splits)

lemma from_str_radix_bound: "from_str_radix radix bound s = Some n \<Longrightarrow> 0 < bound \<Longrightarrow> n < bound"
  by (auto simp: from_str_radix_def Let_def dest: std_digits_bound split: if_splits)

definition u64_from_str_radix :: "nat \<Rightarrow> string \<Rightarrow> u64 option" where
  "u64_from_str_radix radix s = map_option word_of_nat (from_str_radix radix (2 ^ 64) s)"

definition u32_parse :: "string \<Rightarrow> u32 option" where
  "u32_parse s = map_option word_of_nat (from_str_radix 10 (2 ^ 32) s)"

definition usize_parse :: "string \<Rightarrow> usize option" where
  "usize_parse s = map_option word_of_nat (from_str_radix 10 (2 ^ 64) s)"

section \<open>Prefixes without case\<close>

text \<open>\<open>s.get(..prefix.len())\<close> fails beyond the end and inside a character.\<close>

definition is_char_boundary :: "string \<Rightarrow> nat \<Rightarrow> bool" where
  "is_char_boundary s i \<longleftrightarrow> i = length s \<or> (i < length s \<and> \<not> is_cont (s ! i))"

definition starts_with_ignore_case :: "string \<Rightarrow> string \<Rightarrow> bool" where
  "starts_with_ignore_case s prefix \<longleftrightarrow>
     is_char_boundary s (length prefix) \<and> eq_ignore_ascii_case (take (length prefix) s) prefix"

text \<open>\<open>is_supplier_link\<close>.\<close>

definition is_supplier_link :: "string \<Rightarrow> bool" where
  "is_supplier_link nm \<longleftrightarrow> starts_with nm ''supplier:'' \<or> starts_with nm ''supplier_''"

end
