(* ===== verification/Uio.thy ===== *)
theory Uio
  imports Files
begin

text \<open>
  The UIO part of \<open>src/memcheck.rs\<close>: lookup of a device by name, the regions under
  \<open>/sys/class/uio/uioN/maps/mapM\<close>, the window a region gives, and the region that covers a
  physical range.
\<close>

section \<open>Regions\<close>

record uio_map =
  um_addr :: u64
  um_size :: u64

text \<open>The closure \<open>attr\<close> of \<open>UioMap::read\<close>, also used for the \<open>offset\<close> attribute.\<close>

definition hex_attr :: "fs \<Rightarrow> path \<Rightarrow> u64 option" where
  "hex_attr F p = (case fs_read_to_string F p of
       None \<Rightarrow> None
     | Some s \<Rightarrow> (case parse_u64_radix s 16 of Inl _ \<Rightarrow> None | Inr v \<Rightarrow> Some v))"

definition uio_map_read :: "fs \<Rightarrow> path \<Rightarrow> uio_map option" where
  "uio_map_read F map_dir = (case hex_attr F (path_join map_dir ''addr'') of
       None \<Rightarrow> None
     | Some a \<Rightarrow> (case hex_attr F (path_join map_dir ''size'') of
         None \<Rightarrow> None
       | Some s \<Rightarrow> Some \<lparr>um_addr = a, um_size = s\<rparr>))"

definition uio_contains :: "uio_map \<Rightarrow> u64 \<Rightarrow> usize \<Rightarrow> bool" where
  "uio_contains r address len \<longleftrightarrow>
     len > 0 \<and> um_size r > 0 \<and> address \<ge> um_addr r
     \<and> (case checked_add (address - um_addr r) len of None \<Rightarrow> False | Some fin \<Rightarrow> fin \<le> um_size r)"

section \<open>Lookup by name\<close>

text \<open>The loop over the entries of \<open>/sys/class/uio\<close>, with \<open>matches\<close> and \<open>available\<close>.\<close>

fun uio_scan ::
  "fs \<Rightarrow> path \<Rightarrow> path \<Rightarrow> string \<Rightarrow> string list \<Rightarrow> string list \<Rightarrow> string list \<Rightarrow> string list \<times> string list"
where
  "uio_scan F sysfs_uio dev_root target [] matched available = (matched, available)"
| "uio_scan F sysfs_uio dev_root target (entry # entries) matched available =
     (case fs_read_to_string F (path_join (path_join sysfs_uio entry) ''name'') of
        None \<Rightarrow> uio_scan F sysfs_uio dev_root target entries matched available
      | Some raw \<Rightarrow>
          (let found = str_trim raw in
           if found = [] then uio_scan F sysfs_uio dev_root target entries matched available
           else uio_scan F sysfs_uio dev_root target entries
             (if found = target then matched @ [path_join dev_root entry] else matched)
             (if found \<in> set available then available else available @ [found])))"

definition find_uio_by_name :: "fs \<Rightarrow> path \<Rightarrow> path \<Rightarrow> string \<Rightarrow> mmreg_error + string" where
  "find_uio_by_name F sysfs_uio dev_root nm =
     (let target = str_trim nm;
          (matched, available) =
            (if target \<noteq> [] then (case fs_dir F sysfs_uio of
                 None \<Rightarrow> ([], [])
               | Some entries \<Rightarrow> uio_scan F sysfs_uio dev_root target entries [] [])
             else ([], []));
          matched = sort matched;
          available = sort available
      in if length matched = 1 then Inr (last matched)
         else if length matched = 0 then Inl (UioNotFound nm available)
         else Inl (UioAmbiguous nm matched))"

definition find_uio :: "fs \<Rightarrow> string \<Rightarrow> mmreg_error + string" where
  "find_uio F nm = find_uio_by_name F ''/sys/class/uio'' ''/dev'' nm"

section \<open>The window of a region\<close>

definition uio_address_invalid :: "path \<Rightarrow> usize \<Rightarrow> u64 \<Rightarrow> string \<Rightarrow> mmreg_error" where
  "uio_address_invalid dev_path region_index address details =
     UioAddressInvalid dev_path region_index address details"

definition uio_region_raw ::
  "fs \<Rightarrow> path \<Rightarrow> path \<Rightarrow> usize \<Rightarrow> u64 \<Rightarrow> mmreg_error + (path \<times> uio_map)"
where
  "uio_region_raw F sysfs_uio dev_path region_index address =
     (let invalid = uio_address_invalid dev_path region_index address in
      case path_file_name dev_path of
        None \<Rightarrow> Inl (invalid ''device path has no file name'')
      | Some dev \<Rightarrow>
          (let map_dir = path_join (path_join (path_join sysfs_uio dev) ''maps'')
                 (''map'' @ dec_w region_index)
           in case uio_map_read F map_dir of
                None \<Rightarrow> Inl (invalid (''cannot read the region'' @ [CHR 0x27] @ ''s sysfs addr/size''))
              | Some region \<Rightarrow> Inr (map_dir, region)))"

definition uio_region_window ::
  "'h kernel \<Rightarrow> fs \<Rightarrow> path \<Rightarrow> path \<Rightarrow> usize \<Rightarrow> mmreg_error + uio_map"
where
  "uio_region_window K F sysfs_uio dev_path region_index =
     rbind (uio_region_raw F sysfs_uio dev_path region_index 0) (\<lambda>(map_dir, region).
       let region' =
             (if um_addr region AND (page_size K - 1) = 0 then
                (case hex_attr F (path_join map_dir ''offset'') of
                   None \<Rightarrow> region
                 | Some offs \<Rightarrow>
                     if offs > 0 \<and> offs < um_size region
                     then \<lparr>um_addr = um_addr region + offs, um_size = um_size region - offs\<rparr>
                     else region)
              else region)
       in if um_size region' = 0
          then Inl (uio_address_invalid dev_path region_index 0
                 ''region size is zero or overflows usize'')
          else Inr region')"

definition read_uio_region :: "'h kernel \<Rightarrow> fs \<Rightarrow> path \<Rightarrow> usize \<Rightarrow> mmreg_error + uio_map" where
  "read_uio_region K F dev_path region_index =
     uio_region_window K F ''/sys/class/uio'' dev_path region_index"

section \<open>The region covering a range\<close>

record uio_region =
  ur_dev_node :: string
  ur_region_index :: usize
  ur_device_name :: string
  ur_device_path :: path

definition uio_owner :: "fs \<Rightarrow> path \<Rightarrow> string \<times> path" where
  "uio_owner F uio_dir =
     (let device_path = (case fs_canon F (path_join uio_dir ''device'') of
            Some p \<Rightarrow> p | None \<Rightarrow> uio_dir);
          device_name = (case path_file_name device_path of Some n \<Rightarrow> n | None \<Rightarrow> [])
      in (device_name, device_path))"

text \<open>\<open>mapM\<close> to \<open>M\<close>.\<close>

definition map_index :: "string \<Rightarrow> usize option" where
  "map_index nm = (if utf8_valid nm
     then Option.bind (strip_prefix nm ''map'') usize_parse else None)"

text \<open>The inner loop: the first \<open>mapM\<close> of one device that covers the range.\<close>

fun find_map :: "fs \<Rightarrow> path \<Rightarrow> string list \<Rightarrow> u64 \<Rightarrow> usize \<Rightarrow> usize option" where
  "find_map F maps_dir [] target sz = None"
| "find_map F maps_dir (m # ms) target sz =
     (case map_index m of
        None \<Rightarrow> find_map F maps_dir ms target sz
      | Some i \<Rightarrow>
          (if (case uio_map_read F (path_join maps_dir m) of
                 None \<Rightarrow> False | Some r \<Rightarrow> uio_contains r target sz)
           then Some i else find_map F maps_dir ms target sz))"

fun find_uio_region_in ::
  "fs \<Rightarrow> path \<Rightarrow> path \<Rightarrow> string list \<Rightarrow> u64 \<Rightarrow> usize \<Rightarrow> uio_region option"
where
  "find_uio_region_in F sysfs_uio dev_root [] target sz = None"
| "find_uio_region_in F sysfs_uio dev_root (uio # uios) target sz =
     (let maps_dir = path_join (path_join sysfs_uio uio) ''maps'' in
      case fs_dir F maps_dir of
        None \<Rightarrow> find_uio_region_in F sysfs_uio dev_root uios target sz
      | Some maps \<Rightarrow>
          (case find_map F maps_dir maps target sz of
             None \<Rightarrow> find_uio_region_in F sysfs_uio dev_root uios target sz
           | Some i \<Rightarrow>
               (let (nm, p) = uio_owner F (path_join sysfs_uio uio) in
                Some \<lparr>ur_dev_node = path_join dev_root uio, ur_region_index = i,
                      ur_device_name = nm, ur_device_path = p\<rparr>)))"

definition find_uio_region ::
  "fs \<Rightarrow> path \<Rightarrow> path \<Rightarrow> u64 \<Rightarrow> usize \<Rightarrow> uio_region option"
where
  "find_uio_region F sysfs_uio dev_root target sz = (case fs_dir F sysfs_uio of
       None \<Rightarrow> None
     | Some uios \<Rightarrow> find_uio_region_in F sysfs_uio dev_root uios target sz)"

section \<open>Lookup is a search by name\<close>

text \<open>The name of an entry of \<open>/sys/class/uio\<close>: its \<open>name\<close> attribute, trimmed, when not blank.\<close>

definition uio_name :: "fs \<Rightarrow> path \<Rightarrow> string \<Rightarrow> string option" where
  "uio_name F sysfs_uio entry =
     (case fs_read_to_string F (path_join (path_join sysfs_uio entry) ''name'') of
        None \<Rightarrow> None
      | Some raw \<Rightarrow> if str_trim raw = [] then None else Some (str_trim raw))"

lemma uio_scan_fst:
  "fst (uio_scan F s d t es m a)
    = m @ map (path_join d) (filter (\<lambda>e. uio_name F s e = Some t) es)"
  by (induction es arbitrary: m a)
    (auto simp: uio_name_def Let_def split: option.splits)

lemma uio_scan_snd:
  "distinct a \<Longrightarrow> distinct (snd (uio_scan F s d t es m a))
    \<and> set (snd (uio_scan F s d t es m a)) = set a \<union> {n. \<exists>e\<in>set es. uio_name F s e = Some n}"
proof (induction es arbitrary: m a)
  case Nil
  then show ?case by simp
next
  case (Cons e es)
  show ?case
  proof (cases "uio_name F s e")
    case None
    then have "uio_scan F s d t (e # es) m a = uio_scan F s d t es m a"
      by (auto simp: uio_name_def Let_def split: option.splits if_splits)
    with Cons None show ?thesis by simp
  next
    case (Some n)
    then have "uio_scan F s d t (e # es) m a = uio_scan F s d t es
        (if n = t then m @ [path_join d e] else m) (if n \<in> set a then a else a @ [n])"
      by (auto simp: uio_name_def Let_def split: option.splits if_splits)
    moreover have "distinct (if n \<in> set a then a else a @ [n])"
      using Cons.prems by simp
    ultimately show ?thesis
      using Cons.IH [of "if n \<in> set a then a else a @ [n]"] Some by (auto split: if_splits)
  qed
qed

lemma sort_distinct: "distinct xs \<Longrightarrow> sort xs = sorted_list_of_set (set xs)"
  by (simp add: sorted_list_of_set_sort_remdups distinct_remdups_id)

text \<open>
  Looking a device up by name is a search of \<open>/sys/class/uio\<close> for that trimmed name: one hit
  gives its \<open>/dev\<close> path, none gives the sorted list of the distinct names there are, several give
  the sorted paths of the hits.
\<close>

theorem find_uio_by_name_spec:
  assumes "str_trim nm \<noteq> []" "fs_dir F s = Some entries"
  shows "find_uio_by_name F s d nm =
    (case filter (\<lambda>e. uio_name F s e = Some (str_trim nm)) entries of
       [] \<Rightarrow> Inl (UioNotFound nm (sorted_list_of_set {n. \<exists>e\<in>set entries. uio_name F s e = Some n}))
     | [e] \<Rightarrow> Inr (path_join d e)
     | hits \<Rightarrow> Inl (UioAmbiguous nm (sort (map (path_join d) hits))))"
proof -
  obtain m a where scan: "uio_scan F s d (str_trim nm) entries [] [] = (m, a)"
    by fastforce
  have m: "m = map (path_join d) (filter (\<lambda>e. uio_name F s e = Some (str_trim nm)) entries)"
    using uio_scan_fst [of F s d "str_trim nm" entries "[]" "[]"] by (simp add: scan)
  have "sort a = sorted_list_of_set {n. \<exists>e\<in>set entries. uio_name F s e = Some n}"
    using uio_scan_snd [of "[]" F s d "str_trim nm" entries "[]"] by (simp add: scan sort_distinct)
  then show ?thesis
    using assms m
    by (simp add: find_uio_by_name_def scan split: list.splits)
qed

definition one_device_fs :: fs where
  "one_device_fs = \<lparr>fs_file = [''/sys/class/uio/uio0/name'' \<mapsto> ''gpio'' @ [CHR 0x0A]],
     fs_dir = [''/sys/class/uio'' \<mapsto> [''uio0'']], fs_canon = Map.empty,
     fs_exists = (\<lambda>_. True), fs_wr_err = Map.empty\<rparr>"

lemma one_device_name: "uio_name one_device_fs ''/sys/class/uio'' ''uio0'' = Some ''gpio''"
  by code_simp

theorem find_uio_by_name_spec_witness:
  "find_uio_by_name one_device_fs ''/sys/class/uio'' ''/dev'' ''gpio'' = Inr ''/dev/uio0''"
proof -
  have t: "str_trim ''gpio'' = ''gpio''" and d: "fs_dir one_device_fs ''/sys/class/uio'' = Some [''uio0'']"
    by code_simp+
  have j: "path_join ''/dev'' ''uio0'' = ''/dev/uio0''"
    by code_simp
  have ne: "str_trim ''gpio'' \<noteq> []"
    by (simp add: t)
  show ?thesis
    using find_uio_by_name_spec [OF ne d, where d = "''/dev''"]
    by (simp add: one_device_name t j)
qed

section \<open>Regions cover ranges\<close>

lemma uio_contains_iff:
  "uio_contains r a n \<longleftrightarrow> 0 < unat n \<and> unat (um_addr r) \<le> unat a
     \<and> unat a + unat n \<le> unat (um_addr r) + unat (um_size r)"
proof -
  have cap: "(case checked_add (a - um_addr r) n of None \<Rightarrow> False | Some fin \<Rightarrow> fin \<le> um_size r)
      \<longleftrightarrow> unat (a - um_addr r) + unat n \<le> unat (um_size r)"
  proof (cases "checked_add (a - um_addr r) n")
    case None
    then have "2 ^ 64 \<le> unat (a - um_addr r) + unat n"
      by (simp add: checked_add_None_iff)
    then have "\<not> unat (a - um_addr r) + unat n \<le> unat (um_size r)"
      using unat_bound [of "um_size r"] by simp
    then show ?thesis
      by (simp only: None option.case)
  next
    case (Some c)
    moreover from Some have "unat c = unat (a - um_addr r) + unat n"
      by (simp add: checked_add_Some_iff)
    ultimately show ?thesis
      by (simp add: word_le_nat_alt)
  qed
  show ?thesis
  proof (cases "um_addr r \<le> a")
    case True
    show ?thesis
    proof (cases "n = 0")
      case False
      then obtain k where k: "unat n = Suc k"
        by (metis not0_implies_Suc unsigned_eq_0_iff)
      show ?thesis
        using True unfolding uio_contains_def cap
        by (auto simp: unat_sub_le word_le_nat_alt word_less_nat_alt k)
    qed (simp add: uio_contains_def)
  next
    case False
    then show ?thesis
      by (simp add: uio_contains_def word_le_nat_alt)
  qed
qed

lemma find_map_Some:
  "find_map F md ms a n = Some i \<Longrightarrow>
     \<exists>m\<in>set ms. \<exists>r. map_index m = Some i \<and> uio_map_read F (path_join md m) = Some r \<and> uio_contains r a n"
  by (induction ms) (auto split: option.splits if_splits)

lemma find_map_None:
  "find_map F md ms a n = None \<Longrightarrow>
     \<forall>m\<in>set ms. \<forall>i r. map_index m = Some i \<longrightarrow> uio_map_read F (path_join md m) = Some r
       \<longrightarrow> \<not> uio_contains r a n"
  by (induction ms) (auto split: option.splits if_splits)

text \<open>Region \<open>i\<close> of the UIO device \<open>u\<close>, as listed by a \<open>mapM\<close> directory, covers \<open>[a, a + n)\<close>.\<close>

definition covers_at :: "fs \<Rightarrow> path \<Rightarrow> string \<Rightarrow> usize \<Rightarrow> u64 \<Rightarrow> usize \<Rightarrow> bool" where
  "covers_at F s u i a n \<longleftrightarrow> (\<exists>maps m r.
     fs_dir F (path_join (path_join s u) ''maps'') = Some maps \<and> m \<in> set maps
     \<and> map_index m = Some i
     \<and> uio_map_read F (path_join (path_join (path_join s u) ''maps'') m) = Some r
     \<and> uio_contains r a n)"

lemma find_uio_region_in_Some:
  "find_uio_region_in F s d us a n = Some R \<Longrightarrow>
     \<exists>u\<in>set us. covers_at F s u (ur_region_index R) a n \<and> ur_dev_node R = path_join d u
       \<and> (ur_device_name R, ur_device_path R) = uio_owner F (path_join s u)"
proof (induction us)
  case (Cons u us)
  then show ?case
    by (auto simp: covers_at_def Let_def split: option.splits prod.splits dest!: find_map_Some)
qed simp

lemma find_uio_region_in_None:
  "find_uio_region_in F s d us a n = None \<Longrightarrow> u \<in> set us \<Longrightarrow> \<not> covers_at F s u i a n"
proof (induction us)
  case (Cons v us)
  show ?case
  proof (cases "u = v")
    case True
    with Cons.prems show ?thesis
      by (auto simp: covers_at_def Let_def split: option.splits prod.splits dest!: find_map_None)
  next
    case False
    with Cons.prems have "u \<in> set us" by simp
    moreover have "find_uio_region_in F s d us a n = None"
      using Cons.prems by (auto simp: Let_def split: option.splits prod.splits)
    ultimately show ?thesis by (rule Cons.IH [rotated])
  qed
qed simp

text \<open>
  C38: \<open>find_uio_region\<close> answers a region exactly when some listed region covers the whole range
  \<open>[a, a + n)\<close> (as unbounded numbers, so a range that would wrap around is covered by none), and the
  region it answers is such a one, with the device node and the owner of the device it belongs to.
\<close>

theorem find_uio_region_correct:
  assumes "fs_dir F s = Some us"
  shows "(find_uio_region F s d a n = None) = (\<forall>u\<in>set us. \<forall>i. \<not> covers_at F s u i a n)
    \<and> (\<forall>R. find_uio_region F s d a n = Some R \<longrightarrow>
        (\<exists>u\<in>set us. covers_at F s u (ur_region_index R) a n \<and> ur_dev_node R = path_join d u
          \<and> (ur_device_name R, ur_device_path R) = uio_owner F (path_join s u)))
    \<and> (\<forall>r. uio_contains r a n = (0 < unat n \<and> unat (um_addr r) \<le> unat a
          \<and> unat a + unat n \<le> unat (um_addr r) + unat (um_size r)))"
proof (intro conjI allI impI)
  show "(find_uio_region F s d a n = None) = (\<forall>u\<in>set us. \<forall>i. \<not> covers_at F s u i a n)"
  proof (cases "find_uio_region_in F s d us a n")
    case None
    with assms show ?thesis
      by (auto simp: find_uio_region_def dest: find_uio_region_in_None)
  next
    case (Some R)
    with find_uio_region_in_Some [OF Some] assms show ?thesis
      by (auto simp: find_uio_region_def)
  qed
next
  fix R
  assume "find_uio_region F s d a n = Some R"
  then show "\<exists>u\<in>set us. covers_at F s u (ur_region_index R) a n \<and> ur_dev_node R = path_join d u
      \<and> (ur_device_name R, ur_device_path R) = uio_owner F (path_join s u)"
    using assms by (simp add: find_uio_region_def find_uio_region_in_Some)
qed (rule uio_contains_iff)

theorem find_uio_region_correct_witness:
  "\<not> covers_at one_device_fs ''/sys/class/uio'' ''uio0'' 0 0x1000 4"
proof -
  have d: "fs_dir one_device_fs ''/sys/class/uio'' = Some [''uio0'']"
    by code_simp
  have "find_uio_region one_device_fs ''/sys/class/uio'' ''/dev'' 0x1000 4 = None"
    by code_simp
  then show ?thesis
    using find_uio_region_correct [OF d, where d = "''/dev''" and a = "0x1000" and n = 4] by simp
qed

end
