(* ===== verification/Mapper.thy ===== *)
theory Mapper
  imports Uio
begin

text \<open>
  \<open>src/memregs.rs\<close>: the trait \<open>MemoryMapper\<close> as a locale, and its \<open>/dev/mem\<close> and UIO implementation
  \<open>OsMapper\<close>, which is shown to provide it. The cargo feature \<open>debug\<close>, without which \<open>/dev/mem\<close> is
  never opened, is the argument \<open>debug\<close>.
\<close>

section \<open>The trait\<close>

text \<open>
  The dispatch table of a \<open>dyn MemoryMapper\<close> with the state \<open>'s\<close> behind it. A read or a write may
  panic.
\<close>

record 's mapper_vt =
  vt_map :: "u64 \<Rightarrow> usize \<Rightarrow> 's \<Rightarrow> (mmreg_error + unit) \<times> 's"
  vt_unmap :: "'s \<Rightarrow> 's"
  vt_is_mapped :: "'s \<Rightarrow> bool"
  vt_read :: "u32 \<Rightarrow> width \<Rightarrow> 's \<Rightarrow> (u64 \<times> 's) run"
  vt_write :: "u32 \<Rightarrow> width \<Rightarrow> u64 \<Rightarrow> 's \<Rightarrow> 's run"

text \<open>
  The contract. A mapper serves windows while it is mapped: one with an anchor that agrees with the
  mapped address modulo 8, and the size asked for. Inside the window an access aligned to its width, both
  as an offset and as an address, returns; the mapper keeps its windows.
\<close>

definition in_window :: "u64 \<times> usize \<Rightarrow> u32 \<Rightarrow> width \<Rightarrow> bool" where
  "in_window win off w \<longleftrightarrow>
     unat (width_bytes w) dvd unat (fst win) + unat off
     \<and> unat off + unat (width_bytes w) \<le> unat (snd win)"

locale memory_mapper =
  fixes okay :: "'s \<Rightarrow> bool"
    and win :: "'s \<Rightarrow> u64 \<times> usize \<Rightarrow> bool"
    and vt :: "'s mapper_vt"
  assumes map_Inr: "okay s \<Longrightarrow> vt_map vt a n s = (Inr u, s') \<Longrightarrow>
      okay s' \<and> (\<exists>b. win s' (b, n) \<and> unat b mod 8 = unat a mod 8)"
    and map_Inl: "okay s \<Longrightarrow> vt_map vt a n s = (Inl e, s') \<Longrightarrow> okay s'"
    and unmap: "okay s \<Longrightarrow> okay (vt_unmap vt s) \<and> (\<forall>c. \<not> win (vt_unmap vt s) c)"
    and is_mapped: "okay s \<Longrightarrow> vt_is_mapped vt s = (\<exists>c. win s c)"
    and read_in: "okay s \<Longrightarrow> win s c \<Longrightarrow> in_window c off w \<Longrightarrow>
      \<exists>v s'. vt_read vt off w s = Done (v, s') \<and> v = width_cut w v \<and> okay s' \<and> win s' = win s"
    and write_in: "okay s \<Longrightarrow> win s c \<Longrightarrow> in_window c off w \<Longrightarrow>
      \<exists>s'. vt_write vt off w v s = Done s' \<and> okay s' \<and> win s' = win s"
    and write_cut: "okay s \<Longrightarrow> vt_write vt off w (width_cut w v) s = vt_write vt off w v s"
begin

text \<open>The window of a fresh mapping accepts the offsets aligned at the mapped address.\<close>

lemma in_window_mapped:
  assumes "unat b mod 8 = unat a mod 8"
    and "unat (width_bytes w) dvd unat a + unat off" "unat off + unat (width_bytes w) \<le> unat n"
  shows "in_window (b, n) off w"
proof -
  have d: "unat (width_bytes w) dvd 8"
    by (cases w) auto
  have "unat b mod 8 mod unat (width_bytes w) = unat a mod 8 mod unat (width_bytes w)"
    by (simp only: assms(1))
  then have "unat b mod unat (width_bytes w) = unat a mod unat (width_bytes w)"
    by (simp only: mod_mod_cancel [OF d])
  then have "(unat b + unat off) mod unat (width_bytes w) = (unat a + unat off) mod unat (width_bytes w)"
    by (rule mod_add_cong) (rule refl)
  then show ?thesis
    using assms by (simp add: in_window_def dvd_eq_mod_eq_0)
qed

lemma read_after_map:
  assumes "okay s" "vt_map vt a n s = (Inr u, t)"
    and "unat (width_bytes w) dvd unat a + unat off" "unat off + unat (width_bytes w) \<le> unat n"
  shows "\<exists>v t'. vt_read vt off w t = Done (v, t')"
proof -
  from map_Inr [OF assms(1,2)] obtain b where b: "okay t" "win t (b, n)"
    "unat b mod 8 = unat a mod 8"
    by blast
  have "in_window (b, n) off w"
    using b(3) assms(3,4) by (rule in_window_mapped)
  from read_in [OF b(1,2) this] show ?thesis
    by blast
qed

text \<open>A read-modify-write inside the window returns and keeps the window.\<close>

lemma update_in:
  assumes "okay s" "win s c" "in_window c off w"
  shows "\<exists>v s1 s2. vt_read vt off w s = Done (v, s1) \<and> vt_write vt off w (f v) s1 = Done s2
    \<and> okay s2 \<and> win s2 = win s"
proof -
  obtain v s1 where r: "vt_read vt off w s = Done (v, s1)" "okay s1" "win s1 = win s"
    using read_in [OF assms] by blast
  then obtain s2 where "vt_write vt off w (f v) s1 = Done s2" "okay s2" "win s2 = win s1"
    using write_in [OF r(2), of c off w "f v"] assms by auto
  with r show ?thesis by auto
qed

end

section \<open>\<open>OsMapper\<close>\<close>

record os_mapper =
  om_kind :: mapper_type
  om_read_only :: bool
  om_mapping :: "mapping option"
  om_uio_file :: "os_file option"

definition os_new :: "mapper_type \<Rightarrow> bool \<Rightarrow> os_mapper" where
  "os_new kind read_only =
     \<lparr>om_kind = kind, om_read_only = read_only, om_mapping = None, om_uio_file = None\<rparr>"

definition map_devmem ::
  "bool \<Rightarrow> 'h kernel \<Rightarrow> u64 \<Rightarrow> usize \<Rightarrow> bool \<Rightarrow> mmreg_error + mapping"
where
  "map_devmem debug K address sz read_only =
     (if \<not> debug then Inl (DebugDisabled address)
      else
        (let base = page_base (page_size K) address in
         case open_device K ''/dev/mem'' True read_only of
           Inl e \<Rightarrow> Inl (DevMemOpen address (ie_text e))
         | Inr f \<Rightarrow> (case mapping_new K f base (address - base) sz read_only of
             Inl e \<Rightarrow> Inl (DevMemMmap address base sz (ie_text e))
           | Inr m \<Rightarrow> Inr m)))"

definition uio_data_offset ::
  "'h kernel \<Rightarrow> fs \<Rightarrow> path \<Rightarrow> path \<Rightarrow> usize \<Rightarrow> u64 \<Rightarrow> usize \<Rightarrow> mmreg_error + usize"
where
  "uio_data_offset K F sysfs_uio dev_path region_index address sz =
     rbind (uio_region_raw F sysfs_uio dev_path region_index address) (\<lambda>(_, region).
       if \<not> uio_contains region address sz
       then Inl (uio_address_invalid dev_path region_index address
         (''range is outside the region '' @ hex_w (um_addr region) @ '' + '' @ hex_w (um_size region)))
       else Inr (address - page_base (page_size K) (um_addr region)))"

definition map_uio ::
  "'h kernel \<Rightarrow> fs \<Rightarrow> path \<Rightarrow> path \<Rightarrow> usize \<Rightarrow> u64 \<Rightarrow> usize \<Rightarrow> bool
    \<Rightarrow> mmreg_error + (os_file \<times> mapping)"
where
  "map_uio K F sysfs_uio dev_path region_index address sz read_only =
     rbind (uio_data_offset K F sysfs_uio dev_path region_index address sz) (\<lambda>data_offset.
     case open_device K dev_path False read_only of
       Inl e \<Rightarrow> Inl (UioOpen dev_path (ie_text e))
     | Inr f \<Rightarrow> (case mapping_new K f (region_index * page_size K) data_offset sz read_only of
         Inl e \<Rightarrow> Inl (UioMmap dev_path region_index sz (ie_text e))
       | Inr m \<Rightarrow> Inr (f, m)))"

definition os_unmap :: "os_mapper \<Rightarrow> os_mapper" where
  "os_unmap om = om\<lparr>om_mapping := None, om_uio_file := None\<rparr>"

definition os_map ::
  "bool \<Rightarrow> 'h kernel \<Rightarrow> fs \<Rightarrow> u64 \<Rightarrow> usize \<Rightarrow> os_mapper \<Rightarrow> (mmreg_error + unit) \<times> os_mapper"
where
  "os_map debug K F address sz om =
     (let om1 = om\<lparr>om_mapping := None, om_uio_file := None\<rparr> in
      case om_kind om of
        Uio dev_path region_index \<Rightarrow>
          (case map_uio K F ''/sys/class/uio'' dev_path region_index address sz (om_read_only om) of
             Inl e \<Rightarrow> (Inl e, om1)
           | Inr (f, m) \<Rightarrow> (Inr (), om1\<lparr>om_uio_file := Some f, om_mapping := Some m\<rparr>))
      | _ \<Rightarrow>
          (case map_devmem debug K address sz (om_read_only om) of
             Inl e \<Rightarrow> (Inl e, om1)
           | Inr m \<Rightarrow> (Inr (), om1\<lparr>om_mapping := Some m\<rparr>)))"

definition os_is_mapped :: "os_mapper \<Rightarrow> bool" where
  "os_is_mapped om \<longleftrightarrow> om_mapping om \<noteq> None"

definition os_read :: "'h kernel \<Rightarrow> os_mapper \<Rightarrow> u32 \<Rightarrow> width \<Rightarrow> 'h \<Rightarrow> (u64 \<times> 'h) run" where
  "os_read K om off w h = (case om_mapping om of
       None \<Rightarrow> Done (0, h)
     | Some m \<Rightarrow> mapping_read K m off w h)"

definition os_write :: "'h kernel \<Rightarrow> os_mapper \<Rightarrow> u32 \<Rightarrow> width \<Rightarrow> u64 \<Rightarrow> 'h \<Rightarrow> 'h run" where
  "os_write K om off w v h = (case om_mapping om of
       None \<Rightarrow> Done h
     | Some m \<Rightarrow> mapping_write K m off w v h)"

section \<open>\<open>OsMapper\<close> provides the trait\<close>

definition os_vt :: "bool \<Rightarrow> 'h kernel \<Rightarrow> fs \<Rightarrow> (os_mapper \<times> 'h) mapper_vt" where
  "os_vt debug K F =
     \<lparr>vt_map = (\<lambda>a n (om, h). case os_map debug K F a n om of (r, om') \<Rightarrow> (r, (om', h))),
      vt_unmap = (\<lambda>(om, h). (os_unmap om, h)),
      vt_is_mapped = (\<lambda>(om, h). os_is_mapped om),
      vt_read = (\<lambda>off w (om, h). case os_read K om off w h of
         Done (v, h') \<Rightarrow> Done (v, (om, h')) | Blocks \<Rightarrow> Blocks | Panics \<Rightarrow> Panics),
      vt_write = (\<lambda>off w v (om, h). case os_write K om off w v h of
         Done h' \<Rightarrow> Done (om, h') | Blocks \<Rightarrow> Blocks | Panics \<Rightarrow> Panics)\<rparr>"

text \<open>The anchor of the window is the offset of the first byte in the mapping, which starts a page.\<close>

definition os_win :: "os_mapper \<times> 'h \<Rightarrow> u64 \<times> usize \<Rightarrow> bool" where
  "os_win = (\<lambda>(om, h) c. map_option (\<lambda>m. (mp_data_offset m, mp_len m - mp_data_offset m)) (om_mapping om) = Some c)"

definition os_okay :: "'h kernel \<Rightarrow> os_mapper \<times> 'h \<Rightarrow> bool" where
  "os_okay K = (\<lambda>(om, h). is_page_size (page_size K)
     \<and> (\<forall>m. om_mapping om = Some m \<longrightarrow> mp_data_offset m \<le> mp_len m))"

lemma page_anchor_mod:
  assumes "is_page_size p" "page_base p b \<le> a"
  shows "unat (a - page_base p b) mod 8 = unat a mod 8"
proof -
  obtain q where q: "unat (page_base p b) = 8 * q"
    using is_page_size_dvd [OF assms(1), of 8] page_base_dvd [OF assms(1), of b]
    by (meson dvd_def dvd_trans insertCI)
  have le: "8 * q \<le> unat a"
    using assms(2) q by (simp add: word_le_nat_alt)
  then obtain r where r: "unat a = 8 * q + r"
    using le_Suc_ex by blast
  have "unat (a - page_base p b) = r"
    using assms(2) by (simp add: unat_sub_le q r)
  then show ?thesis
    by (simp add: r)
qed

lemma map_devmem_Inr:
  assumes "map_devmem debug K a n ro = Inr m"
  shows "debug" "\<exists>f. open_device K ''/dev/mem'' True ro = Inr f
    \<and> mapping_new K f (page_base (page_size K) a) (a - page_base (page_size K) a) n ro = Inr m"
  using assms by (auto simp: map_devmem_def Let_def split: if_splits sum.splits)

lemma map_uio_Inr:
  assumes "map_uio K F s p i a n ro = Inr (f, m)"
  shows "\<exists>d r. uio_region_raw F s p i a = Inr (d, r) \<and> uio_contains r a n
    \<and> open_device K p False ro = Inr f
    \<and> mapping_new K f (i * page_size K) (a - page_base (page_size K) (um_addr r)) n ro = Inr m"
  using assms
  by (auto simp: map_uio_def uio_data_offset_def rbind_Inr_iff split: if_splits sum.splits prod.splits)

text \<open>The mapping that a successful \<open>map\<close> leaves, for both backends.\<close>

lemma os_map_Inr:
  assumes "os_map debug K F a n om = (Inr u, om')" "is_page_size (page_size K)"
  obtains m f fo base where "om_mapping om' = Some m"
    "mapping_new K f fo (a - base) n (om_read_only om) = Inr m"
    "base \<le> a" "unat (a - base) mod 8 = unat a mod 8"
    "case om_kind om of Uio p i \<Rightarrow> om_uio_file om' = Some f \<and> fo = i * page_size K
        \<and> open_device K p False (om_read_only om) = Inr f
        \<and> (\<exists>d r. uio_region_raw F ''/sys/class/uio'' p i a = Inr (d, r) \<and> uio_contains r a n
          \<and> base = page_base (page_size K) (um_addr r))
      | _ \<Rightarrow> om_uio_file om' = None \<and> fo = base \<and> base = page_base (page_size K) a
        \<and> open_device K ''/dev/mem'' True (om_read_only om) = Inr f \<and> debug"
proof (cases "om_kind om")
  case (Uio p i)
  with assms(1) obtain f m where m: "map_uio K F ''/sys/class/uio'' p i a n (om_read_only om) = Inr (f, m)"
    and om': "om_mapping om' = Some m" "om_uio_file om' = Some f"
    by (auto simp: os_map_def Let_def split: sum.splits)
  from map_uio_Inr [OF m] obtain d r where r: "uio_region_raw F ''/sys/class/uio'' p i a = Inr (d, r)"
    "uio_contains r a n" "open_device K p False (om_read_only om) = Inr f"
    "mapping_new K f (i * page_size K) (a - page_base (page_size K) (um_addr r)) n (om_read_only om) = Inr m"
    by blast
  have le: "page_base (page_size K) (um_addr r) \<le> a"
    using page_base_le [OF assms(2), of "um_addr r"] r(2) by (auto simp: uio_contains_def)
  show ?thesis
    by (rule that [OF om'(1) r(4) le page_anchor_mod [OF assms(2) le]])
      (use r om' in \<open>auto simp: Uio\<close>)
next
  case Auto
  with assms(1) obtain m where m: "map_devmem debug K a n (om_read_only om) = Inr m"
    and om': "om_mapping om' = Some m" "om_uio_file om' = None"
    by (auto simp: os_map_def Let_def split: sum.splits)
  note le = page_base_le [OF assms(2), of a]
  from map_devmem_Inr [OF m] obtain f where f: "debug" "open_device K ''/dev/mem'' True (om_read_only om) = Inr f"
    "mapping_new K f (page_base (page_size K) a) (a - page_base (page_size K) a) n (om_read_only om) = Inr m"
    by blast
  show ?thesis
    by (rule that [OF om'(1) f(3) le page_anchor_mod [OF assms(2) le]]) (use f om' in \<open>auto simp: Auto\<close>)
next
  case DevMem
  with assms(1) obtain m where m: "map_devmem debug K a n (om_read_only om) = Inr m"
    and om': "om_mapping om' = Some m" "om_uio_file om' = None"
    by (auto simp: os_map_def Let_def split: sum.splits)
  note le = page_base_le [OF assms(2), of a]
  from map_devmem_Inr [OF m] obtain f where f: "debug" "open_device K ''/dev/mem'' True (om_read_only om) = Inr f"
    "mapping_new K f (page_base (page_size K) a) (a - page_base (page_size K) a) n (om_read_only om) = Inr m"
    by blast
  show ?thesis
    by (rule that [OF om'(1) f(3) le page_anchor_mod [OF assms(2) le]]) (use f om' in \<open>auto simp: DevMem\<close>)
qed

lemma mapping_in_window:
  assumes "mp_data_offset m \<le> mp_len m"
    and "in_window (mp_data_offset m, mp_len m - mp_data_offset m) off w"
  shows "mapping_register m off w = Some (mp_ptr m + (mp_data_offset m + ucast off))"
proof -
  have sub: "unat (mp_len m - mp_data_offset m) = unat (mp_len m) - unat (mp_data_offset m)"
    using assms(1) by (rule unat_sub_le)
  have le: "unat (mp_data_offset m) \<le> unat (mp_len m)"
    using assms(1) by (simp add: word_le_nat_alt)
  have "unat off + unat (width_bytes w) \<le> unat (mp_len m) - unat (mp_data_offset m)"
    using assms(2) by (simp add: in_window_def sub)
  with le have "unat (mp_data_offset m) + unat off + unat (width_bytes w) \<le> unat (mp_len m)"
    by linarith
  with assms(2) show ?thesis
    by (simp add: in_window_def mapping_register_iff)
qed

lemma os_write_cut: "os_write K om off w (width_cut w v) h = os_write K om off w v h"
  by (simp add: os_write_def mapping_write_def split: option.split)

interpretation os: memory_mapper "os_okay K" os_win "os_vt debug K F" for debug K F
proof unfold_locales
  fix s s' :: "os_mapper \<times> 'a" and a n u
  assume ok: "os_okay K s" and m: "vt_map (os_vt debug K F) a n s = (Inr u, s')"
  obtain om h where s: "s = (om, h)" by (cases s)
  with m obtain om' where om': "os_map debug K F a n om = (Inr u, om')" "s' = (om', h)"
    by (auto simp: os_vt_def split: prod.splits)
  have page: "is_page_size (page_size K)"
    using ok by (simp add: os_okay_def s)
  obtain m f fo base where m: "om_mapping om' = Some m"
    "mapping_new K f fo (a - base) n (om_read_only om) = Inr m" "unat (a - base) mod 8 = unat a mod 8"
    by (rule os_map_Inr [OF om'(1) page])
  note new = mapping_new_Inr [OF m(2)]
  have le: "mp_data_offset m \<le> mp_len m"
    by (simp add: word_le_nat_alt new)
  then have "mp_len m - mp_data_offset m = n"
    by (simp add: word_unat_eq_iff unat_sub_le new)
  then show "os_okay K s' \<and> (\<exists>b. os_win s' (b, n) \<and> unat b mod 8 = unat a mod 8)"
    using page le m new by (simp add: os_okay_def os_win_def om')
next
  fix s s' :: "os_mapper \<times> 'a" and a n e
  assume "os_okay K s" and "vt_map (os_vt debug K F) a n s = (Inl e, s')"
  then show "os_okay K s'"
    by (auto simp: os_vt_def os_okay_def os_map_def Let_def
        split: prod.splits mapper_type.splits sum.splits)
next
  fix s :: "os_mapper \<times> 'a" and off w v c
  assume ok: "os_okay K s" and win: "os_win s c" "in_window c off w"
  obtain om h where s: "s = (om, h)" by (cases s)
  with win(1) obtain m where m: "om_mapping om = Some m" "c = (mp_data_offset m, mp_len m - mp_data_offset m)"
    by (auto simp: os_win_def)
  have reg: "mapping_register m off w = Some (mp_ptr m + (mp_data_offset m + ucast off))"
    using ok win(2) m by (intro mapping_in_window) (auto simp: os_okay_def s)
  show "\<exists>v s'. vt_read (os_vt debug K F) off w s = Done (v, s') \<and> v = width_cut w v
      \<and> os_okay K s' \<and> os_win s' = os_win s"
    using ok m reg
    by (auto simp: s os_vt_def os_read_def mapping_read_def os_okay_def os_win_def split: prod.split)
  show "\<exists>s'. vt_write (os_vt debug K F) off w v s = Done s' \<and> os_okay K s' \<and> os_win s' = os_win s"
    using ok m reg
    by (auto simp: s os_vt_def os_write_def mapping_write_def os_okay_def os_win_def)
qed (auto simp: os_vt_def os_okay_def os_win_def os_unmap_def os_is_mapped_def os_write_cut
    split: prod.split)

section \<open>The physical address of an access\<close>

text \<open>
  What the kernel promises of \<open>mmap\<close>: \<open>/dev/mem\<close> at offset \<open>o\<close> starts at physical address \<open>o\<close>, and
  a UIO device at offset \<open>i\<close> pages starts at the page of its region \<open>i\<close>.
\<close>

definition devmem_contract :: "'h kernel \<Rightarrow> bool" where
  "devmem_contract K \<longleftrightarrow> (\<forall>f ro len o1 ptr.
     k_open K ''/dev/mem'' True ro = Inr f \<longrightarrow> k_mmap K f len ro o1 = Inr ptr \<longrightarrow> ptr = o1)"

definition uio_contract :: "'h kernel \<Rightarrow> fs \<Rightarrow> path \<Rightarrow> bool" where
  "uio_contract K F p \<longleftrightarrow> (\<forall>ro f len i d r addr ptr.
     k_open K p False ro = Inr f
     \<longrightarrow> uio_region_raw F ''/sys/class/uio'' p i addr = Inr (d, r)
     \<longrightarrow> k_mmap K f len ro (i * page_size K) = Inr ptr
     \<longrightarrow> ptr = page_base (page_size K) (um_addr r))"

lemma os_map_bus:
  assumes "os_map debug K F a n om = (Inr u, om')" "is_page_size (page_size K)"
    and "case om_kind om of Uio p i \<Rightarrow> uio_contract K F p | _ \<Rightarrow> devmem_contract K"
    and "unat (width_bytes w) dvd unat a + unat off" "unat off + unat (width_bytes w) \<le> unat n"
  shows "os_write K om' off w v h = Done (k_wr K (a + ucast off) w (width_cut w v) h)
    \<and> os_read K om' off w h = Done (map_prod (width_cut w) id (k_rd K (a + ucast off) w h))"
proof -
  obtain m f fo base where m: "om_mapping om' = Some m"
    "mapping_new K f fo (a - base) n (om_read_only om) = Inr m" "base \<le> a"
    "unat (a - base) mod 8 = unat a mod 8" and kind:
    "case om_kind om of Uio p i \<Rightarrow> om_uio_file om' = Some f \<and> fo = i * page_size K
        \<and> open_device K p False (om_read_only om) = Inr f
        \<and> (\<exists>d r. uio_region_raw F ''/sys/class/uio'' p i a = Inr (d, r) \<and> uio_contains r a n
          \<and> base = page_base (page_size K) (um_addr r))
      | _ \<Rightarrow> om_uio_file om' = None \<and> fo = base \<and> base = page_base (page_size K) a
        \<and> open_device K ''/dev/mem'' True (om_read_only om) = Inr f \<and> debug"
    by (rule os_map_Inr [OF assms(1,2)])
  note new = mapping_new_Inr [OF m(2)]
  have ptr: "mp_ptr m = base"
  proof (cases "om_kind om")
    case (Uio p i)
    with kind obtain d r where "k_open K p False (om_read_only om) = Inr f" "fo = i * page_size K"
      "uio_region_raw F ''/sys/class/uio'' p i a = Inr (d, r)"
      "base = page_base (page_size K) (um_addr r)"
      by (auto simp: open_device_def)
    with new(4) assms(3) Uio show ?thesis
      unfolding uio_contract_def by fastforce
  next
    case Auto
    with kind new(4) assms(3) show ?thesis
      by (auto simp: devmem_contract_def open_device_def)
  next
    case DevMem
    with kind new(4) assms(3) show ?thesis
      by (auto simp: devmem_contract_def open_device_def)
  qed
  have win: "in_window (a - base, n) off w"
    using m(4) assms(4,5) by (rule os.in_window_mapped)
  show ?thesis
    using mapping_bus [OF m(2), of off w v h] win
    by (simp add: os_write_def os_read_def m(1) ptr in_window_def)
qed

text \<open>
  C30: whichever backend \<open>OsMapper\<close> uses, once \<open>map\<close> has succeeded for \<open>[a, a + n)\<close> a write at an
  offset inside it that is aligned as a physical address reaches the bus at exactly \<open>a\<close> plus the
  offset, with the value cut to the width, and a read returns what the bus answers there.
\<close>

theorem os_map_reaches_address:
  assumes "os_map debug K F a n om = (Inr u, om')" "is_page_size (page_size K)"
    and "case om_kind om of Uio p i \<Rightarrow> uio_contract K F p | _ \<Rightarrow> devmem_contract K"
    and "unat (width_bytes w) dvd unat a + unat off" "unat off + unat (width_bytes w) \<le> unat n"
  shows "os_write K om' off w v h = Done (k_wr K (a + ucast off) w (width_cut w v) h)
    \<and> os_read K om' off w h = Done (map_prod (width_cut w) id (k_rd K (a + ucast off) w h))"
  by (rule os_map_bus [OF assms])

lemma flat_devmem: "devmem_contract flat_kernel"
  by (simp add: devmem_contract_def flat_kernel_def)

lemma flat_page: "is_page_size (page_size flat_kernel)" "page_size flat_kernel = 4096"
  by (simp_all add: page_size_def flat_kernel_def is_page_size_4096)

lemma flat_map_devmem:
  "os_map True flat_kernel F 0xA0000010 0x20 (os_new DevMem False)
    = (Inr (), (os_new DevMem False)\<lparr>om_mapping := Some
        \<lparr>mp_ptr = 0xA0000000, mp_len = 0x30, mp_data_offset = 0x10\<rparr>\<rparr>)"
  by (simp add: os_map_def os_new_def map_devmem_def page_size_def page_base_def mapping_new_def
      checked_add_def open_device_def flat_kernel_def)

theorem os_map_reaches_address_witness:
  "os_write flat_kernel ((os_new DevMem False)\<lparr>om_mapping := Some
      \<lparr>mp_ptr = 0xA0000000, mp_len = 0x30, mp_data_offset = 0x10\<rparr>\<rparr>) 4 WU32 7 (\<lambda>_. 0)
    = Done (flat_write 0xA0000014 WU32 7 (\<lambda>_. 0))"
  using os_map_reaches_address [OF flat_map_devmem flat_page(1), where w = WU32 and off = 4 and v = 7 and h = "\<lambda>_. 0"]
  by (simp add: os_new_def flat_devmem width_cut_def take_bit_eq_mod) (simp add: flat_kernel_def)

text \<open>
  C31: the window that \<open>uio_region_window\<close> reads off \<open>sysfs\<close> (with the \<open>offset\<close> attribute of newer
  kernels added to a page-aligned address) lies inside the raw region, so mapping it through
  \<open>map_uio\<close> is never refused as outside the region, and starts the mapping at the right byte of the
  region's page. The region must not itself run past the end of the address space.
\<close>

theorem uio_window_maps:
  assumes "uio_region_window K F s p i = Inr w"
    and "uio_region_raw F s p i 0 = Inr (d, r)" "unat (um_addr r) + unat (um_size r) \<le> 2 ^ 64"
  shows "uio_contains r (um_addr w) (um_size w)
    \<and> uio_data_offset K F s p i (um_addr w) (um_size w)
        = Inr (um_addr w - page_base (page_size K) (um_addr r))"
proof -
  have raw: "uio_region_raw F s p i (um_addr w) = Inr (d, r)"
    using assms(2) by (auto simp: uio_region_raw_def Let_def split: option.splits)
  have "w = r \<and> um_size r \<noteq> 0 \<or> (\<exists>offs. offs > 0 \<and> offs < um_size r
      \<and> w = \<lparr>um_addr = um_addr r + offs, um_size = um_size r - offs\<rparr>)"
    using assms(1,2) by (auto simp: uio_region_window_def Let_def split: if_splits option.splits)
  then have "uio_contains r (um_addr w) (um_size w)"
  proof (elim disjE exE conjE)
    assume w: "w = r" "um_size r \<noteq> 0"
    then have "0 < unat (um_size r)"
      by (simp add: unat_gt_0)
    with w show ?thesis
      by (simp add: uio_contains_iff)
  next
    fix offs
    assume o: "0 < offs" "offs < um_size r"
      and w: "w = \<lparr>um_addr = um_addr r + offs, um_size = um_size r - offs\<rparr>"
    have lt: "unat offs < unat (um_size r)"
      using o(2) by (simp add: word_less_nat_alt)
    then have "unat (um_addr r + offs) = unat (um_addr r) + unat offs"
      using assms(3) by (intro unat_add_no_wrap) simp
    moreover have "unat (um_size r - offs) = unat (um_size r) - unat offs"
      using o(2) by (simp add: unat_sub_le)
    ultimately show ?thesis
      using lt unfolding uio_contains_iff w by simp
  qed
  then show ?thesis
    by (simp add: uio_data_offset_def raw)
qed

text \<open>A UIO device with a page-aligned region and an \<open>offset\<close> attribute.\<close>

definition window_fs :: fs where
  "window_fs = \<lparr>fs_file = [
       ''/sys/class/uio/uio0/maps/map0/addr'' \<mapsto> ''0xa0000000'',
       ''/sys/class/uio/uio0/maps/map0/size'' \<mapsto> ''0x1000'',
       ''/sys/class/uio/uio0/maps/map0/offset'' \<mapsto> ''0x100''],
     fs_dir = [''/sys/class/uio'' \<mapsto> [''uio0''], ''/sys/class/uio/uio0/maps'' \<mapsto> [''map0'']],
     fs_canon = Map.empty, fs_exists = (\<lambda>_. True), fs_wr_err = Map.empty\<rparr>"

lemma parse_hex_samples:
  "parse_u64_radix ''0xa0000000'' 16 = Inr 0xA0000000"
  "parse_u64_radix ''0x1000'' 16 = Inr 0x1000"
  "parse_u64_radix ''0x100'' 16 = Inr 0x100"
  by (simp_all add: parse_u64_radix_def str_trim_graph is_graph_def byte_def starts_with_def
      split_radix_def to_digit_def checked_mul_def checked_add_def Let_def)

lemma window_files:
  "fs_read_to_string window_fs ''/sys/class/uio/uio0/maps/map0/addr'' = Some ''0xa0000000''"
  "fs_read_to_string window_fs ''/sys/class/uio/uio0/maps/map0/size'' = Some ''0x1000''"
  "fs_read_to_string window_fs ''/sys/class/uio/uio0/maps/map0/offset'' = Some ''0x100''"
  by code_simp+

lemma window_paths:
  "path_file_name ''/dev/uio0'' = Some ''uio0''"
  "path_join (path_join (path_join ''/sys/class/uio'' ''uio0'') ''maps'') (''map'' @ dec_w (0 :: usize))
    = ''/sys/class/uio/uio0/maps/map0''"
  "path_join ''/sys/class/uio/uio0/maps/map0'' ''addr'' = ''/sys/class/uio/uio0/maps/map0/addr''"
  "path_join ''/sys/class/uio/uio0/maps/map0'' ''size'' = ''/sys/class/uio/uio0/maps/map0/size''"
  "path_join ''/sys/class/uio/uio0/maps/map0'' ''offset'' = ''/sys/class/uio/uio0/maps/map0/offset''"
  by code_simp+

lemma window_raw:
  "uio_region_raw window_fs ''/sys/class/uio'' ''/dev/uio0'' 0 a
    = Inr (''/sys/class/uio/uio0/maps/map0'', \<lparr>um_addr = 0xA0000000, um_size = 0x1000\<rparr>)"
  unfolding uio_region_raw_def Let_def window_paths option.case uio_map_read_def hex_attr_def
    window_files parse_hex_samples sum.case by (rule refl)

lemma window_window:
  "uio_region_window flat_kernel window_fs ''/sys/class/uio'' ''/dev/uio0'' 0
    = Inr \<lparr>um_addr = 0xA0000100, um_size = 0xF00\<rparr>"
  unfolding uio_region_window_def window_raw rbind_simps prod.case Let_def hex_attr_def
    window_paths window_files parse_hex_samples option.case sum.case
  by (simp add: flat_page)

theorem uio_window_maps_witness:
  "uio_data_offset flat_kernel window_fs ''/sys/class/uio'' ''/dev/uio0'' 0 0xA0000100 0xF00 = Inr 0x100"
  using uio_window_maps [OF window_window window_raw] by (simp add: flat_page page_base_def)

end
