(* ===== verification/Iomem.thy ===== *)
theory Iomem
  imports Files
begin

text \<open>
  The blueprint part of \<open>src/memcheck.rs\<close>: the scan of \<open>/proc/iomem\<close> for the range (\<open>check_iomem\<close>)
  and of the Device Tree \<open>reg\<close> properties for its owner (\<open>find_owning_device\<close>). The scan is shown
  to decide a statement about the list of the file's entries.
\<close>

section \<open>\<open>/proc/iomem\<close>\<close>

definition restricted_iomem :: "string list" where
  "restricted_iomem = [''system ram'', ''kernel '', ''crash kernel'', ''reserved'', ''acpi '']"

record iomem_line =
  il_start :: u64
  il_end :: u64
  il_resource :: string

definition iomem_entry :: "string \<Rightarrow> iomem_line option" where
  "iomem_entry line = (case split_once '' : '' line of
       None \<Rightarrow> None
     | Some (rng, resource) \<Rightarrow>
         (case split_once ''-'' (str_trim rng) of
            None \<Rightarrow> None
          | Some (s, e) \<Rightarrow>
              (case u64_from_str_radix 16 s of
                 None \<Rightarrow> None
               | Some a \<Rightarrow> (case u64_from_str_radix 16 e of
                   None \<Rightarrow> None
                 | Some b \<Rightarrow> Some \<lparr>il_start = a, il_end = b, il_resource = str_trim resource\<rparr>))))"

definition iomem_indent :: "string \<Rightarrow> nat" where
  "iomem_indent line = length (takeWhile (\<lambda>c. c = CHR '' '') line)"

definition is_restricted :: "string \<Rightarrow> bool" where
  "is_restricted resource = list_ex (starts_with_ignore_case resource) restricted_iomem"

text \<open>The loop of \<open>parse_iomem\<close>, with \<open>listed\<close> and \<open>pending_cover\<close>.\<close>

fun iomem_loop ::
  "u64 \<Rightarrow> usize \<Rightarrow> u64 \<Rightarrow> string list \<Rightarrow> bool \<Rightarrow> nat option \<Rightarrow> mmreg_error + bool"
where
  "iomem_loop target sz hi [] listed pending = Inr (listed \<or> pending \<noteq> None)"
| "iomem_loop target sz hi (line # rest) listed pending =
     (let indent = iomem_indent line in
      case iomem_entry line of
        None \<Rightarrow> iomem_loop target sz hi rest listed pending
      | Some e \<Rightarrow>
          (if il_end e = 0 then iomem_loop target sz hi rest listed pending
           else
             (let listed' = (case pending of
                    Some prev_indent \<Rightarrow> listed \<or> indent \<le> prev_indent
                  | None \<Rightarrow> listed)
              in if target \<le> il_end e \<and> hi \<ge> il_start e \<and> is_restricted (il_resource e)
                 then Inl (BlueprintSystemRam target sz (il_resource e))
                 else iomem_loop target sz hi rest listed'
                   (if target \<ge> il_start e \<and> hi \<le> il_end e then Some indent else None))))"

definition parse_iomem :: "string \<Rightarrow> u64 \<Rightarrow> usize \<Rightarrow> mmreg_error + bool" where
  "parse_iomem content target sz = (case checked_add target (max sz 1 - 1) of
       None \<Rightarrow> Inr False
     | Some hi \<Rightarrow> iomem_loop target sz hi (read_lines content) False None)"

definition check_iomem :: "fs \<Rightarrow> u64 \<Rightarrow> usize \<Rightarrow> mmreg_error + bool" where
  "check_iomem F target sz = (case fs_file F ''/proc/iomem'' of
       Some content \<Rightarrow> parse_iomem content target sz
     | None \<Rightarrow> Inr False)"

section \<open>Device Tree \<open>reg\<close>\<close>

definition be_u32 :: "string \<Rightarrow> u32" where
  "be_u32 b = word_of_nat (foldl (\<lambda>a c. a * 256 + byte c) 0 b)"

definition read_dt_cells :: "fs \<Rightarrow> path \<Rightarrow> nat option" where
  "read_dt_cells F p = (case fs_file F p of
       None \<Rightarrow> None
     | Some bytes \<Rightarrow>
         if length bytes < 4 then None
         else (let cells = unat (be_u32 (take 4 bytes)) in
               if 1 \<le> cells \<and> cells \<le> 4 then Some cells else None))"

text \<open>\<open>chunks_exact(n)\<close>: the full chunks, without the rest.\<close>

function chunks_exact :: "nat \<Rightarrow> 'a list \<Rightarrow> 'a list list" where
  "chunks_exact n xs =
     (if n = 0 \<or> length xs < n then [] else take n xs # chunks_exact n (drop n xs))"
  by pat_completeness auto
termination
  by (relation "measure (length \<circ> snd)") auto

declare chunks_exact.simps [simp del]

definition read_be_cells :: "string \<Rightarrow> u64" where
  "read_be_cells bytes = foldl (\<lambda>acc w. push_bit 32 acc OR ucast (be_u32 w)) 0 (chunks_exact 4 bytes)"

definition reg_covers :: "string \<Rightarrow> u64 \<Rightarrow> usize \<Rightarrow> (nat \<times> nat) option \<Rightarrow> bool" where
  "reg_covers buf target sz cells = (case checked_add target (max sz 1) of
       None \<Rightarrow> False
     | Some fin \<Rightarrow>
         (let layouts = (case cells of Some c \<Rightarrow> [c] | None \<Rightarrow> [(2, 2), (1, 1), (2, 1)]) in
          list_ex (\<lambda>(addr_cells, size_cells).
            let entry = (addr_cells + size_cells) * 4 in
            length buf mod entry = 0
            \<and> list_ex (\<lambda>e.
                let start = read_be_cells (take (addr_cells * 4) e);
                    len = read_be_cells (drop (addr_cells * 4) e)
                in len > 0 \<and> target \<ge> start \<and> fin \<le> saturating_add start len)
              (chunks_exact entry buf)) layouts))"

definition reg_cells :: "fs \<Rightarrow> path \<Rightarrow> (nat \<times> nat) option" where
  "reg_cells F reg_path =
     Option.bind (path_parent reg_path) (\<lambda>of_node.
     Option.bind (fs_canon F of_node) (\<lambda>node.
     Option.bind (path_parent node) (\<lambda>parent.
     Option.bind (read_dt_cells F (path_join parent ''#address-cells'')) (\<lambda>a.
     Option.bind (read_dt_cells F (path_join parent ''#size-cells'')) (\<lambda>s. Some (a, s))))))"

definition reg_file_covers :: "fs \<Rightarrow> path \<Rightarrow> u64 \<Rightarrow> usize \<Rightarrow> bool" where
  "reg_file_covers F reg_path target sz = (case fs_file F reg_path of
       None \<Rightarrow> False
     | Some buf \<Rightarrow> reg_covers buf target sz (reg_cells F reg_path))"

definition find_owning_device :: "fs \<Rightarrow> path \<Rightarrow> u64 \<Rightarrow> usize \<Rightarrow> (string \<times> path) option" where
  "find_owning_device F devices target sz = (case fs_dir F devices of
       None \<Rightarrow> None
     | Some entries \<Rightarrow>
         map_option (\<lambda>dev. (dev, path_join devices dev))
           (find (\<lambda>dev. reg_file_covers F (path_join (path_join devices dev) ''of_node/reg'') target sz)
             entries))"

section \<open>What the scan of \<open>/proc/iomem\<close> decides\<close>

text \<open>
  The entries of the file that carry addresses, with their indents. An entry is a leaf when the
  next one is not indented below it.
\<close>

definition iomem_entries :: "string \<Rightarrow> (nat \<times> iomem_line) list" where
  "iomem_entries content = List.map_filter (\<lambda>line. case iomem_entry line of
       Some e \<Rightarrow> if il_end e = 0 then None else Some (iomem_indent line, e)
     | None \<Rightarrow> None) (read_lines content)"

definition restricted_hit :: "u64 \<Rightarrow> u64 \<Rightarrow> nat \<times> iomem_line \<Rightarrow> bool" where
  "restricted_hit target hi = (\<lambda>(_, e).
     target \<le> il_end e \<and> hi \<ge> il_start e \<and> is_restricted (il_resource e))"

definition covers_line :: "u64 \<Rightarrow> u64 \<Rightarrow> nat \<times> iomem_line \<Rightarrow> bool" where
  "covers_line target hi = (\<lambda>(_, e). target \<ge> il_start e \<and> hi \<le> il_end e)"

definition leaf_at :: "(nat \<times> 'a) list \<Rightarrow> nat \<Rightarrow> bool" where
  "leaf_at es i \<longleftrightarrow> (Suc i < length es \<longrightarrow> fst (es ! Suc i) \<le> fst (es ! i))"

fun leaf_cover :: "u64 \<Rightarrow> u64 \<Rightarrow> (nat \<times> iomem_line) list \<Rightarrow> bool" where
  "leaf_cover target hi [] = False"
| "leaf_cover target hi (e # es) =
     ((covers_line target hi e \<and> (case es of [] \<Rightarrow> True | f # _ \<Rightarrow> fst f \<le> fst e))
      \<or> leaf_cover target hi es)"

lemma leaf_cover_iff:
  "leaf_cover target hi es \<longleftrightarrow> (\<exists>i<length es. covers_line target hi (es ! i) \<and> leaf_at es i)"
proof (induction es)
  case (Cons e es)
  have "(\<exists>i<length (e # es). covers_line target hi ((e # es) ! i) \<and> leaf_at (e # es) i) \<longleftrightarrow>
      (covers_line target hi e \<and> leaf_at (e # es) 0)
      \<or> (\<exists>i<length es. covers_line target hi (es ! i) \<and> leaf_at es i)"
    by (auto simp: ex_simps less_Suc_eq_0_disj leaf_at_def)
  moreover have "leaf_at (e # es) 0 \<longleftrightarrow> (case es of [] \<Rightarrow> True | f # _ \<Rightarrow> fst f \<le> fst e)"
    by (cases es) (auto simp: leaf_at_def)
  ultimately show ?case
    using Cons.IH by simp
qed simp

definition line_entry :: "string \<Rightarrow> (nat \<times> iomem_line) option" where
  "line_entry line = (case iomem_entry line of
       Some e \<Rightarrow> if il_end e = 0 then None else Some (iomem_indent line, e)
     | None \<Rightarrow> None)"

lemma iomem_entries_eq: "iomem_entries content = List.map_filter line_entry (read_lines content)"
  by (simp add: iomem_entries_def line_entry_def [abs_def])

text \<open>What the loop answers, in terms of the entries still to come.\<close>

definition scan_spec ::
  "u64 \<Rightarrow> usize \<Rightarrow> u64 \<Rightarrow> (nat \<times> iomem_line) list \<Rightarrow> bool \<Rightarrow> nat option \<Rightarrow> mmreg_error + bool"
where
  "scan_spec target sz hi es listed pending = (case find (restricted_hit target hi) es of
       Some (_, e) \<Rightarrow> Inl (BlueprintSystemRam target sz (il_resource e))
     | None \<Rightarrow> Inr (listed
         \<or> (case pending of None \<Rightarrow> False
            | Some p \<Rightarrow> (case es of [] \<Rightarrow> True | f # _ \<Rightarrow> fst f \<le> p))
         \<or> leaf_cover target hi es))"

lemma scan_spec_Cons:
  "scan_spec target sz hi ((n, e) # es) listed pending =
     (if restricted_hit target hi (n, e) then Inl (BlueprintSystemRam target sz (il_resource e))
      else scan_spec target sz hi es
        (case pending of Some p \<Rightarrow> listed \<or> n \<le> p | None \<Rightarrow> listed)
        (if covers_line target hi (n, e) then Some n else None))"
  by (auto simp: scan_spec_def split: option.splits list.splits)

lemma iomem_loop_spec:
  "iomem_loop target sz hi lines listed pending =
     scan_spec target sz hi (List.map_filter line_entry lines) listed pending"
proof (induction lines arbitrary: listed pending)
  case Nil
  then show ?case
    by (auto simp: scan_spec_def map_filter_simps split: option.splits)
next
  case (Cons line rest)
  show ?case
  proof (cases "line_entry line")
    case None
    then have "iomem_loop target sz hi (line # rest) listed pending
        = iomem_loop target sz hi rest listed pending"
      by (auto simp: line_entry_def split: option.splits if_splits)
    with Cons.IH None show ?thesis
      by (simp add: map_filter_simps)
  next
    case (Some ne)
    then obtain e where ne: "ne = (iomem_indent line, e)" "iomem_entry line = Some e" "il_end e \<noteq> 0"
      by (auto simp: line_entry_def split: option.splits if_splits)
    have "List.map_filter line_entry (line # rest)
        = (iomem_indent line, e) # List.map_filter line_entry rest"
      using Some ne by (simp add: map_filter_simps)
    then show ?thesis
      using Cons.IH ne
      by (simp add: scan_spec_Cons restricted_hit_def covers_line_def Let_def cong: if_cong)
  qed
qed

text \<open>
  C34: \<open>parse_iomem\<close> refuses the range with the first entry that overlaps it and is memory (never
  missing one, whatever is nested in what), and otherwise reports it as listed exactly when some
  leaf entry (one without an entry indented below it) covers the whole of it. A range that wraps
  around is not listed.
\<close>

theorem parse_iomem_spec:
  "parse_iomem content target sz =
     (case checked_add target (max sz 1 - 1) of
        None \<Rightarrow> Inr False
      | Some hi \<Rightarrow> (case find (restricted_hit target hi) (iomem_entries content) of
          Some (_, e) \<Rightarrow> Inl (BlueprintSystemRam target sz (il_resource e))
        | None \<Rightarrow> Inr (\<exists>i<length (iomem_entries content).
            covers_line target hi (iomem_entries content ! i) \<and> leaf_at (iomem_entries content) i)))"
  by (simp add: parse_iomem_def iomem_loop_spec scan_spec_def iomem_entries_eq leaf_cover_iff
      split: option.split)

section \<open>What a \<open>reg\<close> property covers\<close>

lemma unat_max_1: "unat (max sz 1 :: u64) = max (unat sz) 1"
  by (simp add: max_def word_le_nat_alt)

text \<open>
  An accepted \<open>reg\<close> property has an entry, in the layout given by the parent's cell sizes (or
  one of the three guessed layouts), whose address range holds the whole target range; the end is
  compared as an unbounded number, so an entry whose end is cut at \<open>2^64\<close> accepts no more than it
  covers, and a target range that wraps around is covered by none.
\<close>

theorem reg_covers_sound:
  assumes "reg_covers buf target sz cells"
  shows "\<exists>ac sc e. (case cells of Some c \<Rightarrow> c = (ac, sc) | None \<Rightarrow> (ac, sc) \<in> {(2, 2), (1, 1), (2, 1)})
    \<and> length buf mod ((ac + sc) * 4) = 0 \<and> e \<in> set (chunks_exact ((ac + sc) * 4) buf)
    \<and> unat (read_be_cells (take (ac * 4) e)) \<le> unat target
    \<and> unat target + max (unat sz) 1
        \<le> unat (read_be_cells (take (ac * 4) e)) + unat (read_be_cells (drop (ac * 4) e))"
proof -
  obtain fin where fin: "checked_add target (max sz 1) = Some fin"
    using assms by (auto simp: reg_covers_def split: option.splits)
  define layouts where
    "layouts = (case cells of Some c \<Rightarrow> [c] | None \<Rightarrow> [(2, 2), (1, 1), (2, 1 :: nat)])"
  from assms obtain ac sc e where c: "(ac, sc) \<in> set layouts"
    and l: "length buf mod ((ac + sc) * 4) = 0" and e: "e \<in> set (chunks_exact ((ac + sc) * 4) buf)"
    and a: "read_be_cells (take (ac * 4) e) \<le> target"
    and b: "fin \<le> saturating_add (read_be_cells (take (ac * 4) e)) (read_be_cells (drop (ac * 4) e))"
    unfolding reg_covers_def fin layouts_def by (auto simp: list_ex_iff Let_def)
  have "unat fin \<le> unat (read_be_cells (take (ac * 4) e)) + unat (read_be_cells (drop (ac * 4) e))"
    using b by (simp add: word_le_nat_alt unat_saturating_add)
  moreover have "unat fin = unat target + max (unat sz) 1"
    using fin by (simp add: checked_add_Some_iff unat_max_1)
  ultimately have "unat target + max (unat sz) 1
      \<le> unat (read_be_cells (take (ac * 4) e)) + unat (read_be_cells (drop (ac * 4) e))"
    by simp
  moreover have "case cells of Some c \<Rightarrow> c = (ac, sc) | None \<Rightarrow> (ac, sc) \<in> {(2, 2), (1, 1), (2, 1)}"
    using c by (cases cells) (auto simp: layouts_def)
  moreover have "unat (read_be_cells (take (ac * 4) e)) \<le> unat target"
    using a by (simp add: word_le_nat_alt)
  ultimately show ?thesis
    using l e by (intro exI [of _ ac] exI [of _ sc] exI [of _ e] conjI)
qed

definition sample_reg :: string where
  "sample_reg = map char_of [0xA0, 0, 0, 0, 0, 0, 0x10, 0 :: nat]"

theorem reg_covers_sound_witness:
  "reg_covers sample_reg 0xA0000010 4 (Some (1, 1))
    \<and> (\<exists>ac sc e. (ac, sc) = (1, 1) \<and> length sample_reg mod ((ac + sc) * 4) = 0
      \<and> e \<in> set (chunks_exact ((ac + sc) * 4) sample_reg))"
proof -
  have c: "reg_covers sample_reg 0xA0000010 4 (Some (1, 1))"
    by (simp add: reg_covers_def sample_reg_def chunks_exact.simps read_be_cells_def be_u32_def
        checked_add_def saturating_add_def byte_def)
  from reg_covers_sound [OF c] show ?thesis
    using c by (auto simp del: One_nat_def)
qed

end
