(* ===== verification/Preflight.thy ===== *)
theory Preflight
  imports Files
begin

text \<open>
  The hardware pre-flight of \<open>src/memcheck.rs\<close>: Device Tree status, runtime power management,
  suppliers, clocks and FPGA managers of the device that owns a range, and the guard that keeps the
  device awake while \<open>/dev/mem\<close> is mapped. The list of warnings that the code threads through as
  \<open>&mut Vec<String>\<close> is an argument and a part of the result; it is dropped with an error, as the
  only caller does.
\<close>

section \<open>FPGA fabric\<close>

definition fpga_bus_prefixes :: "string list" where
  "fpga_bus_prefixes = [''amba_pl'', ''axi_pl'', ''pl-bus'', ''fpga-region'', ''fpga_region'',
     ''fpga-full'', ''fpga-bus'']"

definition path_has_fpga_component :: "path \<Rightarrow> bool" where
  "path_has_fpga_component p =
     list_ex (\<lambda>s. list_ex (starts_with_ignore_case s) fpga_bus_prefixes)
       (filter utf8_valid (path_parts p))"

definition is_fpga_backed_device :: "fs \<Rightarrow> path \<Rightarrow> bool" where
  "is_fpga_backed_device F dev_path \<longleftrightarrow>
     path_has_fpga_component dev_path
     \<or> (case fs_canon F dev_path of Some p \<Rightarrow> path_has_fpga_component p | None \<Rightarrow> False)
     \<or> (case fs_canon F (path_join dev_path ''of_node'') of
          Some p \<Rightarrow> path_has_fpga_component p | None \<Rightarrow> False)
     \<or> (case fs_dir F dev_path of
          None \<Rightarrow> False
        | Some entries \<Rightarrow> list_ex (\<lambda>s. utf8_valid s \<and> is_supplier_link s
             \<and> str_contains (to_ascii_lowercase s) ''fpga'') entries)"

section \<open>Power\<close>

definition pm_is_bad :: "string \<Rightarrow> bool" where
  "pm_is_bad status = list_ex (eq_ignore_ascii_case status) [''suspended'', ''suspending'', ''error'']"

definition bad_runtime_pm :: "fs \<Rightarrow> path \<Rightarrow> string option" where
  "bad_runtime_pm F pm_path = (case fs_read_to_string F pm_path of
       None \<Rightarrow> None
     | Some raw \<Rightarrow> if pm_is_bad (str_trim raw) then Some (str_trim raw) else None)"

section \<open>Clocks\<close>

text \<open>
  A row of \<open>clk_summary\<close>: the enable count and the first of the tokens 3 to 9 that is \<open>Y\<close>, \<open>N\<close> or \<open>-\<close>.
\<close>

type_synonym clk_row = "u32 \<times> char option"

definition parse_clk_summary_row :: "string list \<Rightarrow> clk_row option" where
  "parse_clk_summary_row tokens =
     (if length tokens < 3 then None
      else case u32_parse (tokens ! 1) of
        None \<Rightarrow> None
      | Some enable_count \<Rightarrow> (case u32_parse (tokens ! 2) of
          None \<Rightarrow> None
        | Some _ \<Rightarrow> Some (enable_count,
            map_option hd (find (\<lambda>t. t \<in> {''Y'', ''N'', ''-''}) (take 7 (drop 3 tokens))))))"

definition evaluate_clock_state ::
  "string \<Rightarrow> string \<Rightarrow> clk_row \<Rightarrow> path \<Rightarrow> string list \<Rightarrow> mmreg_error + string list"
where
  "evaluate_clock_state dev_name clk_name row summary_path warnings =
     (let (enable_count, hw_enable) = row in
      if hw_enable = Some (CHR ''N'') then Inl (ZombieClockGated dev_name clk_name summary_path)
      else if hw_enable = Some (CHR ''Y'') then Inr warnings
      else if enable_count = 0 then Inr (warnings @
        [''Warning: Clock '' @ sq clk_name @ '' for device '' @ sq dev_name @
         '' has enable_count == 0 in '' @ sq summary_path @ '' (hardware-enable column unavailable).''])
      else Inr warnings)"

text \<open>The loop over the lines, with the last clock row (\<open>clock\<close>, \<open>state\<close>).\<close>

fun clk_summary_loop ::
  "string \<Rightarrow> string list \<Rightarrow> path \<Rightarrow> string list \<Rightarrow> string \<Rightarrow> clk_row option \<Rightarrow> string list
    \<Rightarrow> mmreg_error + string list"
where
  "clk_summary_loop dev_name names sp [] clock state warnings = Inr warnings"
| "clk_summary_loop dev_name names sp (line # rest) clock state warnings =
     (let tokens = take 12 (split_whitespace line) in
      case parse_clk_summary_row tokens of
        Some row \<Rightarrow>
          (if tokens ! 0 \<in> set names \<or> dev_name \<in> set (drop 3 tokens)
           then rbind (evaluate_clock_state dev_name (tokens ! 0) row sp warnings)
             (\<lambda>w. clk_summary_loop dev_name names sp rest (tokens ! 0) (Some row) w)
           else clk_summary_loop dev_name names sp rest (tokens ! 0) (Some row) warnings)
      | None \<Rightarrow>
          (case state of
             Some row \<Rightarrow>
               (if dev_name \<in> set tokens
                then rbind (evaluate_clock_state dev_name clock row sp warnings)
                  (\<lambda>w. clk_summary_loop dev_name names sp rest clock state w)
                else clk_summary_loop dev_name names sp rest clock state warnings)
           | None \<Rightarrow> clk_summary_loop dev_name names sp rest clock state warnings))"

definition check_clk_summary ::
  "string \<Rightarrow> string \<Rightarrow> string list \<Rightarrow> path \<Rightarrow> string list \<Rightarrow> mmreg_error + string list"
where
  "check_clk_summary content dev_name names sp warnings =
     clk_summary_loop dev_name names sp (read_lines content) [] None warnings"

definition dt_clock_names :: "fs \<Rightarrow> path \<Rightarrow> string list" where
  "dt_clock_names F dev_path = (case fs_file F (path_join dev_path ''of_node/clock-names'') of
       None \<Rightarrow> []
     | Some raw \<Rightarrow> filter (\<lambda>s. s \<noteq> [])
         (map str_trim (filter utf8_valid (split_byte (CHR 0x00) raw))))"

definition clk_count_warning :: "string \<Rightarrow> string \<Rightarrow> path \<Rightarrow> string" where
  "clk_count_warning clk_name dev_name count_path =
     ''Warning: Clock '' @ sq clk_name @ '' for device '' @ sq dev_name @
     '' has software clk_enable_count == 0 at '' @ sq count_path @
     '' (hardware-enable state unavailable).''"

fun check_clk_counts ::
  "fs \<Rightarrow> path \<Rightarrow> string \<Rightarrow> string list \<Rightarrow> string list \<Rightarrow> string list"
where
  "check_clk_counts F root dev_name [] warnings = warnings"
| "check_clk_counts F root dev_name (clk # clks) warnings =
     (let count_path = path_join (path_join root clk) ''clk_enable_count'';
          zero = (case fs_read_to_string F count_path of
            Some raw \<Rightarrow> str_trim raw = ''0'' | None \<Rightarrow> False)
      in check_clk_counts F root dev_name clks
           (if zero then warnings @ [clk_count_warning clk dev_name count_path] else warnings))"

definition check_device_clocks ::
  "fs \<Rightarrow> string \<Rightarrow> path \<Rightarrow> path \<Rightarrow> string list \<Rightarrow> mmreg_error + string list"
where
  "check_device_clocks F dev_name dev_path clk_debug_root warnings =
     (if \<not> fs_exists F clk_debug_root then Inr warnings
      else
        (let names = dt_clock_names F dev_path;
             summary_path = path_join clk_debug_root ''clk_summary''
         in case fs_file F summary_path of
              Some content \<Rightarrow> check_clk_summary content dev_name names summary_path warnings
            | None \<Rightarrow> Inr (check_clk_counts F clk_debug_root dev_name names warnings)))"

section \<open>FPGA managers\<close>

fun fpga_managers :: "fs \<Rightarrow> path \<Rightarrow> string \<Rightarrow> string list \<Rightarrow> mmreg_error + unit" where
  "fpga_managers F root dev_name [] = Inr ()"
| "fpga_managers F root dev_name (entry # entries) =
     (let state_path = path_join (path_join root entry) ''state'' in
      case fs_read_to_string F state_path of
        None \<Rightarrow> fpga_managers F root dev_name entries
      | Some state \<Rightarrow>
          if eq_ignore_ascii_case (str_trim state) ''operating''
          then fpga_managers F root dev_name entries
          else Inl (ZombieFpgaState dev_name entry (str_trim state) state_path))"

definition check_fpga_manager_operating :: "fs \<Rightarrow> string \<Rightarrow> path \<Rightarrow> mmreg_error + unit" where
  "check_fpga_manager_operating F dev_name root = (case fs_dir F root of
       None \<Rightarrow> Inr ()
     | Some entries \<Rightarrow> fpga_managers F root dev_name entries)"

section \<open>The pre-flight of one device\<close>

definition dt_status_check :: "fs \<Rightarrow> string \<Rightarrow> path \<Rightarrow> mmreg_error + unit" where
  "dt_status_check F dev_name dev_path =
     (let status_path = path_join dev_path ''of_node/status'' in
      case fs_read_to_string F status_path of
        None \<Rightarrow> Inr ()
      | Some raw \<Rightarrow>
          (let status = trim_by (\<lambda>ch. ch = [CHR 0x00] \<or> is_ws ch) raw in
           if status \<noteq> [] \<and> \<not> eq_ignore_ascii_case status ''okay''
              \<and> \<not> eq_ignore_ascii_case status ''ok''
           then Inl (ZombieDtStatus dev_name status status_path) else Inr ()))"

definition supplier_pm_path :: "fs \<Rightarrow> path \<Rightarrow> string \<Rightarrow> path" where
  "supplier_pm_path F dev_path nm =
     (let link = path_join dev_path nm; supplier = path_join link ''supplier'';
          root = (if fs_exists F supplier then supplier else link)
      in path_join root ''power/runtime_status'')"

fun supplier_checks :: "fs \<Rightarrow> string \<Rightarrow> path \<Rightarrow> string list \<Rightarrow> mmreg_error + unit" where
  "supplier_checks F dev_name dev_path [] = Inr ()"
| "supplier_checks F dev_name dev_path (nm # entries) =
     (if \<not> (utf8_valid nm \<and> is_supplier_link nm) then supplier_checks F dev_name dev_path entries
      else case bad_runtime_pm F (supplier_pm_path F dev_path nm) of
        Some status \<Rightarrow> Inl (ZombieSupplierPm dev_name nm status (supplier_pm_path F dev_path nm))
      | None \<Rightarrow> supplier_checks F dev_name dev_path entries)"

definition preflight_check_device ::
  "fs \<Rightarrow> string \<Rightarrow> path \<Rightarrow> path \<Rightarrow> string list \<Rightarrow> mmreg_error + string list"
where
  "preflight_check_device F dev_name dev_path fpga_mgr_root warnings =
     rbind (dt_status_check F dev_name dev_path) (\<lambda>_.
     let pm_path = path_join dev_path ''power/runtime_status'' in
     case bad_runtime_pm F pm_path of
       Some status \<Rightarrow> Inl (ZombieRuntimePm dev_name status pm_path dev_path)
     | None \<Rightarrow>
         rbind (case fs_dir F dev_path of
             Some entries \<Rightarrow> supplier_checks F dev_name dev_path entries | None \<Rightarrow> Inr ()) (\<lambda>_.
         rbind (check_device_clocks F dev_name dev_path ''/sys/kernel/debug/clk'' warnings) (\<lambda>w.
         if is_fpga_backed_device F dev_path
         then rbind (check_fpga_manager_operating F dev_name fpga_mgr_root) (\<lambda>_. Inr w)
         else Inr w)))"

section \<open>\<open>RuntimePmGuard\<close>\<close>

record pm_guard =
  pg_control_path :: path
  pg_previous :: string

definition pm_warning :: "path \<Rightarrow> io_error \<Rightarrow> string" where
  "pm_warning control_path e =
     ''Warning: Failed to set '' @ sq control_path @ '' to '' @ sq ''on'' @ '' ('' @ ie_text e @
     ''); device may autosuspend during /dev/mem access.''"

definition pm_acquire :: "path \<Rightarrow> string list \<Rightarrow> fs \<Rightarrow> (pm_guard option \<times> string list) \<times> fs" where
  "pm_acquire dev_path warnings F =
     (let control_path = path_join dev_path ''power/control'' in
      case fs_read_to_string F control_path of
        None \<Rightarrow> ((None, warnings), F)
      | Some raw \<Rightarrow>
          (let previous = str_trim raw in
           if eq_ignore_ascii_case previous ''on'' then ((None, warnings), F)
           else case fs_write control_path ''on'' F of
               (Inr _, F') \<Rightarrow>
                 ((Some \<lparr>pg_control_path = control_path, pg_previous = previous\<rparr>, warnings), F')
             | (Inl e, F') \<Rightarrow> ((None, warnings @ [pm_warning control_path e]), F')))"

definition pm_drop :: "pm_guard \<Rightarrow> fs \<Rightarrow> fs" where
  "pm_drop g F = snd (fs_write (pg_control_path g) (pg_previous g) F)"

section \<open>Gated clocks\<close>

text \<open>
  A line of \<open>clk_summary\<close> concerns the device when it is a clock row of one of its clocks or with
  the device as consumer, or a consumer-only line with the device. The clock of a line is that of
  the last row at or above it.
\<close>

definition clk_tokens :: "string \<Rightarrow> string list" where
  "clk_tokens line = take 12 (split_whitespace line)"

definition clk_concerns :: "string \<Rightarrow> string list \<Rightarrow> string \<Rightarrow> bool" where
  "clk_concerns dev_name names line =
     (case parse_clk_summary_row (clk_tokens line) of
        Some _ \<Rightarrow> clk_tokens line ! 0 \<in> set names \<or> dev_name \<in> set (drop 3 (clk_tokens line))
      | None \<Rightarrow> dev_name \<in> set (clk_tokens line))"

definition next_row :: "(string \<times> clk_row) option \<Rightarrow> string \<Rightarrow> (string \<times> clk_row) option" where
  "next_row cur line = (case parse_clk_summary_row (clk_tokens line) of
       Some row \<Rightarrow> Some (clk_tokens line ! 0, row) | None \<Rightarrow> cur)"

definition row_above :: "(string \<times> clk_row) option \<Rightarrow> string list \<Rightarrow> (string \<times> clk_row) option" where
  "row_above cur lines = foldl next_row cur lines"

definition gated_at :: "string \<Rightarrow> string list \<Rightarrow> (string \<times> clk_row) option \<Rightarrow> string list \<Rightarrow> string \<Rightarrow> bool"
where
  "gated_at dev_name names cur lines c \<longleftrightarrow> (\<exists>pre line post n.
     lines = pre @ line # post \<and> clk_concerns dev_name names line
     \<and> row_above cur (pre @ [line]) = Some (c, n, Some (CHR ''N'')))"

lemma gated_at_Nil [simp]: "\<not> gated_at d ns cur [] c"
  by (simp add: gated_at_def)

lemma gated_at_Cons:
  "gated_at d ns cur (line # rest) c \<longleftrightarrow>
     (clk_concerns d ns line \<and> (\<exists>n. next_row cur line = Some (c, n, Some (CHR ''N''))))
     \<or> gated_at d ns (next_row cur line) rest c"
  unfolding gated_at_def row_above_def
  by (auto simp: Cons_eq_append_conv) (metis append_Cons append_Nil foldl_Cons foldl_Nil)+

lemma evaluate_clock_state_cases:
  "evaluate_clock_state d c (n, hw) sp w =
     (if hw = Some (CHR ''N'') then Inl (ZombieClockGated d c sp)
      else Inr (if hw = Some (CHR ''Y'') \<or> n \<noteq> 0 then w else w @
        [''Warning: Clock '' @ sq c @ '' for device '' @ sq d @
         '' has enable_count == 0 in '' @ sq sp @ '' (hardware-enable column unavailable).'']))"
  by (simp add: evaluate_clock_state_def)

text \<open>One turn of the loop, in the vocabulary of the specification.\<close>

lemma clk_summary_loop_Cons:
  "clk_summary_loop d ns sp (line # rest) clock st w =
     (let cur = next_row (map_option (Pair clock) st) line in
      if clk_concerns d ns line then
        (case cur of
           None \<Rightarrow> clk_summary_loop d ns sp rest clock st w
         | Some (c, row) \<Rightarrow> rbind (evaluate_clock_state d c row sp w)
             (\<lambda>w'. clk_summary_loop d ns sp rest c (Some row) w'))
      else (case cur of
           None \<Rightarrow> clk_summary_loop d ns sp rest clock st w
         | Some (c, row) \<Rightarrow> clk_summary_loop d ns sp rest c (Some row) w))"
  by (auto simp: clk_concerns_def next_row_def clk_tokens_def Let_def
      simp del: parse_clk_summary_row_def split: option.split)

declare clk_summary_loop.simps(2) [simp del]

lemma clk_summary_loop_spec:
  "(case clk_summary_loop d ns sp lines clock st w of
      Inl e \<Rightarrow> \<exists>c. gated_at d ns (map_option (Pair clock) st) lines c \<and> e = ZombieClockGated d c sp
    | Inr _ \<Rightarrow> \<forall>c. \<not> gated_at d ns (map_option (Pair clock) st) lines c)"
proof (induction lines arbitrary: clock st w)
  case (Cons line rest)
  define cur where "cur = next_row (map_option (Pair clock) st) line"
  show ?case
  proof (cases cur)
    case None
    then have "clk_summary_loop d ns sp (line # rest) clock st w
        = clk_summary_loop d ns sp rest clock st w"
      by (simp add: clk_summary_loop_Cons cur_def)
    moreover have "map_option (Pair clock) st = None"
      using None by (auto simp: cur_def next_row_def split: option.splits)
    ultimately show ?thesis
      using Cons.IH [of clock st w] None by (simp add: gated_at_Cons cur_def cong: sum.case_cong)
  next
    case (Some x)
    obtain c n hw where x: "x = (c, n, hw)"
      by (cases x) auto
    have step: "clk_summary_loop d ns sp (line # rest) clock st w =
        (if clk_concerns d ns line
         then rbind (evaluate_clock_state d c (n, hw) sp w)
           (\<lambda>w'. clk_summary_loop d ns sp rest c (Some (n, hw)) w')
         else clk_summary_loop d ns sp rest c (Some (n, hw)) w)"
      using Some by (simp add: clk_summary_loop_Cons cur_def x)
    have nxt: "next_row (map_option (Pair clock) st) line = Some (c, n, hw)"
      using Some by (simp add: cur_def x)
    show ?thesis
    proof (cases "clk_concerns d ns line \<and> hw = Some (CHR ''N'')")
      case True
      then show ?thesis
        unfolding step gated_at_Cons nxt by (auto simp: evaluate_clock_state_cases)
    next
      case False
      then obtain w' where "clk_summary_loop d ns sp (line # rest) clock st w
          = clk_summary_loop d ns sp rest c (Some (n, hw)) w'"
        unfolding step by (cases "clk_concerns d ns line") (auto simp: evaluate_clock_state_cases)
      then show ?thesis
        using Cons.IH [of c "Some (n, hw)" w'] False
        by (auto simp: gated_at_Cons nxt split: sum.splits)
    qed
  qed
qed simp

section \<open>What the pre-flight accepts\<close>

definition dt_status_ok :: "fs \<Rightarrow> path \<Rightarrow> bool" where
  "dt_status_ok F dev_path = (case fs_read_to_string F (path_join dev_path ''of_node/status'') of
       None \<Rightarrow> True
     | Some raw \<Rightarrow>
         to_ascii_lowercase (trim_by (\<lambda>ch. ch = [CHR 0x00] \<or> is_ws ch) raw)
           \<in> {[], ''ok'', ''okay''})"

definition pm_ok :: "fs \<Rightarrow> path \<Rightarrow> bool" where
  "pm_ok F pm_path = (case fs_read_to_string F pm_path of
       None \<Rightarrow> True
     | Some raw \<Rightarrow>
         to_ascii_lowercase (str_trim raw) \<notin> {''suspended'', ''suspending'', ''error''})"

definition suppliers_ok :: "fs \<Rightarrow> path \<Rightarrow> bool" where
  "suppliers_ok F dev_path = (case fs_dir F dev_path of
       None \<Rightarrow> True
     | Some es \<Rightarrow> (\<forall>s\<in>set es. utf8_valid s \<longrightarrow> is_supplier_link s \<longrightarrow> pm_ok F (supplier_pm_path F dev_path s)))"

definition clocks_ok :: "fs \<Rightarrow> string \<Rightarrow> path \<Rightarrow> bool" where
  "clocks_ok F dev_name dev_path \<longleftrightarrow>
     (fs_exists F ''/sys/kernel/debug/clk'' \<longrightarrow>
      (case fs_file F ''/sys/kernel/debug/clk/clk_summary'' of
         None \<Rightarrow> True
       | Some content \<Rightarrow>
           (\<forall>c. \<not> gated_at dev_name (dt_clock_names F dev_path) None (read_lines content) c)))"

definition fpga_operating :: "fs \<Rightarrow> path \<Rightarrow> bool" where
  "fpga_operating F root = (case fs_dir F root of
       None \<Rightarrow> True
     | Some entries \<Rightarrow> (\<forall>m\<in>set entries.
         case fs_read_to_string F (path_join (path_join root m) ''state'') of
           None \<Rightarrow> True
         | Some state \<Rightarrow> to_ascii_lowercase (str_trim state) = ''operating''))"

lemma dt_status_check_Inr: "dt_status_check F n p = Inr () \<longleftrightarrow> dt_status_ok F p"
proof -
  have "to_ascii_lowercase ''okay'' = ''okay''" "to_ascii_lowercase ''ok'' = ''ok''"
    by code_simp+
  then show ?thesis
    by (auto simp: dt_status_check_def dt_status_ok_def Let_def eq_ignore_ascii_case_def
        to_ascii_lowercase_def split: option.splits)
qed

lemma bad_runtime_pm_None: "bad_runtime_pm F p = None \<longleftrightarrow> pm_ok F p"
proof -
  have "to_ascii_lowercase ''suspended'' = ''suspended''"
    "to_ascii_lowercase ''suspending'' = ''suspending''" "to_ascii_lowercase ''error'' = ''error''"
    by code_simp+
  then show ?thesis
    by (auto simp: bad_runtime_pm_def pm_ok_def pm_is_bad_def eq_ignore_ascii_case_def
        split: option.splits)
qed

lemma supplier_checks_Inr:
  "supplier_checks F n p es = Inr () \<longleftrightarrow>
     (\<forall>s\<in>set es. utf8_valid s \<longrightarrow> is_supplier_link s \<longrightarrow> pm_ok F (supplier_pm_path F p s))"
  by (induction es) (auto simp: bad_runtime_pm_None [symmetric] split: option.split)

lemma fpga_managers_Inr:
  "fpga_managers F root n es = Inr () \<longleftrightarrow> (\<forall>m\<in>set es.
     case fs_read_to_string F (path_join (path_join root m) ''state'') of
       None \<Rightarrow> True | Some state \<Rightarrow> to_ascii_lowercase (str_trim state) = ''operating'')"
proof -
  have "to_ascii_lowercase ''operating'' = ''operating''"
    by code_simp
  then show ?thesis
    by (induction es) (auto simp: Let_def eq_ignore_ascii_case_def split: option.splits)
qed

lemma fpga_check_Inr: "check_fpga_manager_operating F n root = Inr () \<longleftrightarrow> fpga_operating F root"
  by (simp add: check_fpga_manager_operating_def fpga_operating_def fpga_managers_Inr split: option.split)

lemma clocks_Inr:
  "(\<exists>w'. check_device_clocks F n p ''/sys/kernel/debug/clk'' w = Inr w') \<longleftrightarrow> clocks_ok F n p"
proof -
  have j: "path_join ''/sys/kernel/debug/clk'' ''clk_summary'' = ''/sys/kernel/debug/clk/clk_summary''"
    by code_simp
  have "(\<exists>w'. check_clk_summary c n ns sp w = Inr w') \<longleftrightarrow> (\<forall>x. \<not> gated_at n ns None (read_lines c) x)"
    for c ns sp
    using clk_summary_loop_spec [where d = n and ns = ns and sp = sp and lines = "read_lines c"
        and clock = "[]" and st = None and w = w]
    by (auto simp: check_clk_summary_def split: sum.splits)
  then show ?thesis
    by (simp add: check_device_clocks_def clocks_ok_def j Let_def split: option.split)
qed

text \<open>
  C35: the pre-flight lets a device pass exactly when its Device Tree status is \<open>okay\<close> (or absent),
  neither it nor any of its suppliers is suspended, suspending or in error, no line of
  \<open>clk_summary\<close> that concerns it stands under a clock that is gated in hardware, and, for a device
  on an FPGA fabric, every readable FPGA manager is operating.
\<close>

theorem preflight_accepts_iff:
  "(\<exists>w'. preflight_check_device F n p root w = Inr w') \<longleftrightarrow>
     dt_status_ok F p \<and> pm_ok F (path_join p ''power/runtime_status'')
     \<and> suppliers_ok F p
     \<and> clocks_ok F n p
     \<and> (if is_fpga_backed_device F p then fpga_operating F root else True)"
proof -
  have unit: "(\<exists>u. r = Inr u) \<longleftrightarrow> r = Inr ()" for r :: "mmreg_error + unit"
    by auto
  have suppliers: "(case fs_dir F p of Some es \<Rightarrow> supplier_checks F n p es | None \<Rightarrow> Inr ()) = Inr ()
      \<longleftrightarrow> suppliers_ok F p"
    by (simp add: suppliers_ok_def supplier_checks_Inr split: option.split)
  have pm: "(\<exists>w'. (case bad_runtime_pm F q of Some s \<Rightarrow> Inl (e s) | None \<Rightarrow> rest) = Inr w')
      \<longleftrightarrow> pm_ok F q \<and> (\<exists>w'. rest = Inr w')" for q e and rest :: "mmreg_error + string list"
    by (auto simp: bad_runtime_pm_None [symmetric] split: option.splits)
  have fpga: "(\<exists>w'. (if is_fpga_backed_device F p
        then rbind (check_fpga_manager_operating F n root) (\<lambda>_. Inr v) else Inr v) = Inr w')
      \<longleftrightarrow> (is_fpga_backed_device F p \<longrightarrow> fpga_operating F root)" for v :: "string list"
    by (auto simp: rbind_Inr_iff fpga_check_Inr)
  have clk: "(\<exists>w'. rbind (check_device_clocks F n p ''/sys/kernel/debug/clk'' w) g = Inr w') \<longleftrightarrow>
      (\<exists>v. check_device_clocks F n p ''/sys/kernel/debug/clk'' w = Inr v \<and> (\<exists>w'. g v = Inr w'))"
    for g :: "string list \<Rightarrow> mmreg_error + string list"
    by (auto simp: rbind_Inr_iff)
  have seq: "(\<exists>w'. rbind r (\<lambda>_. g) = Inr w') \<longleftrightarrow> r = Inr () \<and> (\<exists>w'. g = Inr w')"
    for r :: "mmreg_error + unit" and g :: "mmreg_error + string list"
    by (auto simp: rbind_Inr_iff)
  show ?thesis
    unfolding preflight_check_device_def Let_def seq pm clk fpga suppliers dt_status_check_Inr
    by (simp add: clocks_Inr)
qed

section \<open>The power guard restores the control attribute\<close>

text \<open>
  C36: \<open>RuntimePmGuard\<close> leaves \<open>power/control\<close> at \<open>on\<close> while it lives and restores the trimmed
  previous value when it is dropped; without a guard nothing is written, and no other file is ever
  touched.
\<close>

theorem pm_guard_restores:
  "(case pm_acquire p w F of
      ((Some g, w'), F') \<Rightarrow>
        w' = w \<and> fs_file F' (path_join p ''power/control'') = Some ''on''
        \<and> (\<exists>raw. fs_read_to_string F (path_join p ''power/control'') = Some raw
            \<and> fs_file (pm_drop g F') = (fs_file F)(path_join p ''power/control'' \<mapsto> str_trim raw))
    | ((None, w'), F') \<Rightarrow> F' = F \<and> length w' \<le> Suc (length w))"
  by (auto simp: pm_acquire_def pm_drop_def fs_write_def Let_def split: option.splits)

end
