(* ===== verification/Resolve.thy ===== *)
theory Resolve
  imports Uio Iomem Preflight
begin

text \<open>
  \<open>resolve\<close> of \<open>src/memcheck.rs\<close>: how an address range is reached, who owns it, and whether the
  blueprint and the pre-flight allow it.
\<close>

record target =
  tg_mapper :: mapper_type
  tg_owner :: "path option"
  tg_warnings :: "string list"

text \<open>The owner of a UIO device path: the device directory of its \<open>sysfs\<close> entry, if that exists.\<close>

definition uio_path_owner :: "fs \<Rightarrow> path \<Rightarrow> (string \<times> path) option" where
  "uio_path_owner F dev_path = (case path_file_name dev_path of
       None \<Rightarrow> None
     | Some n \<Rightarrow>
         (let p = path_join ''/sys/class/uio'' n in
          if fs_exists F p then Some (uio_owner F p) else None))"

text \<open>The last part: a range that is not reached through UIO.\<close>

definition resolve_devmem :: "fs \<Rightarrow> u64 \<Rightarrow> usize \<Rightarrow> bool \<Rightarrow> mmreg_error + target" where
  "resolve_devmem F tgt sz check =
     (let own = find_owning_device F ''/sys/bus/platform/devices'' tgt sz;
          result = (\<lambda>w. Inr \<lparr>tg_mapper = DevMem, tg_owner = map_option snd own, tg_warnings = w\<rparr>)
      in if check then
           rbind (check_iomem F tgt sz) (\<lambda>in_iomem.
             case own of
               Some (nm, p) \<Rightarrow>
                 rbind (preflight_check_device F nm p ''/sys/class/fpga_manager'' []) result
             | None \<Rightarrow> if \<not> in_iomem then Inl (BlueprintUnmapped tgt sz) else result [])
         else result [])"

definition resolve :: "fs \<Rightarrow> u64 \<Rightarrow> usize \<Rightarrow> mapper_type \<Rightarrow> bool \<Rightarrow> mmreg_error + target" where
  "resolve F tgt sz mt check = (case mt of
       Uio dev_path _ \<Rightarrow>
         (let own = uio_path_owner F dev_path;
              result = (\<lambda>w. Inr \<lparr>tg_mapper = mt, tg_owner = map_option snd own, tg_warnings = w\<rparr>)
          in case own of
               Some (nm, p) \<Rightarrow>
                 if check then rbind (preflight_check_device F nm p ''/sys/class/fpga_manager'' []) result
                 else result []
             | None \<Rightarrow> result [])
     | DevMem \<Rightarrow> resolve_devmem F tgt sz check
     | Auto \<Rightarrow>
         (case find_uio_region F ''/sys/class/uio'' ''/dev'' tgt sz of
            Some R \<Rightarrow>
              (let result = (\<lambda>w. Inr \<lparr>tg_mapper = Uio (ur_dev_node R) (ur_region_index R),
                     tg_owner = Some (ur_device_path R), tg_warnings = w\<rparr>)
               in if check then rbind (preflight_check_device F (ur_device_name R) (ur_device_path R)
                      ''/sys/class/fpga_manager'' []) result
                  else result [])
          | None \<Rightarrow> resolve_devmem F tgt sz check))"

section \<open>What a resolved target is\<close>

lemma resolve_not_Auto: "resolve F a n mt check = Inr t \<Longrightarrow> tg_mapper t \<noteq> Auto"
  by (auto simp: resolve_def resolve_devmem_def Let_def rbind_Inr_iff
      split: mapper_type.splits option.splits if_splits)

text \<open>The memory ranges of \<open>/proc/iomem\<close> overlap \<open>[a, a + n)\<close>.\<close>

definition overlaps_ram :: "fs \<Rightarrow> u64 \<Rightarrow> usize \<Rightarrow> bool" where
  "overlaps_ram F a n \<longleftrightarrow> (\<exists>content hi.
     fs_file F ''/proc/iomem'' = Some content \<and> checked_add a (max n 1 - 1) = Some hi
     \<and> (\<exists>e\<in>set (iomem_entries content). restricted_hit a hi e))"

lemma find_Some_iff_bex: "(\<exists>x. find P xs = Some x) \<longleftrightarrow> (\<exists>x\<in>set xs. P x)"
  by (induction xs) auto

lemma check_iomem_ram: "check_iomem F a n = Inr b \<Longrightarrow> \<not> overlaps_ram F a n"
proof
  assume c: "check_iomem F a n = Inr b" and o: "overlaps_ram F a n"
  then obtain content hi where f: "fs_file F ''/proc/iomem'' = Some content"
    "checked_add a (max n 1 - 1) = Some hi" and e: "\<exists>e\<in>set (iomem_entries content). restricted_hit a hi e"
    by (auto simp: overlaps_ram_def)
  from e obtain x where "find (restricted_hit a hi) (iomem_entries content) = Some x"
    by (auto simp: find_Some_iff_bex [symmetric])
  with c f show False
    by (cases x) (simp add: check_iomem_def parse_iomem_def iomem_loop_spec scan_spec_def
        iomem_entries_eq)
qed

lemma resolve_devmem_sound:
  assumes "resolve_devmem F a n True = Inr t"
  shows "tg_mapper t = DevMem \<and> \<not> overlaps_ram F a n
    \<and> (check_iomem F a n = Inr True
       \<or> (\<exists>nm p w. find_owning_device F ''/sys/bus/platform/devices'' a n = Some (nm, p)
            \<and> preflight_check_device F nm p ''/sys/class/fpga_manager'' [] = Inr w \<and> tg_owner t = Some p))"
  using assms
  by (auto simp: resolve_devmem_def Let_def rbind_Inr_iff dest: check_iomem_ram
      split: option.splits if_splits)

text \<open>
  C37: with the checks on, \<open>Auto\<close> and \<open>DevMem\<close> never hand out a \<open>/dev/mem\<close> target that overlaps a
  memory range of \<open>/proc/iomem\<close> (when that is readable), nor one that is neither a leaf of
  \<open>/proc/iomem\<close> nor owned by a platform device that passed the pre-flight; \<open>Auto\<close> falls back to
  \<open>/dev/mem\<close> only when no UIO region covers the range, and is never the resolved type.
\<close>

theorem resolve_devmem_target:
  assumes "resolve F a n mt True = Inr t" "mt = Auto \<or> mt = DevMem"
  shows "tg_mapper t \<noteq> Auto
    \<and> (tg_mapper t = DevMem \<longrightarrow> \<not> overlaps_ram F a n
      \<and> (mt = Auto \<longrightarrow> find_uio_region F ''/sys/class/uio'' ''/dev'' a n = None)
      \<and> (check_iomem F a n = Inr True
         \<or> (\<exists>nm p w. find_owning_device F ''/sys/bus/platform/devices'' a n = Some (nm, p)
            \<and> preflight_check_device F nm p ''/sys/class/fpga_manager'' [] = Inr w
            \<and> tg_owner t = Some p)))
    \<and> (\<forall>p i. tg_mapper t = Uio p i \<longrightarrow> mt = Auto \<and>
        (\<exists>R w. find_uio_region F ''/sys/class/uio'' ''/dev'' a n = Some R
          \<and> p = ur_dev_node R \<and> i = ur_region_index R
          \<and> preflight_check_device F (ur_device_name R) (ur_device_path R)
              ''/sys/class/fpga_manager'' [] = Inr w))"
proof (intro conjI impI allI)
  show "tg_mapper t \<noteq> Auto"
    using assms(1) by (rule resolve_not_Auto)
next
  assume dm: "tg_mapper t = DevMem"
  have r: "resolve_devmem F a n True = Inr t
      \<and> (mt = Auto \<longrightarrow> find_uio_region F ''/sys/class/uio'' ''/dev'' a n = None)"
    using assms dm
    by (auto simp: resolve_def Let_def rbind_Inr_iff split: mapper_type.splits option.splits)
  then show "mt = Auto \<Longrightarrow> find_uio_region F ''/sys/class/uio'' ''/dev'' a n = None"
    by blast
  from r resolve_devmem_sound show "\<not> overlaps_ram F a n"
    and "check_iomem F a n = Inr True
      \<or> (\<exists>nm p w. find_owning_device F ''/sys/bus/platform/devices'' a n = Some (nm, p)
          \<and> preflight_check_device F nm p ''/sys/class/fpga_manager'' [] = Inr w \<and> tg_owner t = Some p)"
    by blast+
next
  fix p i
  assume uio: "tg_mapper t = Uio p i"
  have nd: "\<not> resolve_devmem F a n True = Inr t"
    using uio resolve_devmem_sound [of F a n t] by auto
  then show "mt = Auto"
    using assms by (auto simp: resolve_def)
  show "\<exists>R w. find_uio_region F ''/sys/class/uio'' ''/dev'' a n = Some R
      \<and> p = ur_dev_node R \<and> i = ur_region_index R
      \<and> preflight_check_device F (ur_device_name R) (ur_device_path R) ''/sys/class/fpga_manager'' [] = Inr w"
    using assms uio nd
    by (auto simp: resolve_def Let_def rbind_Inr_iff split: mapper_type.splits option.splits)
qed

text \<open>A file system with one device in \<open>/proc/iomem\<close>.\<close>

definition iomem_fs :: fs where
  "iomem_fs = \<lparr>fs_file = [''/proc/iomem'' \<mapsto> ''a0000000-a0000fff : a0000000.gpio''],
     fs_dir = Map.empty, fs_canon = Map.empty, fs_exists = (\<lambda>_. False), fs_wr_err = Map.empty\<rparr>"

theorem resolve_devmem_target_witness:
  "\<not> overlaps_ram iomem_fs 0xA0000000 16"
proof -
  have lines: "read_lines ''a0000000-a0000fff : a0000000.gpio'' = [''a0000000-a0000fff : a0000000.gpio'']"
    by code_simp
  have entry: "iomem_entry ''a0000000-a0000fff : a0000000.gpio''
      = Some \<lparr>il_start = 0xA0000000, il_end = 0xA0000FFF, il_resource = ''a0000000.gpio''\<rparr>"
    by (simp add: iomem_entry_def starts_with_def str_trim_graph is_graph_def byte_def
        u64_from_str_radix_def from_str_radix_def to_digit_def Let_def)
  have free: "\<not> is_restricted ''a0000000.gpio''"
    by code_simp
  have indent: "iomem_indent ''a0000000-a0000fff : a0000000.gpio'' = 0"
    by code_simp
  have c: "check_iomem iomem_fs 0xA0000000 16 = Inr True"
    by (simp add: check_iomem_def iomem_fs_def parse_iomem_def checked_add_def max_def lines entry
        free indent Let_def)
  have "resolve iomem_fs 0xA0000000 16 DevMem True
      = Inr \<lparr>tg_mapper = DevMem, tg_owner = None, tg_warnings = []\<rparr>"
    using c by (simp add: resolve_def resolve_devmem_def find_owning_device_def iomem_fs_def Let_def)
  from resolve_devmem_target [OF this] show ?thesis
    by simp
qed

end
