(* ===== verification/Lock.thy ===== *)
theory Lock
  imports Mmio
begin

text \<open>
  \<open>src/lock.rs\<close>: the reentrant locks of one process over \<open>flock\<close>, the registry that keeps one of
  them per file, and the guards. An \<open>Arc<SharedLock>\<close> is an index into the list of the locks ever
  created (\<open>None\<close> once its last reference is gone); the reference counts, which decide when a file
  is closed and when the registry forgets it, are part of the state. The operations take the
  current thread; \<open>Blocks\<close> is a thread that waits for another thread or process.
\<close>

type_synonym thread = nat

section \<open>The state\<close>

record shared_lock =
  sl_file :: os_file
  sl_owner :: "thread option"
  sl_depth :: nat
  sl_refs :: nat           \<comment> \<open>strong count of the \<open>Arc\<close>\<close>

text \<open>
  \<open>lh_foreign\<close>: the files that another process holds. \<open>lh_flock_errs\<close>: the errors that \<open>flock\<close> on a
  file reports before it can succeed.
\<close>

record lock_heap =
  lh_locks :: "shared_lock option list"
  lh_registry :: "(file_key \<times> nat) list"
  lh_foreign :: "file_key set"
  lh_flock_errs :: "file_key \<Rightarrow> io_error list"

text \<open>
  The kernel's answers for lock files: an error of \<open>fstat\<close> and of \<open>dup\<close>, \<open>open\<close> for reading (and
  again, after a failed creation), \<open>open\<close> with creation, and \<open>is_dir\<close>.
\<close>

record lock_env =
  le_stat_err :: "os_file \<Rightarrow> io_error option"
  le_dup_err :: "os_file \<Rightarrow> io_error option"
  le_open :: "path \<Rightarrow> io_error + os_file"
  le_create :: "path \<Rightarrow> io_error + os_file"
  le_reopen :: "path \<Rightarrow> io_error + os_file"
  le_is_dir :: "path \<Rightarrow> bool"

definition get_lock :: "lock_heap \<Rightarrow> nat \<Rightarrow> shared_lock option" where
  "get_lock st a = (if a < length (lh_locks st) then lh_locks st ! a else None)"

definition set_lock :: "nat \<Rightarrow> shared_lock option \<Rightarrow> lock_heap \<Rightarrow> lock_heap" where
  "set_lock a l st = st\<lparr>lh_locks := (lh_locks st)[a := l]\<rparr>"

definition lock_key :: "shared_lock \<Rightarrow> file_key" where
  "lock_key l = fl_key (sl_file l)"

definition shared_lock_new :: "os_file \<Rightarrow> shared_lock" where
  "shared_lock_new f = \<lparr>sl_file = f, sl_owner = None, sl_depth = 0, sl_refs = 1\<rparr>"

section \<open>\<open>SharedLock\<close>\<close>

text \<open>
  An exclusive \<open>flock\<close> waits while another process, or another open file of this process, holds
  the file.
\<close>

definition holds_key :: "file_key \<Rightarrow> shared_lock option \<Rightarrow> bool" where
  "holds_key k l = (case l of Some x \<Rightarrow> lock_key x = k \<and> sl_owner x \<noteq> None | None \<Rightarrow> False)"

definition contended :: "lock_heap \<Rightarrow> file_key \<Rightarrow> bool" where
  "contended st k \<longleftrightarrow> k \<in> lh_foreign st \<or> list_ex (holds_key k) (lh_locks st)"

definition flock_answers :: "lock_heap \<Rightarrow> file_key \<Rightarrow> io_error option list" where
  "flock_answers st k = map Some (lh_flock_errs st k) @ (if contended st k then [] else [None])"

datatype held = HNone | HOne nat | HMany "nat list"

definition acquire :: "thread \<Rightarrow> nat \<Rightarrow> (mmreg_error, lock_heap, held) prog" where
  "acquire me a st = (case get_lock st a of
       None \<Rightarrow> Panics
     | Some l \<Rightarrow>
         if sl_owner l = Some me then
           Done (Inr (HOne a),
             set_lock a (Some (l\<lparr>sl_depth := sl_depth l + 1, sl_refs := sl_refs l + 1\<rparr>)) st)
         else if sl_owner l \<noteq> None then Blocks
         else case lock_exclusive (flock_answers st (lock_key l)) of
             None \<Rightarrow> Blocks
           | Some (Inl e) \<Rightarrow> Done (Inl (LockAcquire (ie_text e)), st)
           | Some (Inr _) \<Rightarrow>
               Done (Inr (HOne a), set_lock a (Some (l\<lparr>sl_owner := Some me, sl_depth := 1,
                 sl_refs := sl_refs l + 1\<rparr>)) st))"

text \<open>\<open>release\<close>: the subtraction panics on 0.\<close>

definition release :: "nat \<Rightarrow> lock_heap \<Rightarrow> lock_heap run" where
  "release a st = (case get_lock st a of
       None \<Rightarrow> Panics
     | Some l \<Rightarrow>
         if sl_depth l = 0 then Panics
         else if sl_depth l - 1 = 0
         then Done (set_lock a (Some (l\<lparr>sl_owner := None, sl_depth := 0\<rparr>)) st)
         else Done (set_lock a (Some (l\<lparr>sl_depth := sl_depth l - 1\<rparr>)) st))"

definition is_owned_by :: "lock_heap \<Rightarrow> nat \<Rightarrow> thread \<Rightarrow> bool" where
  "is_owned_by st a t = (case get_lock st a of
       None \<Rightarrow> False | Some l \<Rightarrow> sl_owner l = Some t \<and> sl_depth l > 0)"

text \<open>Dropping an \<open>Arc\<close>: with the last reference the lock and its file are gone.\<close>

definition arc_drop :: "nat \<Rightarrow> lock_heap \<Rightarrow> lock_heap" where
  "arc_drop a st = (case get_lock st a of
       None \<Rightarrow> st
     | Some l \<Rightarrow> if sl_refs l \<le> 1 then set_lock a None st
         else set_lock a (Some (l\<lparr>sl_refs := sl_refs l - 1\<rparr>)) st)"

definition arc_clone :: "nat \<Rightarrow> lock_heap \<Rightarrow> lock_heap" where
  "arc_clone a st = (case get_lock st a of
       None \<Rightarrow> st
     | Some l \<Rightarrow> set_lock a (Some (l\<lparr>sl_refs := sl_refs l + 1\<rparr>)) st)"

section \<open>The registry\<close>

definition lock_open_error :: "path \<Rightarrow> io_error \<Rightarrow> mmreg_error" where
  "lock_open_error p e = LockOpen p (ie_text e)"

definition registry_retain :: "lock_heap \<Rightarrow> lock_heap" where
  "registry_retain st =
     st\<lparr>lh_registry := filter (\<lambda>(_, a). get_lock st a \<noteq> None) (lh_registry st)\<rparr>"

definition registry_push :: "file_key \<Rightarrow> os_file \<Rightarrow> lock_heap \<Rightarrow> lock_heap" where
  "registry_push k f st =
     st\<lparr>lh_locks := lh_locks st @ [Some (shared_lock_new f)],
        lh_registry := lh_registry st @ [(k, length (lh_locks st))]\<rparr>"

definition insert_or_get_shared_lock ::
  "file_key \<Rightarrow> io_error + os_file \<Rightarrow> (io_error, lock_heap, nat) prog"
where
  "insert_or_get_shared_lock k make_file st =
     (let st1 = registry_retain st in
      case find (\<lambda>(k', _). k' = k) (lh_registry st1) of
        Some (_, a) \<Rightarrow> Done (Inr a, arc_clone a st1)
      | None \<Rightarrow>
          (case make_file of
             Inl e \<Rightarrow> Done (Inl e, st1)
           | Inr f \<Rightarrow> Done (Inr (length (lh_locks st1)), registry_push k f st1)))"

section \<open>\<open>DeviceLock\<close>\<close>

definition file_key_of :: "lock_env \<Rightarrow> os_file \<Rightarrow> io_error + file_key" where
  "file_key_of E f = (case le_stat_err E f of Some e \<Rightarrow> Inl e | None \<Rightarrow> Inr (fl_key f))"

definition registered ::
  "file_key \<Rightarrow> path \<Rightarrow> io_error + os_file \<Rightarrow> (mmreg_error, lock_heap, nat) prog"
where
  "registered k p make_file st = (case insert_or_get_shared_lock k make_file st of
       Done (Inl e, st') \<Rightarrow> Done (Inl (lock_open_error p e), st')
     | Done (Inr a, st') \<Rightarrow> Done (Inr a, st')
     | Blocks \<Rightarrow> Blocks
     | Panics \<Rightarrow> Panics)"

definition try_clone :: "lock_env \<Rightarrow> os_file \<Rightarrow> io_error + os_file" where
  "try_clone E f = (case le_dup_err E f of Some e \<Rightarrow> Inl e | None \<Rightarrow> Inr f)"

definition from_open_file :: "lock_env \<Rightarrow> os_file \<Rightarrow> path \<Rightarrow> (mmreg_error, lock_heap, nat) prog" where
  "from_open_file E f p st = (case file_key_of E f of
       Inl e \<Rightarrow> Done (Inl (lock_open_error p e), st)
     | Inr k \<Rightarrow> registered k p (try_clone E f) st)"

definition from_file :: "lock_env \<Rightarrow> os_file \<Rightarrow> path \<Rightarrow> (mmreg_error, lock_heap, nat) prog" where
  "from_file E f p st = (case file_key_of E f of
       Inl e \<Rightarrow> Done (Inl (lock_open_error p e), st)
     | Inr k \<Rightarrow> registered k p (Inr f) st)"

definition device_lock_open :: "lock_env \<Rightarrow> path \<Rightarrow> (mmreg_error, lock_heap, nat) prog" where
  "device_lock_open E p st = (case le_open E p of
       Inl e \<Rightarrow> Done (Inl (lock_open_error p e), st)
     | Inr f \<Rightarrow> from_file E f p st)"

definition open_lock_file :: "lock_env \<Rightarrow> path \<Rightarrow> io_error + os_file" where
  "open_lock_file E p = (case le_open E p of
       Inl e \<Rightarrow>
         if ie_kind e = NotFound
         then (case le_create E p of Inr f \<Rightarrow> Inr f | Inl _ \<Rightarrow> le_reopen E p)
         else Inl e
     | Inr f \<Rightarrow> Inr f)"

definition lock_dir :: "lock_env \<Rightarrow> path" where
  "lock_dir E = (if le_is_dir E ''/run/lock'' then ''/run/lock/mmreg'' else ''/tmp/mmreg-lock'')"

definition page_lock_name :: "u64 \<Rightarrow> u64 \<Rightarrow> string" where
  "page_lock_name page address =
     (let base = page_base page address in
      fmt_hex_lower0 16 (unat base) @ ''-'' @ fmt_hex_lower0 16 (unat (base + page)) @ ''.lock'')"

definition open_page_in ::
  "lock_env \<Rightarrow> u64 \<Rightarrow> path \<Rightarrow> u64 \<Rightarrow> (mmreg_error, lock_heap, nat) prog"
where
  "open_page_in E page dir address st =
     (let p = path_join dir (page_lock_name page address) in
      case open_lock_file E p of
        Inl e \<Rightarrow> Done (Inl (lock_open_error p e), st)
      | Inr f \<Rightarrow> from_file E f p st)"

definition open_page :: "lock_env \<Rightarrow> u64 \<Rightarrow> u64 \<Rightarrow> (mmreg_error, lock_heap, nat) prog" where
  "open_page E page address = open_page_in E page (lock_dir E) address"

section \<open>Guards\<close>

definition held_list :: "held \<Rightarrow> nat list" where
  "held_list h = (case h of HNone \<Rightarrow> [] | HOne a \<Rightarrow> [a] | HMany as \<Rightarrow> as)"

fun release_each :: "nat list \<Rightarrow> lock_heap \<Rightarrow> lock_heap run" where
  "release_each [] st = Done st"
| "release_each (a # as) st = (case release a st of
       Done st' \<Rightarrow> release_each as st' | Blocks \<Rightarrow> Blocks | Panics \<Rightarrow> Panics)"

definition release_all :: "held \<Rightarrow> lock_heap \<Rightarrow> lock_heap run" where
  "release_all h st = (case h of
       HNone \<Rightarrow> Done st
     | HOne a \<Rightarrow> release a st
     | HMany as \<Rightarrow> release_each (rev as) st)"

text \<open>\<open>Drop\<close> of a guard: the releases, then the \<open>Arc\<close>s it holds.\<close>

definition guard_drop :: "held \<Rightarrow> lock_heap \<Rightarrow> lock_heap run" where
  "guard_drop h st = (case release_all h st of
       Done st' \<Rightarrow> Done (fold arc_drop (held_list h) st')
     | Blocks \<Rightarrow> Blocks
     | Panics \<Rightarrow> Panics)"

text \<open>
  \<open>LockGuard::into_owned\<close>: the owned guard, and what is left for the \<open>Drop\<close> of the guard it came from.
\<close>

definition into_owned :: "held \<Rightarrow> held \<times> held" where
  "into_owned h = (h, HNone)"

text \<open>\<open>Drop\<close> of an \<open>OwnedLockGuard\<close>.\<close>

definition owned_guard_drop :: "held \<Rightarrow> lock_heap \<Rightarrow> lock_heap run" where
  "owned_guard_drop h st = guard_drop h st"

definition is_owned_by_current_thread :: "thread \<Rightarrow> held \<Rightarrow> lock_heap \<Rightarrow> bool" where
  "is_owned_by_current_thread me h st = (case h of
       HNone \<Rightarrow> True
     | HOne a \<Rightarrow> is_owned_by st a me
     | HMany as \<Rightarrow> list_all (\<lambda>a. is_owned_by st a me) as)"

definition held_push :: "held \<Rightarrow> nat \<Rightarrow> held" where
  "held_push h a = (case h of
       HNone \<Rightarrow> HOne a
     | HOne b \<Rightarrow> HMany [b, a]
     | HMany as \<Rightarrow> HMany (as @ [a]))"

text \<open>
  The loop of \<open>lock_all\<close>: every \<open>DeviceLock\<close> of the iterator is dropped when its turn is over, and
  the rest with the iterator on an error, before the guard of those taken so far.
\<close>

fun lock_all_loop :: "thread \<Rightarrow> held \<Rightarrow> nat list \<Rightarrow> (mmreg_error, lock_heap, held) prog" where
  "lock_all_loop me h [] st = Done (Inr h, st)"
| "lock_all_loop me h (a # as) st = (case acquire me a st of
       Done (Inr _, st') \<Rightarrow> lock_all_loop me (held_push h a) as (arc_drop a st')
     | Done (Inl e, st') \<Rightarrow> (case guard_drop h (fold arc_drop (a # as) st') of
           Done st'' \<Rightarrow> Done (Inl e, st'')
         | Blocks \<Rightarrow> Blocks
         | Panics \<Rightarrow> Panics)
     | Blocks \<Rightarrow> Blocks
     | Panics \<Rightarrow> Panics)"

definition lock_all :: "thread \<Rightarrow> nat list \<Rightarrow> (mmreg_error, lock_heap, held) prog" where
  "lock_all me locks = lock_all_loop me HNone locks"

definition lock_page_in ::
  "lock_env \<Rightarrow> u64 \<Rightarrow> thread \<Rightarrow> path \<Rightarrow> u64 \<Rightarrow> (mmreg_error, lock_heap, held) prog"
where
  "lock_page_in E page me dir address st = (case open_page_in E page dir address st of
       Done (Inl e, st') \<Rightarrow> Done (Inl e, st')
     | Done (Inr a, st') \<Rightarrow> (case acquire me a st' of
           Done (r, st'') \<Rightarrow> Done (r, arc_drop a st'')
         | Blocks \<Rightarrow> Blocks
         | Panics \<Rightarrow> Panics)
     | Blocks \<Rightarrow> Blocks
     | Panics \<Rightarrow> Panics)"

text \<open>\<open>lock\<close>: the device's lock when there is one, the page lock otherwise.\<close>

definition lock_at_or_page ::
  "lock_env \<Rightarrow> u64 \<Rightarrow> thread \<Rightarrow> nat option \<Rightarrow> u64 \<Rightarrow> (mmreg_error, lock_heap, held) prog"
where
  "lock_at_or_page E page me device address = (case device of
       Some a \<Rightarrow> acquire me a
     | None \<Rightarrow> lock_page_in E page me (lock_dir E) address)"

section \<open>Reading the heap\<close>

lemma get_set_lock [simp]:
  "get_lock (set_lock a l st) b = (if b = a \<and> a < length (lh_locks st) then l else get_lock st b)"
  by (auto simp: get_lock_def set_lock_def)

lemma get_lock_SomeD: "get_lock st a = Some l \<Longrightarrow> a < length (lh_locks st)"
  by (simp add: get_lock_def split: if_splits)

lemma set_lock_set_lock [simp]: "set_lock a l (set_lock a m st) = set_lock a l st"
  by (simp add: set_lock_def)

lemma set_lock_same [simp]: "get_lock st a = Some l \<Longrightarrow> set_lock a (Some l) st = st"
  by (simp add: set_lock_def get_lock_def list_update_same_conv split: if_splits)

lemma set_lock_commute: "a \<noteq> b \<Longrightarrow> set_lock a l (set_lock b m st) = set_lock b m (set_lock a l st)"
  by (simp add: set_lock_def list_update_swap)

lemma set_lock_simps [simp]:
  "lh_registry (set_lock a l st) = lh_registry st"
  "lh_foreign (set_lock a l st) = lh_foreign st"
  "lh_flock_errs (set_lock a l st) = lh_flock_errs st"
  "length (lh_locks (set_lock a l st)) = length (lh_locks st)"
  by (simp_all add: set_lock_def)

lemma get_lock_retain [simp]: "get_lock (registry_retain st) = get_lock st"
  by (simp add: registry_retain_def get_lock_def fun_eq_iff)

lemma get_lock_push:
  "get_lock (registry_push k f st) b =
     (if b = length (lh_locks st) then Some (shared_lock_new f) else get_lock st b)"
  by (auto simp: registry_push_def get_lock_def nth_append)

section \<open>Reference counts\<close>

text \<open>
  \<open>lock_ok hs st\<close>: every live lock is owned exactly when its depth is positive, and its references
  cover its guards and the outstanding handles \<open>hs\<close>; a lock with a handle is live.
\<close>

definition lock_ok :: "nat list \<Rightarrow> lock_heap \<Rightarrow> bool" where
  "lock_ok hs st \<longleftrightarrow> (\<forall>a. case get_lock st a of
       None \<Rightarrow> a \<notin> set hs
     | Some l \<Rightarrow> (sl_owner l = None \<longleftrightarrow> sl_depth l = 0)
         \<and> sl_depth l + count_list hs a \<le> sl_refs l \<and> 1 \<le> sl_refs l)"

lemma lock_okD:
  assumes "lock_ok hs st" "get_lock st a = Some l"
  shows "sl_owner l = None \<longleftrightarrow> sl_depth l = 0" "sl_depth l + count_list hs a \<le> sl_refs l" "1 \<le> sl_refs l"
  using assms by (auto simp: lock_ok_def split: option.splits)

lemma lock_ok_live: "lock_ok hs st \<Longrightarrow> a \<in> set hs \<Longrightarrow> \<exists>l. get_lock st a = Some l"
  by (fastforce simp: lock_ok_def split: option.splits)

lemma lock_ok_set:
  assumes "lock_ok hs st" "a < length (lh_locks st)"
    and "sl_owner l = None \<longleftrightarrow> sl_depth l = 0" "sl_depth l + count_list hs a \<le> sl_refs l" "1 \<le> sl_refs l"
  shows "lock_ok hs (set_lock a (Some l) st)"
  using assms by (auto simp: lock_ok_def)

text \<open>The two outcomes of a successful \<open>acquire\<close> are one: the depth and the references grow by one.\<close>

lemma acquire_Inr:
  assumes "acquire me a st = Done (Inr h, st')" "lock_ok hs st"
  obtains l where "h = HOne a" "get_lock st a = Some l" "sl_owner l = None \<or> sl_owner l = Some me"
    "sl_owner l = None \<longrightarrow> \<not> contended st (lock_key l)"
    "st' = set_lock a (Some (l\<lparr>sl_owner := Some me, sl_depth := sl_depth l + 1,
       sl_refs := sl_refs l + 1\<rparr>)) st"
proof -
  have flock: "lock_exclusive (map Some es @ (if c then [] else [None])) = Some (Inr u) \<Longrightarrow> \<not> c"
    for es c u
    by (induction es) (auto split: if_splits)
  from assms(1) obtain l where l: "get_lock st a = Some l"
    by (auto simp: acquire_def split: option.splits)
  show ?thesis
  proof (cases "sl_owner l = Some me")
    case True
    then have upd: "l\<lparr>sl_owner := Some me\<rparr> = l"
      by (cases l) simp
    show ?thesis
      using assms(1) l True by (intro that [of l]) (simp_all add: acquire_def upd)
  next
    case False
    then have none: "sl_owner l = None"
      using assms(1) l by (auto simp: acquire_def split: if_splits)
    then have "sl_depth l = 0"
      using lock_okD(1) [OF assms(2) l] by simp
    with none show ?thesis
      using assms(1) l
      by (intro that [of l]) (auto simp: acquire_def flock_answers_def dest: flock
          split: option.splits sum.splits)
  qed
qed

lemma acquire_Inl: "acquire me a st = Done (Inl e, st') \<Longrightarrow> st' = st"
  by (auto simp: acquire_def split: option.splits if_splits sum.splits)

lemma acquire_no_panic: "get_lock st a = Some l \<Longrightarrow> acquire me a st \<noteq> Panics"
  by (auto simp: acquire_def split: option.split sum.split)

lemma acquire_cases:
  assumes "get_lock st a = Some l"
  obtains (err) e where "acquire me a st = Done (Inl e, st)"
    | (ok) g st1 where "acquire me a st = Done (Inr g, st1)"
    | (wait) "acquire me a st = Blocks"
proof (cases "acquire me a st")
  case (Done r)
  then obtain x st1 where r: "acquire me a st = Done (x, st1)"
    by (cases r) auto
  show ?thesis
  proof (cases x)
    case (Inl e)
    with r have "acquire me a st = Done (Inl e, st1)" by simp
    with acquire_Inl [OF this] show ?thesis by (auto intro: err)
  next
    case (Inr g)
    with r show ?thesis by (auto intro: ok)
  qed
next
  case Panics
  with acquire_no_panic [OF assms] show ?thesis by blast
qed (rule wait)

lemma acquire_ok:
  assumes "acquire me a st = Done (Inr h, st')" "lock_ok hs st"
  shows "lock_ok hs st'"
proof -
  from assms obtain l where l: "get_lock st a = Some l"
    and st': "st' = set_lock a (Some (l\<lparr>sl_owner := Some me, sl_depth := sl_depth l + 1,
       sl_refs := sl_refs l + 1\<rparr>)) st"
    by (rule acquire_Inr)
  show ?thesis
    unfolding st' using lock_okD [OF assms(2) l] get_lock_SomeD [OF l]
    by (intro lock_ok_set [OF assms(2)]) auto
qed

lemma lock_ok_mono: "lock_ok (hs @ ks) st \<Longrightarrow> lock_ok hs st"
  unfolding lock_ok_def by (fastforce split: option.splits)

lemma arc_drop_ok:
  assumes "lock_ok (a # hs) st"
  shows "lock_ok hs (arc_drop a st)"
proof -
  obtain l where l: "get_lock st a = Some l"
    using lock_ok_live [OF assms, of a] by auto
  note b = lock_okD [OF assms l]
  have hs: "lock_ok hs st"
    using assms unfolding lock_ok_def by (fastforce split: option.splits if_splits)
  show ?thesis
  proof (cases "sl_refs l \<le> 1")
    case True
    then have "a \<notin> set hs"
      using b(2) by (simp add: count_list_0_iff [symmetric])
    then show ?thesis
      using hs True l get_lock_SomeD [OF l] by (auto simp: arc_drop_def lock_ok_def)
  next
    case False
    then show ?thesis
      using b l get_lock_SomeD [OF l] by (auto simp: arc_drop_def intro!: lock_ok_set [OF hs])
  qed
qed

lemma arc_drops_ok: "lock_ok (xs @ hs) st \<Longrightarrow> lock_ok hs (fold arc_drop xs st)"
  by (induction xs arbitrary: st) (auto dest: arc_drop_ok)

text \<open>Releasing the lock just taken, and dropping the guard, give the state before.\<close>

lemma release_acquire:
  assumes "acquire me a st = Done (Inr h, st')" "lock_ok hs st"
  shows "release a (arc_drop a st') = Done st" "guard_drop h st' = Done st"
proof -
  from assms obtain l where h: "h = HOne a" and l: "get_lock st a = Some l"
    and o: "sl_owner l = None \<or> sl_owner l = Some me"
    and st': "st' = set_lock a (Some (l\<lparr>sl_owner := Some me, sl_depth := sl_depth l + 1,
       sl_refs := sl_refs l + 1\<rparr>)) st"
    by (rule acquire_Inr)
  note b = lock_okD [OF assms(2) l] and len = get_lock_SomeD [OF l]
  have undo: "l\<lparr>sl_owner := None, sl_depth := 0, sl_refs := sl_refs l\<rparr> = l"
    if "sl_depth l = 0"
    using that b(1) by (cases l) simp
  have undo': "l\<lparr>sl_owner := Some me, sl_depth := sl_depth l, sl_refs := sl_refs l\<rparr> = l"
    if "sl_depth l \<noteq> 0"
    using that b(1) o by (cases l) auto
  show "release a (arc_drop a st') = Done st"
    using b(3) len l undo undo' by (simp add: st' arc_drop_def release_def)
  show "guard_drop h st' = Done st"
    using b(3) len l undo undo'
    by (simp add: st' h arc_drop_def release_def guard_drop_def release_all_def held_list_def)
qed

text \<open>Dropping a handle that leaves references behind commutes with dropping guards.\<close>

lemma release_Done:
  "release a st = Done st' \<longleftrightarrow> (\<exists>l. get_lock st a = Some l \<and> sl_depth l \<noteq> 0
     \<and> st' = set_lock a (Some (l\<lparr>sl_owner := (if sl_depth l = 1 then None else sl_owner l),
         sl_depth := sl_depth l - 1\<rparr>)) st)"
proof -
  have "l\<lparr>sl_owner := sl_owner l\<rparr> = l" for l :: shared_lock
    by (cases l) simp
  then show ?thesis
    by (auto simp: release_def split: option.splits)
qed

lemma arc_drop_set:
  "get_lock st b = Some l \<Longrightarrow> \<not> sl_refs l \<le> 1
    \<Longrightarrow> arc_drop b st = set_lock b (Some (l\<lparr>sl_refs := sl_refs l - 1\<rparr>)) st"
  by (simp add: arc_drop_def)

lemma release_arc_drop:
  assumes "lock_ok (b # hs) st" "release a st = Done st'"
  shows "release a (arc_drop b st) = Done (arc_drop b st')" "lock_ok (b # hs) st'"
proof -
  obtain l where l: "get_lock st a = Some l" "sl_depth l \<noteq> 0"
    and st': "st' = set_lock a (Some (l\<lparr>sl_owner := (if sl_depth l = 1 then None else sl_owner l),
         sl_depth := sl_depth l - 1\<rparr>)) st"
    using assms(2) by (auto simp: release_Done)
  note bd = lock_okD [OF assms(1) l(1)] and len = get_lock_SomeD [OF l(1)]
  show "lock_ok (b # hs) st'"
    unfolding st' using bd l len by (intro lock_ok_set [OF assms(1)]) auto
  show "release a (arc_drop b st) = Done (arc_drop b st')"
  proof (cases "a = b")
    case True
    have r: "\<not> sl_refs l \<le> 1"
      using bd(2) l(2) True by simp
    then have d: "arc_drop b st = set_lock b (Some (l\<lparr>sl_refs := sl_refs l - 1\<rparr>)) st"
      using l(1) True by (intro arc_drop_set) auto
    have d': "arc_drop b st' = set_lock b (Some (l\<lparr>sl_owner := (if sl_depth l = 1 then None else sl_owner l),
         sl_depth := sl_depth l - 1, sl_refs := sl_refs l - 1\<rparr>)) st"
      using r len True by (subst arc_drop_set [where l = "l\<lparr>sl_owner := (if sl_depth l = 1 then None else sl_owner l),
         sl_depth := sl_depth l - 1\<rparr>"]) (simp_all add: st')
    show ?thesis
      unfolding release_Done d d' using l len True by (cases l) auto
  next
    case False
    obtain m where m: "get_lock st b = Some m"
      using lock_ok_live [OF assms(1), of b] by auto
    then have d: "arc_drop b st = set_lock b (if sl_refs m \<le> 1 then None
        else Some (m\<lparr>sl_refs := sl_refs m - 1\<rparr>)) st"
      by (simp add: arc_drop_def)
    have "get_lock st' b = Some m"
      using m False by (simp add: st')
    then have d': "arc_drop b st' = set_lock b (if sl_refs m \<le> 1 then None
        else Some (m\<lparr>sl_refs := sl_refs m - 1\<rparr>)) st'"
      by (simp add: arc_drop_def)
    show ?thesis
      unfolding release_Done d d' using l len False by (auto simp: st' set_lock_commute)
  qed
qed

lemma release_each_arc_drop:
  "lock_ok (b # hs) st \<Longrightarrow> release_each xs st = Done st'
    \<Longrightarrow> release_each xs (arc_drop b st) = Done (arc_drop b st') \<and> lock_ok (b # hs) st'"
proof (induction xs arbitrary: st)
  case (Cons a xs)
  then obtain st1 where "release a st = Done st1" "release_each xs st1 = Done st'"
    by (auto split: run.splits)
  with Cons release_arc_drop [of b hs st a st1] show ?case
    by simp
qed simp

lemma release_all_each: "release_all h st = release_each (rev (held_list h)) st"
  by (cases h) (auto simp: release_all_def held_list_def split: run.splits)

lemma into_owned_drops:
  "guard_drop (snd (into_owned h)) st = Done st"
  "owned_guard_drop (fst (into_owned h)) st = guard_drop h st"
  by (simp_all add: into_owned_def owned_guard_drop_def guard_drop_def release_all_def held_list_def)

lemma arc_drop_commute: "arc_drop a (arc_drop b st) = arc_drop b (arc_drop a st)"
proof (cases "a = b")
  case False
  then show ?thesis
    by (auto simp: arc_drop_def set_lock_commute split: option.splits)
qed simp

lemma fold_arc_drop_commute: "fold arc_drop xs (arc_drop b st) = arc_drop b (fold arc_drop xs st)"
proof (induction xs arbitrary: st)
  case (Cons a xs)
  then show ?case
    by (simp add: arc_drop_commute [of a b])
qed simp

lemma guard_drop_arc_drop:
  assumes "lock_ok (b # hs) st" "guard_drop h st = Done st'"
  shows "guard_drop h (arc_drop b st) = Done (arc_drop b st')"
proof -
  obtain u where u: "release_each (rev (held_list h)) st = Done u" "st' = fold arc_drop (held_list h) u"
    using assms(2) by (auto simp: guard_drop_def release_all_each split: run.splits)
  then show ?thesis
    using release_each_arc_drop [OF assms(1) u(1)]
    by (simp add: guard_drop_def release_all_each fold_arc_drop_commute)
qed

lemma guard_drop_arc_drops:
  "lock_ok (xs @ hs) st \<Longrightarrow> guard_drop h st = Done st'
    \<Longrightarrow> guard_drop h (fold arc_drop xs st) = Done (fold arc_drop xs st')"
proof (induction xs arbitrary: st st')
  case (Cons b xs)
  then have "guard_drop h (arc_drop b st) = Done (arc_drop b st')"
    by (intro guard_drop_arc_drop) auto
  moreover have "lock_ok (xs @ hs) (arc_drop b st)"
    using Cons.prems(1) by (auto intro: arc_drop_ok)
  ultimately show ?case
    using Cons.IH by simp
qed simp

lemma held_list_push [simp]: "held_list (held_push h a) = held_list h @ [a]"
  by (cases h) (auto simp: held_list_def held_push_def)

text \<open>One turn of \<open>lock_all\<close>: the new guard gives back exactly one more lock.\<close>

lemma guard_drop_push:
  assumes "acquire me a st = Done (Inr g, st1)" "lock_ok hs st" "guard_drop h st = Done st0"
  shows "guard_drop (held_push h a) (arc_drop a st1) = Done (arc_drop a st0)"
proof -
  obtain u where u: "release_each (rev (held_list h)) st = Done u" "st0 = fold arc_drop (held_list h) u"
    using assms(3) by (auto simp: guard_drop_def release_all_each split: run.splits)
  then show ?thesis
    using release_acquire(1) [OF assms(1,2)]
    by (simp add: guard_drop_def release_all_each fold_arc_drop_commute)
qed

lemma lock_all_loop_spec:
  assumes "lock_ok (xs @ hs) st" "guard_drop h st = Done st0"
  shows "case lock_all_loop me h xs st of
      Done (Inr g, st') \<Rightarrow> held_list g = held_list h @ xs
        \<and> guard_drop g st' = Done (fold arc_drop xs st0) \<and> lock_ok hs st'
    | Done (Inl e, st') \<Rightarrow> st' = fold arc_drop xs st0
    | Blocks \<Rightarrow> True
    | Panics \<Rightarrow> False"
  using assms
proof (induction xs arbitrary: h st st0)
  case (Cons a xs)
  obtain l where l: "get_lock st a = Some l"
    using lock_ok_live [OF Cons.prems(1), of a] by auto
  show ?case
    using l
  proof (cases rule: acquire_cases [where me = me])
    case (err e)
    have "guard_drop h (fold arc_drop (a # xs) st) = Done (fold arc_drop (a # xs) st0)"
      using Cons.prems by (intro guard_drop_arc_drops)
    then show ?thesis
      by (simp add: err)
  next
    case (ok g st1)
    have "lock_ok (a # xs @ hs) st1"
      using acquire_ok [OF ok] Cons.prems(1) by simp
    then have "lock_ok (xs @ hs) (arc_drop a st1)"
      by (rule arc_drop_ok)
    moreover have "guard_drop (held_push h a) (arc_drop a st1) = Done (arc_drop a st0)"
      using ok Cons.prems by (rule guard_drop_push)
    ultimately show ?thesis
      using Cons.IH [of "arc_drop a st1" "held_push h a" "arc_drop a st0"]
      by (simp add: ok cong: run.case_cong prod.case_cong sum.case_cong)
  qed simp
qed (simp)

text \<open>
  C6: \<open>lock_all\<close> is all or nothing. When it returns a guard, the guard holds every lock in the order
  given, and dropping it restores the state that held before (up to the handles it consumed); when a
  lock fails, the ones already taken are released, their files stay as they were, and it never
  panics. The handles passed in must be live, as \<open>DeviceLock\<close>s are.
\<close>

theorem lock_all_atomic:
  assumes "lock_ok (xs @ hs) st"
  shows "case lock_all me xs st of
      Done (Inr g, st') \<Rightarrow> held_list g = xs \<and> guard_drop g st' = Done (fold arc_drop xs st)
    | Done (Inl e, st') \<Rightarrow> st' = fold arc_drop xs st
    | Blocks \<Rightarrow> True
    | Panics \<Rightarrow> False"
proof -
  have "guard_drop HNone st = Done st"
    by (simp add: guard_drop_def release_all_def held_list_def)
  note spec = lock_all_loop_spec [OF assms this, of me]
  have nil: "held_list HNone = []"
    by (simp add: held_list_def)
  show ?thesis
  proof (cases "lock_all_loop me HNone xs st")
    case (Done r)
    then obtain x st' where "lock_all_loop me HNone xs st = Done (x, st')"
      by (cases r) auto
    with spec show ?thesis
      by (cases x) (simp_all add: lock_all_def nil)
  qed (use spec in \<open>simp_all add: lock_all_def\<close>)
qed

definition two_locks :: lock_heap where
  "two_locks = \<lparr>lh_locks = [Some \<lparr>sl_file = \<lparr>fl_path = ''a'', fl_key = (1, 1)\<rparr>, sl_owner = None,
        sl_depth = 0, sl_refs = 1\<rparr>,
      Some \<lparr>sl_file = \<lparr>fl_path = ''b'', fl_key = (1, 2)\<rparr>, sl_owner = None, sl_depth = 0, sl_refs = 1\<rparr>],
     lh_registry = [((1, 1), 0), ((1, 2), 1)], lh_foreign = {}, lh_flock_errs = (\<lambda>_. [])\<rparr>"

lemma two_locks_get:
  "get_lock two_locks a = (if a = 0 then Some \<lparr>sl_file = \<lparr>fl_path = ''a'', fl_key = (1, 1)\<rparr>,
      sl_owner = None, sl_depth = 0, sl_refs = 1\<rparr>
    else if a = 1 then Some \<lparr>sl_file = \<lparr>fl_path = ''b'', fl_key = (1, 2)\<rparr>, sl_owner = None,
      sl_depth = 0, sl_refs = 1\<rparr> else None)"
  by (auto simp: get_lock_def two_locks_def nth_Cons split: nat.split)

lemma two_locks_ok: "lock_ok ([0, 1] @ []) two_locks"
  by (auto simp: lock_ok_def two_locks_get split: option.splits)

theorem lock_all_atomic_witness:
  "case lock_all 7 [0, 1] two_locks of
      Done (Inr g, st') \<Rightarrow> held_list g = [0, 1] \<and> guard_drop g st' = Done (fold arc_drop [0, 1] two_locks)
    | Done (Inl e, st') \<Rightarrow> st' = fold arc_drop [0, 1] two_locks
    | Blocks \<Rightarrow> True
    | Panics \<Rightarrow> False"
  by (rule lock_all_atomic [OF two_locks_ok])

section \<open>One lock per file\<close>

text \<open>
  The registry's invariant: live locks have different files, each live lock is registered under its
  file, and no entry points to a lock of another file or beyond the heap.
\<close>

definition reg_ok :: "lock_heap \<Rightarrow> bool" where
  "reg_ok st \<longleftrightarrow>
     (\<forall>a b l m. get_lock st a = Some l \<longrightarrow> get_lock st b = Some m \<longrightarrow> lock_key l = lock_key m \<longrightarrow> a = b)
     \<and> (\<forall>a l. get_lock st a = Some l \<longrightarrow> (lock_key l, a) \<in> set (lh_registry st))
     \<and> (\<forall>(k, a)\<in>set (lh_registry st). a < length (lh_locks st)
          \<and> (\<forall>l. get_lock st a = Some l \<longrightarrow> lock_key l = k))"

lemma reg_ok_unique:
  "reg_ok st \<Longrightarrow> get_lock st a = Some l \<Longrightarrow> get_lock st b = Some m \<Longrightarrow> lock_key l = lock_key m \<Longrightarrow> a = b"
  unfolding reg_ok_def by blast

lemma reg_ok_set:
  assumes "reg_ok st" "get_lock st a = Some l" "x = None \<or> (\<exists>m. x = Some m \<and> lock_key m = lock_key l)"
  shows "reg_ok (set_lock a x st)"
  using assms unfolding reg_ok_def by (auto split: if_splits)

lemma reg_ok_retain: "reg_ok st \<Longrightarrow> reg_ok (registry_retain st)"
  unfolding reg_ok_def by (auto simp: registry_retain_def get_lock_def)

lemma reg_ok_push:
  assumes "reg_ok st" "fl_key f = k" "\<forall>a l. get_lock st a = Some l \<longrightarrow> lock_key l \<noteq> k"
  shows "reg_ok (registry_push k f st)"
proof -
  have key: "lock_key (shared_lock_new f) = k"
    using assms(2) by (simp add: lock_key_def shared_lock_new_def)
  have len: "length (lh_locks (registry_push k f st)) = Suc (length (lh_locks st))"
    and reg: "lh_registry (registry_push k f st) = lh_registry st @ [(k, length (lh_locks st))]"
    by (simp_all add: registry_push_def)
  show ?thesis
    using assms(1,3) unfolding reg_ok_def get_lock_push len reg
    by (auto simp: key less_Suc_eq split: if_splits)
qed

lemma acquire_reg_ok:
  assumes "acquire me a st = Done (r, st')" "lock_ok hs st" "reg_ok st"
  shows "reg_ok st'"
proof (cases r)
  case (Inl e)
  with assms acquire_Inl show ?thesis by blast
next
  case (Inr h)
  with assms(1) have "acquire me a st = Done (Inr h, st')" by simp
  from this assms(2) obtain l where "get_lock st a = Some l"
    "st' = set_lock a (Some (l\<lparr>sl_owner := Some me, sl_depth := sl_depth l + 1,
       sl_refs := sl_refs l + 1\<rparr>)) st"
    by (rule acquire_Inr)
  then show ?thesis
    using reg_ok_set [OF assms(3)] by (simp add: lock_key_def)
qed

lemma arc_drop_reg_ok: "reg_ok st \<Longrightarrow> reg_ok (arc_drop a st)"
  by (auto simp: arc_drop_def lock_key_def intro: reg_ok_set split: option.split)

lemma release_reg_ok:
  assumes "release a st = Done st'" "reg_ok st"
  shows "reg_ok st'"
proof -
  obtain l where "get_lock st a = Some l" "st' = set_lock a (Some (l\<lparr>sl_owner :=
      (if sl_depth l = 1 then None else sl_owner l), sl_depth := sl_depth l - 1\<rparr>)) st"
    using assms(1) by (auto simp: release_Done)
  then show ?thesis
    using reg_ok_set [OF assms(2)] by (simp add: lock_key_def)
qed

lemma lock_ok_retain: "lock_ok hs (registry_retain st) = lock_ok hs st"
  by (simp add: lock_ok_def)

lemma lock_ok_at:
  "lock_ok hs st \<Longrightarrow> (case get_lock st a of
       None \<Rightarrow> a \<notin> set hs
     | Some l \<Rightarrow> (sl_owner l = None \<longleftrightarrow> sl_depth l = 0)
         \<and> sl_depth l + count_list hs a \<le> sl_refs l \<and> 1 \<le> sl_refs l)"
  by (simp add: lock_ok_def)

lemma arc_clone_ok:
  assumes "lock_ok hs st" "get_lock st a = Some l"
  shows "lock_ok (a # hs) (arc_clone a st)"
proof -
  have eq: "arc_clone a st = set_lock a (Some (l\<lparr>sl_refs := sl_refs l + 1\<rparr>)) st"
    using assms(2) by (simp add: arc_clone_def)
  show ?thesis
    unfolding eq lock_ok_def
  proof
    fix b
    show "case get_lock (set_lock a (Some (l\<lparr>sl_refs := sl_refs l + 1\<rparr>)) st) b of
        None \<Rightarrow> b \<notin> set (a # hs)
      | Some l \<Rightarrow> (sl_owner l = None \<longleftrightarrow> sl_depth l = 0)
          \<and> sl_depth l + count_list (a # hs) b \<le> sl_refs l \<and> 1 \<le> sl_refs l"
      using lock_okD [OF assms] get_lock_SomeD [OF assms(2)] lock_ok_at [OF assms(1), of b]
      by (auto split: option.splits)
  qed
qed

lemma push_ok:
  assumes "lock_ok hs st"
  shows "lock_ok (length (lh_locks st) # hs) (registry_push k f st)"
proof -
  have "get_lock st (length (lh_locks st)) = None"
    by (simp add: get_lock_def)
  then have "length (lh_locks st) \<notin> set hs"
    using lock_ok_live [OF assms] by fastforce
  then have "case get_lock (registry_push k f st) b of
        None \<Rightarrow> b \<notin> set (length (lh_locks st) # hs)
      | Some l \<Rightarrow> (sl_owner l = None \<longleftrightarrow> sl_depth l = 0)
          \<and> sl_depth l + count_list (length (lh_locks st) # hs) b \<le> sl_refs l \<and> 1 \<le> sl_refs l" for b
    using lock_ok_at [OF assms, of b] unfolding get_lock_push
    by (auto simp: shared_lock_new_def count_list_0_iff split: option.splits)
  then show ?thesis
    by (simp only: lock_ok_def) blast
qed

lemma arc_clone_reg_ok: "reg_ok st \<Longrightarrow> reg_ok (arc_clone a st)"
  by (auto simp: arc_clone_def lock_key_def intro: reg_ok_set split: option.split)

lemma registry_absent:
  assumes "reg_ok st" "find (\<lambda>(k', _). k' = k) (lh_registry st) = None" "get_lock st b = Some m"
  shows "lock_key m \<noteq> k"
proof -
  have "(lock_key m, b) \<in> set (lh_registry st)"
    using assms(1,3) unfolding reg_ok_def by blast
  with assms(2) have "\<not> (case (lock_key m, b) of (k', _) \<Rightarrow> k' = k)"
    unfolding find_None_iff by blast
  then show ?thesis by simp
qed

lemma registry_lock:
  assumes "lock_ok hs st" "reg_ok st" "\<forall>f. make_file = Inr f \<longrightarrow> fl_key f = k"
    and "insert_or_get_shared_lock k make_file st = Done (r, st')"
  shows "reg_ok st' \<and> (case r of
      Inl e \<Rightarrow> make_file = Inl e \<and> lock_ok hs st'
        \<and> \<not> (\<exists>b m. get_lock st b = Some m \<and> lock_key m = k)
    | Inr a \<Rightarrow> lock_ok (a # hs) st' \<and> (\<exists>l. get_lock st' a = Some l \<and> lock_key l = k)
        \<and> (\<forall>b m. get_lock st b = Some m \<and> lock_key m = k \<longrightarrow> b = a))"
proof -
  define st1 where "st1 = registry_retain st"
  have ok1: "lock_ok hs st1" "reg_ok st1" and same: "get_lock st1 = get_lock st"
    using assms(1,2) by (simp_all add: st1_def lock_ok_retain reg_ok_retain)
  show ?thesis
  proof (cases "find (\<lambda>(k', _). k' = k) (lh_registry st1)")
    case None
    note absent = registry_absent [OF ok1(2) None]
    show ?thesis
    proof (cases make_file)
      case (Inl e)
      then show ?thesis
        using assms(4) None ok1 absent same
        by (auto simp: insert_or_get_shared_lock_def st1_def [symmetric])
    next
      case (Inr f)
      with assms(3) have key: "fl_key f = k" by blast
      have "reg_ok (registry_push k f st1)"
        using ok1(2) key absent by (intro reg_ok_push) auto
      moreover have "lock_ok (length (lh_locks st1) # hs) (registry_push k f st1)"
        using ok1(1) by (rule push_ok)
      ultimately show ?thesis
        using assms(4) None Inr absent same key
        by (auto simp: insert_or_get_shared_lock_def st1_def [symmetric] get_lock_push lock_key_def
            shared_lock_new_def)
    qed
  next
    case (Some e)
    then obtain a where e: "e = (k, a)" and mem: "(k, a) \<in> set (lh_registry st1)"
      by (auto simp: find_Some_iff in_set_conv_nth)
    then obtain l where l: "get_lock st1 a = Some l"
      unfolding same by (auto simp: st1_def registry_retain_def)
    have key: "lock_key l = k"
      using ok1(2) mem l by (auto simp: reg_ok_def)
    have "lock_key (l\<lparr>sl_refs := sl_refs l + 1\<rparr>) = k"
      using key by (simp add: lock_key_def)
    then show ?thesis
      using assms(4) Some e l key arc_clone_ok [OF ok1(1) l] arc_clone_reg_ok [OF ok1(2), of a]
        reg_ok_unique [OF assms(2)] same get_lock_SomeD [OF l]
      by (auto simp: insert_or_get_shared_lock_def st1_def [symmetric] arc_clone_def)
  qed
qed

lemma insert_or_get_inv:
  assumes "lock_ok hs st" "reg_ok st" "\<forall>f. make_file = Inr f \<longrightarrow> fl_key f = k"
    and "insert_or_get_shared_lock k make_file st = Done (r, st')"
  shows "reg_ok st'" "lock_ok (case r of Inl _ \<Rightarrow> hs | Inr a \<Rightarrow> a # hs) st'"
  using registry_lock [OF assms] by (auto split: sum.splits)

text \<open>
  C7: the registry hands out one lock per file. Whatever the state, the lock it returns is live and
  belongs to the file asked for; it is the one lock of that file when there already was one, and the
  file is opened (\<open>make_file\<close>) only when there was none. The invariant that no two live locks share
  a file is kept, so no second \<open>flock\<close> of this process can wait for the first.
\<close>

theorem registry_one_lock_per_file:
  assumes "lock_ok hs st" "reg_ok st" "\<forall>f. make_file = Inr f \<longrightarrow> fl_key f = k"
    and "insert_or_get_shared_lock k make_file st = Done (r, st')"
  shows "reg_ok st' \<and> (case r of
      Inl e \<Rightarrow> make_file = Inl e \<and> lock_ok hs st'
        \<and> \<not> (\<exists>b m. get_lock st b = Some m \<and> lock_key m = k)
    | Inr a \<Rightarrow> lock_ok (a # hs) st' \<and> (\<exists>l. get_lock st' a = Some l \<and> lock_key l = k)
        \<and> (\<forall>b m. get_lock st b = Some m \<and> lock_key m = k \<longrightarrow> b = a))"
  using assms by (rule registry_lock)

lemma two_locks_reg: "reg_ok two_locks"
  by (auto simp: reg_ok_def two_locks_get lock_key_def split: if_splits)
    (simp_all add: two_locks_def)

theorem registry_one_lock_per_file_witness:
  "reg_ok (arc_clone 1 two_locks)"
proof -
  have "insert_or_get_shared_lock (1, 2) (Inl (io_from_kind NotFound)) two_locks
      = Done (Inr 1, arc_clone 1 two_locks)"
    by (simp add: insert_or_get_shared_lock_def registry_retain_def two_locks_get)
      (simp add: two_locks_def)
  from registry_one_lock_per_file [OF two_locks_ok two_locks_reg _ this] show ?thesis
    by simp
qed

section \<open>The contract: one reentrant lock per file\<close>

text \<open>
  What the rest of the crate relies on, without handles and reference counts: which thread holds
  which file, and how many guards it has for it.
\<close>

type_synonym lock_spec = "file_key \<Rightarrow> (thread \<times> nat) option"

definition lock_view :: "lock_heap \<Rightarrow> lock_spec" where
  "lock_view st k = (case find (holds_key k) (lh_locks st) of
       Some (Some l) \<Rightarrow> Some (the (sl_owner l), sl_depth l)
     | _ \<Rightarrow> None)"

definition spec_take :: "thread \<Rightarrow> file_key \<Rightarrow> lock_spec \<Rightarrow> lock_spec" where
  "spec_take me k v = v(k \<mapsto> (me, case v k of None \<Rightarrow> 1 | Some (_, d) \<Rightarrow> d + 1))"

definition spec_give :: "file_key \<Rightarrow> lock_spec \<Rightarrow> lock_spec" where
  "spec_give k v = v(k := case v k of None \<Rightarrow> None
     | Some (t, d) \<Rightarrow> if d \<le> 1 then None else Some (t, d - 1))"

lemma mem_locks: "Some l \<in> set (lh_locks st) \<longleftrightarrow> (\<exists>a. get_lock st a = Some l)"
  by (auto simp: in_set_conv_nth get_lock_def)

lemma lock_view_None: "lock_view st k = None \<longleftrightarrow> (\<forall>a l. get_lock st a = Some l \<longrightarrow> lock_key l = k \<longrightarrow> sl_owner l = None)"
proof -
  have "lock_view st k = None \<longleftrightarrow> find (holds_key k) (lh_locks st) = None"
    by (auto simp: lock_view_def find_Some_iff holds_key_def split: option.splits)
  also have "\<dots> \<longleftrightarrow> (\<forall>x\<in>set (lh_locks st). \<not> holds_key k x)"
    by (auto simp: find_None_iff)
  also have "\<dots> \<longleftrightarrow> (\<forall>l. Some l \<in> set (lh_locks st) \<longrightarrow> lock_key l = k \<longrightarrow> sl_owner l = None)"
    by (auto simp: holds_key_def split: option.splits)
  finally show ?thesis
    by (auto simp: mem_locks)
qed

lemma lock_view_Some:
  assumes "reg_ok st" "get_lock st a = Some l" "sl_owner l = Some t"
  shows "lock_view st (lock_key l) = Some (t, sl_depth l)"
proof (cases "find (holds_key (lock_key l)) (lh_locks st)")
  case None
  moreover have "Some l \<in> set (lh_locks st)"
    using assms(2) by (auto simp: mem_locks)
  ultimately show ?thesis
    using assms(3) by (auto simp: find_None_iff holds_key_def)
next
  case (Some x)
  then have x: "x \<in> set (lh_locks st)" "holds_key (lock_key l) x"
    by (auto simp: find_Some_iff)
  from x(2) obtain m where m: "x = Some m" "lock_key m = lock_key l"
    by (auto simp: holds_key_def split: option.splits)
  with x(1) obtain b where b: "get_lock st b = Some m"
    by (auto simp: mem_locks)
  have "m = l"
    using reg_ok_unique [OF assms(1) b assms(2) m(2)] b assms(2) by simp
  with Some m assms(3) show ?thesis
    by (simp add: lock_view_def)
qed

text \<open>The view of a file depends only on its own lock.\<close>

lemma lock_view_eq:
  assumes "reg_ok st" "get_lock st a = Some l" "sl_owner l = None \<longleftrightarrow> sl_depth l = 0"
  shows "lock_view st (lock_key l) = map_option (\<lambda>t. (t, sl_depth l)) (sl_owner l)"
proof (cases "sl_owner l")
  case None
  then have "lock_view st (lock_key l) = None"
    using reg_ok_unique [OF assms(1) _ assms(2)] assms(2) by (fastforce simp: lock_view_None)
  with None show ?thesis by simp
qed (simp add: lock_view_Some [OF assms(1,2)])

lemma lock_view_set_other:
  assumes "reg_ok st" "get_lock st a = Some l" "k \<noteq> lock_key l" "lock_key m = lock_key l"
  shows "lock_view (set_lock a (Some m) st) k = lock_view st k"
proof (cases "lock_view st k")
  case None
  then have "lock_view (set_lock a (Some m) st) k = None"
    using assms by (auto simp: lock_view_None)
  with None show ?thesis by simp
next
  case (Some td)
  then obtain b n where b: "get_lock st b = Some n" "lock_key n = k" "sl_owner n \<noteq> None"
    by (metis lock_view_None option.distinct(1))
  then obtain t where t: "sl_owner n = Some t" by auto
  have "a \<noteq> b"
    using b assms by auto
  then have "get_lock (set_lock a (Some m) st) b = Some n"
    using b by simp
  moreover have "reg_ok (set_lock a (Some m) st)"
    using assms by (intro reg_ok_set) auto
  ultimately show ?thesis
    using lock_view_Some [of "set_lock a (Some m) st" b n t] lock_view_Some [OF assms(1) b(1) t] b(2) t
    by simp
qed

lemma lock_view_set:
  assumes "reg_ok st" "get_lock st a = Some l" "lock_key m = lock_key l"
    and "sl_owner m = None \<longleftrightarrow> sl_depth m = 0"
  shows "lock_view (set_lock a (Some m) st)
    = (lock_view st)(lock_key l := map_option (\<lambda>t. (t, sl_depth m)) (sl_owner m))"
proof
  fix k
  have ok: "reg_ok (set_lock a (Some m) st)"
    using assms by (intro reg_ok_set) auto
  have "get_lock (set_lock a (Some m) st) a = Some m"
    using get_lock_SomeD [OF assms(2)] by simp
  from lock_view_eq [OF ok this assms(4)] lock_view_set_other [OF assms(1,2) _ assms(3), of k]
  show "lock_view (set_lock a (Some m) st) k
      = ((lock_view st)(lock_key l := map_option (\<lambda>t. (t, sl_depth m)) (sl_owner m))) k"
    using assms(3) by auto
qed

text \<open>
  With the invariants, a file whose lock nobody in this process holds is contended only by other
  processes.
\<close>

lemma contended_iff:
  "contended st k \<longleftrightarrow> k \<in> lh_foreign st \<or> lock_view st k \<noteq> None"
proof -
  have "list_ex (holds_key k) (lh_locks st) \<longleftrightarrow> (\<exists>l. Some l \<in> set (lh_locks st) \<and> holds_key k (Some l))"
    by (auto simp: list_ex_iff holds_key_def split: option.splits)
  also have "\<dots> \<longleftrightarrow> lock_view st k \<noteq> None"
    by (auto simp: mem_locks lock_view_None holds_key_def)
  finally show ?thesis
    by (simp add: contended_def)
qed

lemma shared_lock_steps:
  assumes "lock_ok hs st" "reg_ok st" "get_lock st a = Some l" "lh_flock_errs st (lock_key l) = []"
  shows "(acquire me a st = Blocks) =
      (case lock_view st (lock_key l) of
         Some (t, _) \<Rightarrow> t \<noteq> me | None \<Rightarrow> lock_key l \<in> lh_foreign st)
    \<and> (acquire me a st \<noteq> Blocks \<longrightarrow> (\<exists>st'. acquire me a st = Done (Inr (HOne a), st')
        \<and> lock_view st' = spec_take me (lock_key l) (lock_view st)))
    \<and> (lock_view st (lock_key l) \<noteq> None \<longrightarrow> (\<exists>st'. release a st = Done st'
        \<and> lock_view st' = spec_give (lock_key l) (lock_view st)))"
proof -
  note own = lock_okD(1) [OF assms(1,3)]
  note view = lock_view_eq [OF assms(2,3) own]
  have acq: "acquire me a st = (if sl_owner l = Some me \<or> (sl_owner l = None \<and> \<not> contended st (lock_key l))
      then Done (Inr (HOne a), set_lock a (Some (l\<lparr>sl_owner := Some me, sl_depth := sl_depth l + 1,
         sl_refs := sl_refs l + 1\<rparr>)) st) else Blocks)"
  proof (cases "sl_owner l = Some me")
    case True
    then have upd: "l\<lparr>sl_owner := Some me\<rparr> = l"
      by (cases l) simp
    show ?thesis
      using True assms(3) by (simp add: acquire_def upd)
  next
    case False
    then show ?thesis
      using own assms(3,4) by (auto simp: acquire_def flock_answers_def)
  qed
  have taken: "lock_view (set_lock a (Some (l\<lparr>sl_owner := Some me, sl_depth := sl_depth l + 1,
         sl_refs := sl_refs l + 1\<rparr>)) st) = spec_take me (lock_key l) (lock_view st)"
    using own by (subst lock_view_set [OF assms(2,3)])
      (auto simp: lock_key_def spec_take_def view [unfolded lock_key_def] split: option.splits)
  have "(acquire me a st = Blocks) = (case lock_view st (lock_key l) of
         Some (t, _) \<Rightarrow> t \<noteq> me | None \<Rightarrow> lock_key l \<in> lh_foreign st)"
    unfolding acq contended_iff view by (cases "sl_owner l") auto
  moreover have "\<exists>st'. release a st = Done st' \<and> lock_view st' = spec_give (lock_key l) (lock_view st)"
    if "lock_view st (lock_key l) \<noteq> None"
  proof -
    from that obtain t where t: "sl_owner l = Some t"
      by (auto simp: view)
    then have d: "sl_depth l \<noteq> 0"
      using own by simp
    define m where "m = l\<lparr>sl_owner := (if sl_depth l = 1 then None else sl_owner l), sl_depth := sl_depth l - 1\<rparr>"
    have r: "release a st = Done (set_lock a (Some m) st)"
      using assms(3) d by (simp add: release_Done m_def)
    have "lock_view (set_lock a (Some m) st) = spec_give (lock_key l) (lock_view st)"
      using t d by (subst lock_view_set [OF assms(2,3)])
        (auto simp: m_def lock_key_def spec_give_def view [unfolded lock_key_def])
    with r show ?thesis by blast
  qed
  ultimately show ?thesis
    using taken by (auto simp: acq)
qed

text \<open>
  C5: \<open>SharedLock\<close> refines one reentrant lock per file. Taking a lock waits exactly while another
  thread holds the file or, when no thread of the process does, while another process does; else it
  counts one more guard for the calling thread and changes nothing for any other file. Releasing
  takes the last guard back, and the file is free exactly when no guard is left.
\<close>

theorem shared_lock_refines_spec:
  assumes "lock_ok hs st" "reg_ok st" "get_lock st a = Some l" "lh_flock_errs st (lock_key l) = []"
  shows "(acquire me a st = Blocks) =
      (case lock_view st (lock_key l) of
         Some (t, _) \<Rightarrow> t \<noteq> me | None \<Rightarrow> lock_key l \<in> lh_foreign st)
    \<and> (acquire me a st \<noteq> Blocks \<longrightarrow> (\<exists>st'. acquire me a st = Done (Inr (HOne a), st')
        \<and> lock_view st' = spec_take me (lock_key l) (lock_view st)))
    \<and> (lock_view st (lock_key l) \<noteq> None \<longrightarrow> (\<exists>st'. release a st = Done st'
        \<and> lock_view st' = spec_give (lock_key l) (lock_view st)))"
  by (rule shared_lock_steps [OF assms])

theorem shared_lock_refines_spec_witness:
  "\<exists>st'. acquire 7 1 two_locks = Done (Inr (HOne 1), st')
    \<and> lock_view st' = spec_take 7 (1, 2) (lock_view two_locks)"
proof -
  have l: "get_lock two_locks 1 = Some \<lparr>sl_file = \<lparr>fl_path = ''b'', fl_key = (1, 2)\<rparr>, sl_owner = None,
      sl_depth = 0, sl_refs = 1\<rparr>"
    by (simp add: two_locks_get)
  have e: "lh_flock_errs two_locks (1, 2) = []" "(1, 2) \<notin> lh_foreign two_locks"
    by (simp_all add: two_locks_def)
  have v: "lock_view two_locks (1, 2) = None"
    by (simp add: lock_view_def two_locks_def holds_key_def)
  show ?thesis
    using shared_lock_refines_spec [OF two_locks_ok two_locks_reg l, of 7] e v
    by (simp add: lock_key_def)
qed

section \<open>One lock file per page\<close>

definition hex_val :: "char \<Rightarrow> nat" where
  "hex_val c = (if byte c < 58 then byte c - 48 else byte c - 87)"

lemma hex_val_lower: "d < 16 \<Longrightarrow> hex_val (hex_lower d) = d"
  by (auto simp: hex_val_def hex_lower_def)

lemma hex_lower_not_dash: "d < 16 \<Longrightarrow> hex_lower d \<noteq> CHR ''-''"
proof
  assume "d < 16" "hex_lower d = CHR ''-''"
  then have "byte (hex_lower d) = byte (CHR ''-'')" by simp
  with \<open>d < 16\<close> show False
    by (auto simp: hex_lower_def byte_def split: if_splits)
qed

lemma foldl_zeros: "foldl (\<lambda>a d. a * b + d) 0 (replicate n 0 @ ds) = foldl (\<lambda>a d. a * b + d) (0::nat) ds"
  by (induction n) auto

lemma fmt_hex_lower0_digits:
  "\<exists>k. fmt_hex_lower0 w n = map hex_lower (replicate k 0 @ digits_of 16 n)"
proof -
  have "hex_lower 0 = CHR ''0''"
    by (simp add: hex_lower_def char_of_eq_iff)
  then show ?thesis
    unfolding fmt_hex_lower0_def pad0_def by (metis map_append map_replicate)
qed

lemma fmt_hex_lower0_inj: "fmt_hex_lower0 w n = fmt_hex_lower0 w m \<Longrightarrow> n = m"
proof -
  have val: "foldl (\<lambda>a d. a * 16 + d) 0 (map hex_val (fmt_hex_lower0 w n)) = n" for n
  proof -
    obtain k where k: "fmt_hex_lower0 w n = map hex_lower (replicate k 0 @ digits_of 16 n)"
      using fmt_hex_lower0_digits by blast
    have "map hex_val (map hex_lower (replicate k 0 @ digits_of 16 n)) = replicate k 0 @ digits_of 16 n"
      using digits_of_less [of 16 _ n] by (auto simp: map_idI hex_val_lower)
    then show ?thesis
      by (simp only: k foldl_zeros digits_of_value [of 16 n] numeral_le_iff semiring_norm)
  qed
  then show "fmt_hex_lower0 w n = fmt_hex_lower0 w m \<Longrightarrow> n = m"
    by metis
qed

lemma fmt_hex_lower0_no_dash: "CHR ''-'' \<notin> set (fmt_hex_lower0 w n)"
proof -
  obtain k where k: "fmt_hex_lower0 w n = map hex_lower (replicate k 0 @ digits_of 16 n)"
    using fmt_hex_lower0_digits by blast
  show ?thesis
    unfolding k using digits_of_less [of 16 _ n] hex_lower_not_dash [symmetric] by fastforce
qed

lemma takeWhile_dash:
  assumes "CHR ''-'' \<notin> set a"
  shows "takeWhile (\<lambda>c. c \<noteq> CHR ''-'') (a @ ''-'' @ b) = a"
proof -
  have "\<forall>c\<in>set a. c \<noteq> CHR ''-''"
    using assms by auto
  then show ?thesis
    by (subst takeWhile_append2) auto
qed

text \<open>
  C8: two addresses share a page lock file exactly when they lie in the same page: the file name
  written from the page's bounds determines the page. (The documented protocol for programs that
  share the page locks.)
\<close>

theorem page_lock_name_page:
  "(page_lock_name p a = page_lock_name p b) = (page_base p a = page_base p b)"
proof
  assume eq: "page_lock_name p a = page_lock_name p b"
  have first: "takeWhile (\<lambda>c. c \<noteq> CHR ''-'') (page_lock_name p x) = fmt_hex_lower0 16 (unat (page_base p x))"
    for x
    unfolding page_lock_name_def Let_def by (rule takeWhile_dash) (rule fmt_hex_lower0_no_dash)
  have "fmt_hex_lower0 16 (unat (page_base p a)) = fmt_hex_lower0 16 (unat (page_base p b))"
    using first [of a] first [of b] eq by simp
  then show "page_base p a = page_base p b"
    by (simp add: word_unat_eq_iff fmt_hex_lower0_inj)
qed (simp add: page_lock_name_def)

end
