(* ===== verification/LockProto.thy ===== *)
theory LockProto
  imports Lock
begin

text \<open>
  The locks of \<open>src/lock.rs\<close> under concurrency: threads of this process and other processes take and
  release them in any order, one operation per step. \<open>LockGuard\<close>s are dropped in reverse order of
  creation, as scopes do; a sequence (\<open>lock_all\<close> in \<open>Device::lock\<close>) asks for its locks in ascending
  rank (page address) while it holds none, and a thread inside a sequence asks again only for locks
  it holds (the register accesses of the sequence).
\<close>

section \<open>Steps\<close>

text \<open>\<open>pr_held t\<close>: the guards of thread \<open>t\<close>, oldest first; \<open>pr_todo t\<close>: the locks it still asks for.\<close>

record proto =
  pr_heap :: lock_heap
  pr_held :: "thread \<Rightarrow> nat list"
  pr_todo :: "thread \<Rightarrow> nat list"

definition foreign_take :: "file_key \<Rightarrow> lock_heap \<Rightarrow> lock_heap" where
  "foreign_take k st = st\<lparr>lh_foreign := insert k (lh_foreign st)\<rparr>"

definition foreign_give :: "file_key \<Rightarrow> lock_heap \<Rightarrow> lock_heap" where
  "foreign_give k st = st\<lparr>lh_foreign := lh_foreign st - {k}\<rparr>"

inductive pstep :: "nat list \<Rightarrow> (nat \<Rightarrow> nat) \<Rightarrow> proto \<Rightarrow> proto \<Rightarrow> bool"
  for hs :: "nat list" and rank :: "nat \<Rightarrow> nat" where
  sequence: "pr_held s t = [] \<Longrightarrow> pr_todo s t = [] \<Longrightarrow> set xs \<subseteq> set hs
      \<Longrightarrow> sorted_wrt (\<lambda>a b. rank a < rank b) xs
      \<Longrightarrow> pstep hs rank s (s\<lparr>pr_todo := (pr_todo s)(t := xs)\<rparr>)"
| nested: "pr_todo s t = [] \<Longrightarrow> a \<in> set (pr_held s t)
      \<Longrightarrow> pstep hs rank s (s\<lparr>pr_todo := (pr_todo s)(t := [a])\<rparr>)"
| take: "pr_todo s t = a # xs \<Longrightarrow> acquire t a (pr_heap s) = Done (Inr h, st')
      \<Longrightarrow> pstep hs rank s (s\<lparr>pr_heap := st', pr_held := (pr_held s)(t := pr_held s t @ [a]),
            pr_todo := (pr_todo s)(t := xs)\<rparr>)"
| give: "pr_todo s t = [] \<Longrightarrow> pr_held s t = xs @ [a] \<Longrightarrow> guard_drop (HOne a) (pr_heap s) = Done st'
      \<Longrightarrow> pstep hs rank s (s\<lparr>pr_heap := st', pr_held := (pr_held s)(t := xs)\<rparr>)"
| foreign_in: "\<not> contended (pr_heap s) k
      \<Longrightarrow> pstep hs rank s (s\<lparr>pr_heap := foreign_take k (pr_heap s)\<rparr>)"
| foreign_out: "pstep hs rank s (s\<lparr>pr_heap := foreign_give k (pr_heap s)\<rparr>)"

text \<open>Start: the handles \<open>hs\<close> exist, and no thread holds or asks for a lock.\<close>

definition proto_init :: "nat list \<Rightarrow> proto \<Rightarrow> bool" where
  "proto_init hs s \<longleftrightarrow> lock_ok hs (pr_heap s) \<and> reg_ok (pr_heap s)
     \<and> (\<forall>k. lock_view (pr_heap s) k = None) \<and> (\<forall>t. pr_held s t = [] \<and> pr_todo s t = [])"

definition proto_reachable :: "nat list \<Rightarrow> (nat \<Rightarrow> nat) \<Rightarrow> proto \<Rightarrow> bool" where
  "proto_reachable hs rank s \<longleftrightarrow> (\<exists>s0. proto_init hs s0 \<and> (pstep hs rank)\<^sup>*\<^sup>* s0 s)"

section \<open>The invariant\<close>

text \<open>
  The depth of a lock counts the guards of its owner, nobody else has one, and a lock held here is
  held by no other process. Threads ask for locks they hold or for locks above all they hold.
\<close>

definition guards_ok :: "proto \<Rightarrow> bool" where
  "guards_ok s \<longleftrightarrow> (\<forall>a l. get_lock (pr_heap s) a = Some l \<longrightarrow>
      (\<forall>t. count_list (pr_held s t) a = (if sl_owner l = Some t then sl_depth l else 0)))
    \<and> (\<forall>t. \<forall>a\<in>set (pr_held s t). get_lock (pr_heap s) a \<noteq> None)"

definition process_ok :: "proto \<Rightarrow> bool" where
  "process_ok s \<longleftrightarrow> (\<forall>a l. get_lock (pr_heap s) a = Some l \<longrightarrow> sl_owner l \<noteq> None
      \<longrightarrow> lock_key l \<notin> lh_foreign (pr_heap s))"

definition order_ok :: "nat list \<Rightarrow> (nat \<Rightarrow> nat) \<Rightarrow> proto \<Rightarrow> bool" where
  "order_ok hs rank s \<longleftrightarrow> (\<forall>t. set (pr_todo s t) \<subseteq> set hs \<and> set (pr_held s t) \<subseteq> set hs
     \<and> (pr_todo s t = [] \<or> (\<exists>a\<in>set (pr_held s t). pr_todo s t = [a])
       \<or> (sorted_wrt (\<lambda>a b. rank a < rank b) (pr_todo s t)
          \<and> (\<forall>a\<in>set (pr_todo s t). \<forall>b\<in>set (pr_held s t). rank b < rank a))))"

definition proto_inv :: "nat list \<Rightarrow> (nat \<Rightarrow> nat) \<Rightarrow> proto \<Rightarrow> bool" where
  "proto_inv hs rank s \<longleftrightarrow> lock_ok hs (pr_heap s) \<and> reg_ok (pr_heap s)
     \<and> guards_ok s \<and> process_ok s \<and> order_ok hs rank s"

lemma proto_inv_init:
  assumes "proto_init hs s"
  shows "proto_inv hs rank s"
proof -
  have "sl_owner l = None" if "get_lock (pr_heap s) a = Some l" for a l
  proof -
    have "lock_view (pr_heap s) (lock_key l) = None"
      using assms unfolding proto_init_def by blast
    with that show ?thesis
      by (simp add: lock_view_None)
  qed
  then show ?thesis
    using assms by (simp add: proto_init_def proto_inv_def guards_ok_def process_ok_def order_ok_def)
qed

lemma guard_drop_One:
  assumes "guard_drop (HOne a) st = Done st'"
  obtains l where "get_lock st a = Some l" "sl_depth l \<noteq> 0"
    "st' = arc_drop a (set_lock a (Some (l\<lparr>sl_owner := (if sl_depth l = 1 then None else sl_owner l),
        sl_depth := sl_depth l - 1\<rparr>)) st)"
  using assms by (auto simp: guard_drop_def release_all_def held_list_def release_Done split: run.splits)

text \<open>A guard holds a reference of its own beside the handles: the lock outlives the guard.\<close>

lemma guard_drop_One_refs:
  assumes "lock_ok hs st" "a \<in> set hs" "guard_drop (HOne a) st = Done st'"
  obtains l where "get_lock st a = Some l" "sl_depth l \<noteq> 0"
    "st' = set_lock a (Some (l\<lparr>sl_owner := (if sl_depth l = 1 then None else sl_owner l),
        sl_depth := sl_depth l - 1, sl_refs := sl_refs l - 1\<rparr>)) st"
proof -
  from assms(3) obtain l where l: "get_lock st a = Some l" "sl_depth l \<noteq> 0"
    and st': "st' = arc_drop a (set_lock a (Some (l\<lparr>sl_owner := (if sl_depth l = 1 then None
        else sl_owner l), sl_depth := sl_depth l - 1\<rparr>)) st)"
    by (rule guard_drop_One)
  have "count_list hs a \<noteq> 0"
    using assms(2) by (simp add: count_list_0_iff)
  then have "\<not> sl_refs l \<le> 1"
    using lock_okD(2) [OF assms(1) l(1)] l(2) by linarith
  then show ?thesis
    using l st' get_lock_SomeD [OF l(1)] by (intro that [of l]) (simp_all add: arc_drop_def)
qed

lemma lock_ok_drop:
  assumes "lock_ok hs st" "a \<in> set hs" "guard_drop (HOne a) st = Done st'"
  shows "lock_ok hs st'"
proof -
  from assms obtain l where l: "get_lock st a = Some l" "sl_depth l \<noteq> 0"
    and st': "st' = set_lock a (Some (l\<lparr>sl_owner := (if sl_depth l = 1 then None else sl_owner l),
        sl_depth := sl_depth l - 1, sl_refs := sl_refs l - 1\<rparr>)) st"
    by (rule guard_drop_One_refs)
  have c: "count_list hs a \<noteq> 0"
    using assms(2) by (simp add: count_list_0_iff)
  note b = lock_okD [OF assms(1) l(1)]
  show ?thesis
    unfolding st' using b l c get_lock_SomeD [OF l(1)]
    by (intro lock_ok_set [OF assms(1)]) auto
qed

lemma foreign_get [simp]:
  "get_lock (foreign_take k st) = get_lock st" "get_lock (foreign_give k st) = get_lock st"
  "lh_registry (foreign_take k st) = lh_registry st" "lh_registry (foreign_give k st) = lh_registry st"
  "lh_locks (foreign_take k st) = lh_locks st" "lh_locks (foreign_give k st) = lh_locks st"
  by (simp_all add: foreign_take_def foreign_give_def get_lock_def fun_eq_iff)

lemma guards_ok_set:
  assumes "guards_ok s" "get_lock (pr_heap s) a = Some l"
    and "\<And>t. count_list (held t) a = (if sl_owner m = Some t then sl_depth m else 0)"
    and "\<And>t b. b \<noteq> a \<Longrightarrow> count_list (held t) b = count_list (pr_held s t) b"
  shows "guards_ok (s\<lparr>pr_heap := set_lock a (Some m) (pr_heap s), pr_held := held, pr_todo := todo\<rparr>)"
proof -
  have "get_lock (pr_heap s) b \<noteq> None" if "b \<in> set (held t)" "b \<noteq> a" for b t
  proof -
    have "b \<in> set (pr_held s t)"
      using that assms(4) [of b t] by (metis count_list_0_iff)
    then show ?thesis
      using assms(1) by (auto simp: guards_ok_def)
  qed
  then show ?thesis
    using assms get_lock_SomeD [OF assms(2)] by (auto simp: guards_ok_def)
qed

lemma order_ok_take:
  assumes "order_ok hs rank s" "pr_todo s t = a # xs"
  shows "order_ok hs rank (s\<lparr>pr_heap := st, pr_held := (pr_held s)(t := pr_held s t @ [a]),
      pr_todo := (pr_todo s)(t := xs)\<rparr>)"
proof -
  have t: "set (pr_todo s t) \<subseteq> set hs \<and> set (pr_held s t) \<subseteq> set hs"
    "(\<exists>a\<in>set (pr_held s t). pr_todo s t = [a])
       \<or> (sorted_wrt (\<lambda>a b. rank a < rank b) (pr_todo s t)
          \<and> (\<forall>a\<in>set (pr_todo s t). \<forall>b\<in>set (pr_held s t). rank b < rank a))"
    using assms unfolding order_ok_def by (metis list.distinct(1))+
  show ?thesis
    using assms t unfolding order_ok_def by auto
qed

lemma proto_inv_take:
  assumes "proto_inv hs rank s" "pr_todo s t = a # xs"
    and "acquire t a (pr_heap s) = Done (Inr h, st')"
  shows "proto_inv hs rank (s\<lparr>pr_heap := st', pr_held := (pr_held s)(t := pr_held s t @ [a]),
      pr_todo := (pr_todo s)(t := xs)\<rparr>)"
proof -
  have ok: "lock_ok hs (pr_heap s)" "reg_ok (pr_heap s)" "guards_ok s" "process_ok s" "order_ok hs rank s"
    using assms(1) by (auto simp: proto_inv_def)
  from assms(3) ok(1) obtain l where l: "get_lock (pr_heap s) a = Some l"
    "sl_owner l = None \<or> sl_owner l = Some t"
    and free: "sl_owner l = None \<longrightarrow> \<not> contended (pr_heap s) (lock_key l)"
    and st': "st' = set_lock a (Some (l\<lparr>sl_owner := Some t, sl_depth := sl_depth l + 1,
       sl_refs := sl_refs l + 1\<rparr>)) (pr_heap s)"
    by (rule acquire_Inr)
  have count: "count_list (pr_held s u) a = (if sl_owner l = Some u then sl_depth l else 0)" for u
    using ok(3) l(1) by (simp add: guards_ok_def)
  have "guards_ok (s\<lparr>pr_heap := st', pr_held := (pr_held s)(t := pr_held s t @ [a]),
      pr_todo := (pr_todo s)(t := xs)\<rparr>)"
    unfolding st' using l(2) lock_okD(1) [OF ok(1) l(1)]
    by (intro guards_ok_set [OF ok(3) l(1)]) (auto simp: count)
  moreover have "process_ok (s\<lparr>pr_heap := st', pr_held := (pr_held s)(t := pr_held s t @ [a]),
      pr_todo := (pr_todo s)(t := xs)\<rparr>)"
    using ok(4) l free by (auto simp: st' process_ok_def contended_def lock_key_def split: if_splits)
  ultimately show ?thesis
    using acquire_ok [OF assms(3) ok(1)] acquire_reg_ok [OF assms(3) ok(1,2)]
      order_ok_take [OF ok(5) assms(2), of st'] by (simp add: proto_inv_def)
qed

lemma proto_inv_give:
  assumes "proto_inv hs rank s" "pr_todo s t = []" "pr_held s t = xs @ [a]"
    and "guard_drop (HOne a) (pr_heap s) = Done st'"
  shows "proto_inv hs rank (s\<lparr>pr_heap := st', pr_held := (pr_held s)(t := xs)\<rparr>)"
proof -
  have ok: "lock_ok hs (pr_heap s)" "reg_ok (pr_heap s)" "guards_ok s" "process_ok s" "order_ok hs rank s"
    using assms(1) by (auto simp: proto_inv_def)
  have a: "a \<in> set hs"
    using ok(5) assms(3) unfolding order_ok_def by (metis in_set_conv_decomp subsetD)
  from ok(1) a assms(4) obtain l where l: "get_lock (pr_heap s) a = Some l" "sl_depth l \<noteq> 0"
    and st': "st' = set_lock a (Some (l\<lparr>sl_owner := (if sl_depth l = 1 then None else sl_owner l),
        sl_depth := sl_depth l - 1, sl_refs := sl_refs l - 1\<rparr>)) (pr_heap s)"
    by (rule guard_drop_One_refs)
  have count: "count_list (pr_held s u) a = (if sl_owner l = Some u then sl_depth l else 0)" for u
    using ok(3) l(1) by (simp add: guards_ok_def)
  have mine: "sl_owner l = Some t" "count_list xs a = sl_depth l - 1"
    using count [of t] assms(3) by (auto split: if_splits)
  have others: "count_list (pr_held s u) a = 0" if "u \<noteq> t" for u
    using count [of u] mine that by simp
  have "guards_ok (s\<lparr>pr_heap := st', pr_held := (pr_held s)(t := xs), pr_todo := pr_todo s\<rparr>)"
    unfolding st' using mine others l(2) assms(3) lock_okD(1) [OF ok(1) l(1)]
    by (intro guards_ok_set [OF ok(3) l(1)]) auto
  moreover have "reg_ok st'"
    unfolding st' by (intro reg_ok_set [OF ok(2) l(1)]) (auto simp: lock_key_def)
  moreover have "process_ok (s\<lparr>pr_heap := st', pr_held := (pr_held s)(t := xs)\<rparr>)"
    using ok(4) l mine by (auto simp: st' process_ok_def lock_key_def split: if_splits)
  moreover have "set xs \<subseteq> set hs"
    using ok(5) assms(3) unfolding order_ok_def by (metis Un_subset_iff set_append)
  then have "order_ok hs rank (s\<lparr>pr_heap := st', pr_held := (pr_held s)(t := xs)\<rparr>)"
    using ok(5) assms(2,3) unfolding order_ok_def by auto
  ultimately show ?thesis
    using lock_ok_drop [OF ok(1) a assms(4)] by (simp add: proto_inv_def guards_ok_def)
qed

lemma proto_inv_foreign:
  assumes "proto_inv hs rank s"
  shows "proto_inv hs rank (s\<lparr>pr_heap := foreign_give k (pr_heap s)\<rparr>)"
    and "\<not> contended (pr_heap s) k \<Longrightarrow> proto_inv hs rank (s\<lparr>pr_heap := foreign_take k (pr_heap s)\<rparr>)"
proof -
  show "proto_inv hs rank (s\<lparr>pr_heap := foreign_give k (pr_heap s)\<rparr>)"
    using assms unfolding proto_inv_def lock_ok_def reg_ok_def guards_ok_def process_ok_def order_ok_def
    by (simp, simp add: foreign_give_def)
  assume free: "\<not> contended (pr_heap s) k"
  have "lock_key l \<noteq> k" if "get_lock (pr_heap s) a = Some l" "sl_owner l \<noteq> None" for a l
    using free that by (auto simp: contended_iff lock_view_None)
  then show "proto_inv hs rank (s\<lparr>pr_heap := foreign_take k (pr_heap s)\<rparr>)"
    using assms unfolding proto_inv_def lock_ok_def reg_ok_def guards_ok_def process_ok_def order_ok_def
    by (simp, simp add: foreign_take_def)
qed

lemma proto_inv_step: "pstep hs rank s s' \<Longrightarrow> proto_inv hs rank s \<Longrightarrow> proto_inv hs rank s'"
proof (induction rule: pstep.induct)
  case (sequence s t xs)
  then show ?case
    unfolding proto_inv_def guards_ok_def process_ok_def order_ok_def by auto
next
  case (nested s t a)
  then show ?case
    unfolding proto_inv_def guards_ok_def process_ok_def order_ok_def by (auto 4 3)
qed (auto intro: proto_inv_take proto_inv_give proto_inv_foreign)

lemma proto_reachable_inv: "proto_reachable hs rank s \<Longrightarrow> proto_inv hs rank s"
proof -
  assume "proto_reachable hs rank s"
  then obtain s0 where "proto_init hs s0" "(pstep hs rank)\<^sup>*\<^sup>* s0 s"
    by (auto simp: proto_reachable_def)
  from this(2) proto_inv_init [OF this(1)] show ?thesis
    by (induction rule: rtranclp_induct) (auto intro: proto_inv_step)
qed

section \<open>Exclusion and progress\<close>

text \<open>
  C3: in every reachable state, of all threads of this process and all other processes at most one
  holds a given file, whatever handles it is reached through; the depth of a lock is the number of
  its guards.
\<close>

theorem mutual_exclusion:
  assumes "proto_reachable hs rank s"
    and "get_lock (pr_heap s) a = Some l" "get_lock (pr_heap s) b = Some m" "lock_key l = lock_key m"
    and "a \<in> set (pr_held s t)" "b \<in> set (pr_held s u)"
  shows "t = u \<and> lock_key l \<notin> lh_foreign (pr_heap s) \<and> sl_depth l = count_list (pr_held s t) a"
proof -
  have inv: "reg_ok (pr_heap s)" "guards_ok s" "process_ok s"
    using proto_reachable_inv [OF assms(1)] by (auto simp: proto_inv_def)
  have same: "a = b"
    using reg_ok_unique [OF inv(1)] assms(2-4) by blast
  have count: "count_list (pr_held s v) a = (if sl_owner l = Some v then sl_depth l else 0)" for v
    using inv(2) assms(2) by (simp add: guards_ok_def)
  have "count_list (pr_held s t) a \<noteq> 0" "count_list (pr_held s u) a \<noteq> 0"
    using assms(5,6) same by (simp_all add: count_list_0_iff)
  then have own: "sl_owner l = Some t" "sl_owner l = Some u"
    by (auto simp: count split: if_splits)
  moreover have "lock_key l \<notin> lh_foreign (pr_heap s)"
    using inv(3) assms(2) own by (auto simp: process_ok_def)
  ultimately show ?thesis
    by (simp add: count)
qed

lemma guard_drop_can:
  assumes "proto_inv hs rank s" "pr_held s t = xs @ [a]"
  shows "\<exists>st'. guard_drop (HOne a) (pr_heap s) = Done st'"
proof -
  have inv: "guards_ok s"
    using assms(1) by (simp add: proto_inv_def)
  moreover have "a \<in> set (pr_held s t)"
    using assms(2) by simp
  ultimately obtain l where l: "get_lock (pr_heap s) a = Some l"
    unfolding guards_ok_def by blast
  have "count_list (pr_held s t) a = (if sl_owner l = Some t then sl_depth l else 0)"
    using inv l by (simp add: guards_ok_def)
  then have "sl_depth l \<noteq> 0"
    using assms(2) by (auto split: if_splits)
  then show ?thesis
    using l by (simp add: guard_drop_def release_all_def held_list_def release_def)
qed

text \<open>A thread whose next lock is its own, or free here and elsewhere, can take it.\<close>

lemma acquire_can:
  assumes "lh_foreign st = {}" "lh_flock_errs st = (\<lambda>_. [])" "lock_ok hs st" "reg_ok st"
    and "get_lock st a = Some l" "sl_owner l = None \<or> sl_owner l = Some t"
  shows "\<exists>h st'. acquire t a st = Done (Inr h, st')"
proof -
  have e: "lh_flock_errs st (lock_key l) = []"
    using assms(2) by simp
  have "acquire t a st \<noteq> Blocks"
    using shared_lock_steps [OF assms(3-5) e, of t] assms(1,6)
      lock_view_eq [OF assms(4,5) lock_okD(1) [OF assms(3,5)]]
    by (auto split: option.splits)
  then show ?thesis
    using shared_lock_steps [OF assms(3-5) e, of t] by blast
qed

text \<open>The locks that threads ask for next, and one of them of the highest rank.\<close>

definition proto_waits :: "proto \<Rightarrow> nat set" where
  "proto_waits s = {a. \<exists>t xs. pr_todo s t = a # xs}"

lemma proto_waits_handles: "order_ok hs rank s \<Longrightarrow> proto_waits s \<subseteq> set hs"
proof
  fix a
  assume o: "order_ok hs rank s" and "a \<in> proto_waits s"
  then obtain t xs where "pr_todo s t = a # xs"
    by (auto simp: proto_waits_def)
  moreover have "set (pr_todo s t) \<subseteq> set hs"
    using o [unfolded order_ok_def, rule_format, of t] by blast
  ultimately show "a \<in> set hs" by simp
qed

lemma highest_wait:
  assumes "order_ok hs rank s" "pr_todo s t0 \<noteq> []"
  obtains a where "a \<in> proto_waits s" "\<And>b. b \<in> proto_waits s \<Longrightarrow> rank b \<le> rank a"
proof -
  have fin: "finite (proto_waits s)"
    using proto_waits_handles [OF assms(1)] by (rule finite_subset) simp
  have "proto_waits s \<noteq> {}"
    using assms(2) by (auto simp: proto_waits_def neq_Nil_conv)
  then have "Max (rank ` proto_waits s) \<in> rank ` proto_waits s"
    using fin by (intro Max_in) auto
  then obtain a where "a \<in> proto_waits s" "rank a = Max (rank ` proto_waits s)"
    by auto
  with fin show ?thesis
    by (intro that [of a]) simp_all
qed

lemma owner_counts:
  assumes "guards_ok s" "get_lock (pr_heap s) a = Some l"
  shows "count_list (pr_held s t) a = (if sl_owner l = Some t then sl_depth l else 0)"
  using assms by (simp add: guards_ok_def)

lemma held_owner:
  assumes "guards_ok s" "get_lock (pr_heap s) a = Some l" "a \<in> set (pr_held s t)"
  shows "sl_owner l = Some t"
  using owner_counts [OF assms(1,2), of t] assms(3) by (metis count_list_0_iff)

lemma owner_held:
  assumes "lock_ok hs (pr_heap s)" "guards_ok s" "get_lock (pr_heap s) a = Some l" "sl_owner l = Some t"
  shows "a \<in> set (pr_held s t)"
  using owner_counts [OF assms(2,3), of t] assms(4) lock_okD(1) [OF assms(1,3)]
  by (metis count_list_0_iff option.distinct(1))

text \<open>
  C4: sequences that take their locks in ascending order never deadlock: in every reachable state
  where no other process holds a lock and \<open>flock\<close> reports no error, as long as some thread waits for
  a lock, some thread can take the lock it asks for or give back a guard.
\<close>

theorem ascending_sequences_progress:
  assumes "proto_reachable hs rank s"
    and "lh_foreign (pr_heap s) = {}" "lh_flock_errs (pr_heap s) = (\<lambda>_. [])"
    and "pr_todo s t0 \<noteq> []"
  shows "\<exists>t. (\<exists>a xs h st'. pr_todo s t = a # xs \<and> acquire t a (pr_heap s) = Done (Inr h, st'))
    \<or> (pr_todo s t = [] \<and> (\<exists>xs a st'. pr_held s t = xs @ [a] \<and> guard_drop (HOne a) (pr_heap s) = Done st'))"
proof -
  note pinv = proto_reachable_inv [OF assms(1)]
  then have inv: "lock_ok hs (pr_heap s)" "reg_ok (pr_heap s)" "guards_ok s" "order_ok hs rank s"
    by (auto simp: proto_inv_def)
  have live: "\<exists>l. get_lock (pr_heap s) b = Some l" if "b \<in> proto_waits s" for b
    using lock_ok_live [OF inv(1)] proto_waits_handles [OF inv(4)] that by blast
  obtain a where a: "a \<in> proto_waits s" "\<And>b. b \<in> proto_waits s \<Longrightarrow> rank b \<le> rank a"
    by (rule highest_wait [OF inv(4) assms(4)]) blast
  obtain t xs l where t: "pr_todo s t = a # xs" and l: "get_lock (pr_heap s) a = Some l"
    using a(1) live [OF a(1)] by (auto simp: proto_waits_def)
  show ?thesis
  proof (cases "sl_owner l = None \<or> sl_owner l = Some t")
    case True
    with acquire_can [OF assms(2,3) inv(1,2) l] t show ?thesis by blast
  next
    case False
    then obtain u where held: "a \<in> set (pr_held s u)"
      using owner_held [OF inv(1,3) l] by auto
    show ?thesis
    proof (cases "pr_todo s u")
      case Nil
      obtain ys b where ys: "pr_held s u = ys @ [b]"
        using held by (cases "pr_held s u" rule: rev_cases) auto
      with guard_drop_can [OF pinv ys] Nil show ?thesis by blast
    next
      case (Cons b bs)
      then have b: "b \<in> proto_waits s"
        by (auto simp: proto_waits_def)
      have "b \<in> set (pr_held s u) \<or> (\<forall>y\<in>set (pr_held s u). rank y < rank b)"
        using inv(4) [unfolded order_ok_def, rule_format, of u] Cons by auto
      with a(2) [OF b] held have "b \<in> set (pr_held s u)"
        by (auto simp: not_less [symmetric])
      with live [OF b] obtain m where m: "get_lock (pr_heap s) b = Some m" "sl_owner m = Some u"
        using held_owner [OF inv(3)] by blast
      with acquire_can [OF assms(2,3) inv(1,2) m(1)] Cons show ?thesis by blast
    qed
  qed
qed

text \<open>Thread 7 starts a sequence over two files, and takes the first.\<close>

definition proto0 :: proto where
  "proto0 = \<lparr>pr_heap = two_locks, pr_held = (\<lambda>_. []), pr_todo = (\<lambda>_. [])\<rparr>"

definition proto1 :: proto where
  "proto1 = \<lparr>pr_heap = two_locks, pr_held = (\<lambda>_. []), pr_todo = (\<lambda>t. if t = 7 then [0, 1] else [])\<rparr>"

definition first_taken :: lock_heap where
  "first_taken = set_lock 0 (Some \<lparr>sl_file = \<lparr>fl_path = ''a'', fl_key = (1, 1)\<rparr>,
      sl_owner = Some 7, sl_depth = 1, sl_refs = 2\<rparr>) two_locks"

definition proto2 :: proto where
  "proto2 = \<lparr>pr_heap = first_taken, pr_held = (\<lambda>t. if t = 7 then [0] else []),
     pr_todo = (\<lambda>t. if t = 7 then [1] else [])\<rparr>"

lemma proto0_init: "proto_init [0, 1] proto0"
  using two_locks_ok two_locks_reg
  by (auto simp: proto_init_def proto0_def lock_view_None two_locks_get split: if_splits)

lemma proto01: "pstep [0, 1] id proto0 proto1"
proof -
  have "proto1 = proto0\<lparr>pr_todo := (pr_todo proto0)(7 := [0, 1])\<rparr>"
    by (auto simp: proto0_def proto1_def)
  moreover have "pstep [0, 1] id proto0 (proto0\<lparr>pr_todo := (pr_todo proto0)(7 := [0, 1])\<rparr>)"
    by (rule pstep.sequence) (simp_all add: proto0_def)
  ultimately show ?thesis by simp
qed

lemma two_locks_acquire: "acquire 7 0 two_locks = Done (Inr (HOne 0), first_taken)"
  by (simp add: acquire_def two_locks_get flock_answers_def contended_def lock_key_def first_taken_def)
    (simp add: two_locks_def holds_key_def numeral_2_eq_2)

lemma proto12: "pstep [0, 1] id proto1 proto2"
proof -
  have "proto2 = proto1\<lparr>pr_heap := first_taken, pr_held := (pr_held proto1)(7 := pr_held proto1 7 @ [0]),
      pr_todo := (pr_todo proto1)(7 := [1])\<rparr>"
    by (auto simp: proto1_def proto2_def)
  moreover have "pstep [0, 1] id proto1 (proto1\<lparr>pr_heap := first_taken,
      pr_held := (pr_held proto1)(7 := pr_held proto1 7 @ [0]), pr_todo := (pr_todo proto1)(7 := [1])\<rparr>)"
    by (rule pstep.take [where h = "HOne 0"]) (simp_all add: proto1_def two_locks_acquire)
  ultimately show ?thesis by simp
qed

lemma proto_samples: "proto_reachable [0, 1] id proto1" "proto_reachable [0, 1] id proto2"
  using proto0_init proto01 proto12 unfolding proto_reachable_def
  by (blast intro: rtranclp.rtrancl_into_rtrancl rtranclp.rtrancl_refl)+

theorem mutual_exclusion_witness:
  "(1, 1) \<notin> lh_foreign (pr_heap proto2)"
proof -
  have l: "get_lock (pr_heap proto2) 0 = Some \<lparr>sl_file = \<lparr>fl_path = ''a'', fl_key = (1, 1)\<rparr>,
      sl_owner = Some 7, sl_depth = 1, sl_refs = 2\<rparr>"
    by (simp add: proto2_def first_taken_def) (simp add: two_locks_def)
  have h: "0 \<in> set (pr_held proto2 7)"
    by (simp add: proto2_def)
  from mutual_exclusion [OF proto_samples(2) l l refl h h]
  have "lock_key \<lparr>sl_file = \<lparr>fl_path = ''a'', fl_key = (1, 1)\<rparr>,
      sl_owner = Some 7, sl_depth = 1, sl_refs = 2\<rparr> \<notin> lh_foreign (pr_heap proto2)"
    by blast
  then show ?thesis
    by (simp add: lock_key_def)
qed

theorem ascending_sequences_progress_witness:
  "\<exists>t a xs h st'. pr_todo proto1 t = a # xs \<and> acquire t a (pr_heap proto1) = Done (Inr h, st')"
proof -
  have f: "lh_foreign (pr_heap proto1) = {}" "lh_flock_errs (pr_heap proto1) = (\<lambda>_. [])"
    "pr_todo proto1 7 \<noteq> []"
    by (simp_all add: proto1_def two_locks_def)
  have "pr_held proto1 t = []" for t
    by (simp add: proto1_def)
  with ascending_sequences_progress [OF proto_samples(1) f] show ?thesis
    by auto
qed

end
