(* ===== verification/Profile.thy ===== *)
theory Profile
  imports Errors
begin

text \<open>
  The data of \<open>src/validation.rs\<close> and the run of a safety profile. The register reader is an
  argument, as in the code; it may change the state it runs in.
\<close>

record validation_check =
  vc_name :: string
  vc_addr :: u64
  vc_mask :: u32
  vc_expected :: u32

record safety_profile =
  sp_name :: string
  sp_checks :: "validation_check list"

definition hook_failed :: "string \<Rightarrow> validation_check \<Rightarrow> u32 \<Rightarrow> mmreg_error" where
  "hook_failed profile c actual =
     ValidationHookFailed profile (vc_name c) (vc_addr c) (vc_mask c) (vc_expected c) actual"

definition check_holds :: "validation_check \<Rightarrow> u32 \<Rightarrow> bool" where
  "check_holds c actual \<longleftrightarrow> actual AND vc_mask c = vc_expected c AND vc_mask c"

fun run_checks ::
  "string \<Rightarrow> validation_check list \<Rightarrow> (u64 \<Rightarrow> (mmreg_error, 's, u32) prog) \<Rightarrow> (mmreg_error, 's, unit) prog"
where
  "run_checks profile [] read_fn = pret ()"
| "run_checks profile (c # cs) read_fn = pbind (read_fn (vc_addr c)) (\<lambda>actual.
     if \<not> check_holds c actual then pfail (hook_failed profile c actual)
     else run_checks profile cs read_fn)"

definition execute_with ::
  "safety_profile \<Rightarrow> (u64 \<Rightarrow> (mmreg_error, 's, u32) prog) \<Rightarrow> (mmreg_error, 's, unit) prog"
where
  "execute_with p read_fn = run_checks (sp_name p) (sp_checks p) read_fn"

section \<open>What a passed profile means\<close>

text \<open>The states a run of checks passes through, with the values read.\<close>

fun passes ::
  "(u64 \<Rightarrow> (mmreg_error, 's, u32) prog) \<Rightarrow> validation_check list \<Rightarrow> 's \<Rightarrow> 's \<Rightarrow> bool"
where
  "passes read_fn [] s t = (s = t)"
| "passes read_fn (c # cs) s t = (\<exists>v u. read_fn (vc_addr c) s = Done (Inr v, u) \<and> check_holds c v
     \<and> passes read_fn cs u t)"

lemma run_checks_Inr: "run_checks n cs f s = Done (Inr (), t) \<longleftrightarrow> passes f cs s t"
  by (induction cs arbitrary: s) (auto simp: pret_def pfail_def pbind_Inr_iff split: if_splits)

text \<open>The check \<open>c\<close>, read in \<open>u\<close>, ends the run: it cannot be read, or it does not match.\<close>

definition stops_at ::
  "string \<Rightarrow> (u64 \<Rightarrow> (mmreg_error, 's, u32) prog) \<Rightarrow> validation_check \<Rightarrow> 's \<Rightarrow> mmreg_error \<Rightarrow> 's \<Rightarrow> bool"
where
  "stops_at n f c u e t \<longleftrightarrow> f (vc_addr c) u = Done (Inl e, t)
     \<or> (\<exists>v. f (vc_addr c) u = Done (Inr v, t) \<and> \<not> check_holds c v \<and> e = hook_failed n c v)"

lemma run_checks_Cons_Inl:
  "run_checks n (d # ds) f s = Done (Inl e, t) \<longleftrightarrow> stops_at n f d s e t
     \<or> (\<exists>v u. f (vc_addr d) s = Done (Inr v, u) \<and> check_holds d v \<and> run_checks n ds f u = Done (Inl e, t))"
  by (auto simp: pbind_Done_iff pfail_def stops_at_def split: if_splits)

text \<open>Where a split of \<open>d # ds\<close> around one element can be.\<close>

lemma ex_split_Cons:
  "(\<exists>pre c post. d # ds = pre @ c # post \<and> P pre c) \<longleftrightarrow> P [] d \<or> (\<exists>pre c post. ds = pre @ c # post \<and> P (d # pre) c)"
  (is "?l \<longleftrightarrow> ?r")
proof
  assume ?l
  then obtain pre c post where *: "d # ds = pre @ c # post" "P pre c" by blast
  then show ?r
    by (cases pre) auto
next
  assume ?r
  then show ?l
    by (metis append_Cons append_Nil)
qed

lemma run_checks_Inl:
  "run_checks n cs f s = Done (Inl e, t) \<longleftrightarrow>
     (\<exists>pre c post. cs = pre @ c # post \<and> (\<exists>u. passes f pre s u \<and> stops_at n f c u e t))"
proof (induction cs arbitrary: s)
  case (Cons d ds)
  show ?case
    unfolding ex_split_Cons run_checks_Cons_Inl Cons.IH by (simp only: passes.simps) blast
qed (simp add: pret_def)

text \<open>
  A safety profile passes exactly when its checks, read one after the other in their order, all
  match on their masked bits; it fails with the first check that does not match or cannot be read,
  and nothing is read after it.
\<close>

theorem execute_with_spec:
  "(execute_with p f s = Done (Inr (), t)) = passes f (sp_checks p) s t
    \<and> (execute_with p f s = Done (Inl e, t)) =
      (\<exists>pre c post u. sp_checks p = pre @ c # post \<and> passes f pre s u
        \<and> (f (vc_addr c) u = Done (Inl e, t)
           \<or> (\<exists>v. f (vc_addr c) u = Done (Inr v, t) \<and> \<not> check_holds c v
               \<and> e = hook_failed (sp_name p) c v)))"
  by (simp add: execute_with_def run_checks_Inr run_checks_Inl stops_at_def del: run_checks.simps)

end
