(* ===== verification/Regs.thy ===== *)
theory Regs
  imports Errors
begin

text \<open>
  \<open>src/register.rs\<close>: a 32-bit register with its named bit fields, and the two bit formulas the
  rest of the crate applies to a field's mask (the read-modify-write of \<open>Device::update_u32\<close> and
  the extraction of \<open>Interface::read_subregister\<close> and \<open>parse_subregister\<close>).
\<close>

section \<open>Data\<close>

record sub_register =
  sr_name :: string
  sr_msb :: u8
  sr_lsb :: u8

record register =
  rg_name :: string
  rg_offset :: u32
  rg_raw :: u32
  rg_children :: "sub_register list"

definition register_new :: "string \<Rightarrow> u32 \<Rightarrow> sub_register list \<Rightarrow> register" where
  "register_new nm offset children =
     \<lparr>rg_name = nm, rg_offset = offset, rg_raw = 0, rg_children = children\<rparr>"

definition sub_register_new :: "string \<Rightarrow> u8 \<Rightarrow> u8 \<Rightarrow> sub_register" where
  "sub_register_new nm hi lo = \<lparr>sr_name = nm, sr_msb = hi, sr_lsb = lo\<rparr>"

text \<open>\<open>Register::subregister\<close>: the first child of that name.\<close>

definition subregister :: "register \<Rightarrow> string \<Rightarrow> sub_register option" where
  "subregister r nm = find (\<lambda>sub. sr_name sub = nm) (rg_children r)"

text \<open>\<open>SubRegister::mask\<close>.\<close>

definition sub_mask :: "sub_register \<Rightarrow> u32" where
  "sub_mask s =
     (if sr_msb s < sr_lsb s \<or> 31 < sr_msb s then 0
      else drop_bit (unat (31 - sr_msb s)) (- 1) AND push_bit (unat (sr_lsb s)) (- 1))"

definition valid_range :: "sub_register \<Rightarrow> bool" where
  "valid_range s \<longleftrightarrow> sr_lsb s \<le> sr_msb s \<and> sr_msb s \<le> 31"

text \<open>\<open>(current & !mask) | (value & mask)\<close> and \<open>(raw & mask) >> lsb\<close>.\<close>

definition replace_bits :: "u32 \<Rightarrow> u32 \<Rightarrow> u32 \<Rightarrow> u32" where
  "replace_bits current msk v = (current AND NOT msk) OR (v AND msk)"

definition field_of :: "u32 \<Rightarrow> u32 \<Rightarrow> u8 \<Rightarrow> u32" where
  "field_of raw msk lo = drop_bit (unat lo) (raw AND msk)"

section \<open>Masks\<close>

lemma valid_range_bounds:
  "valid_range s \<Longrightarrow> unat (sr_lsb s) \<le> unat (sr_msb s) \<and> unat (sr_msb s) \<le> 31"
  by (auto simp: valid_range_def word_le_nat_alt)

lemma unat_31_minus:
  "(m :: u8) \<le> 31 \<Longrightarrow> unat (31 - m) = 31 - unat m"
  by (simp add: unat_sub_le)

lemma bit_sub_mask:
  "bit (sub_mask s) n \<longleftrightarrow> valid_range s \<and> unat (sr_lsb s) \<le> n \<and> n \<le> unat (sr_msb s)"
proof (cases "valid_range s")
  case False
  then have "sub_mask s = 0"
    by (auto simp: sub_mask_def valid_range_def not_le)
  with False show ?thesis by simp
next
  case True
  then have "\<not> (sr_msb s < sr_lsb s \<or> 31 < sr_msb s)" and "sr_msb s \<le> 31"
    by (auto simp: valid_range_def)
  then have eq: "sub_mask s =
      drop_bit (31 - unat (sr_msb s)) (- 1) AND push_bit (unat (sr_lsb s)) (- 1)"
    by (simp only: sub_mask_def if_False unat_31_minus)
  have "bit (sub_mask s) n \<longleftrightarrow>
      31 - unat (sr_msb s) + n < 32 \<and> n < 32 \<and> unat (sr_lsb s) \<le> n"
    unfolding eq by (auto simp: bit_simps)
  then show ?thesis
    using True valid_range_bounds [OF True] by auto
qed

text \<open>
  C39: the mask of a field has exactly the bits \<open>lsb..=msb\<close>; it is zero exactly when the range is
  invalid (\<open>msb < lsb\<close> or \<open>msb > 31\<close>), which is what the interface layer tests for.
\<close>

theorem sub_mask_exact:
  "(\<forall>n. bit (sub_mask s) n = (valid_range s \<and> unat (sr_lsb s) \<le> n \<and> n \<le> unat (sr_msb s)))
    \<and> (sub_mask s = 0) = (sr_msb s < sr_lsb s \<or> 31 < sr_msb s)"
proof (intro conjI allI)
  show "bit (sub_mask s) n = (valid_range s \<and> unat (sr_lsb s) \<le> n \<and> n \<le> unat (sr_msb s))" for n
    by (rule bit_sub_mask)
  have "sub_mask s \<noteq> 0" if "valid_range s"
  proof
    assume "sub_mask s = 0"
    moreover have "bit (sub_mask s) (unat (sr_lsb s))"
      using that valid_range_bounds [OF that] by (simp add: bit_sub_mask)
    ultimately show False by simp
  qed
  moreover have "sub_mask s = 0" if "\<not> valid_range s"
    using that by (auto simp: sub_mask_def valid_range_def not_le)
  ultimately have "sub_mask s = 0 \<longleftrightarrow> \<not> valid_range s"
    by blast
  then show "(sub_mask s = 0) = (sr_msb s < sr_lsb s \<or> 31 < sr_msb s)"
    by (auto simp: valid_range_def)
qed

section \<open>Field updates\<close>

lemma bit_replace_bits:
  "bit (replace_bits c m v) n \<longleftrightarrow> (if bit m n then bit v n else bit c n)"
  by (auto simp: replace_bits_def bit_simps dest: bit_imp_le_length)

lemma replace_bits_idem: "replace_bits (replace_bits c m v) m v = replace_bits c m v"
  by (rule bit_word_eqI) (simp add: bit_replace_bits)

lemma bit_field_of:
  "bit (field_of raw m lo) n \<longleftrightarrow> bit raw (unat lo + n) \<and> bit m (unat lo + n)"
  by (simp add: field_of_def bit_simps)

lemma field_roundtrip:
  assumes "valid_range s"
  shows "field_of (replace_bits c (sub_mask s) (push_bit (unat (sr_lsb s)) v)) (sub_mask s) (sr_lsb s)
    = take_bit (Suc (unat (sr_msb s) - unat (sr_lsb s))) v"
proof (rule bit_word_eqI)
  fix n
  assume "n < LENGTH(32)"
  then show "bit (field_of (replace_bits c (sub_mask s) (push_bit (unat (sr_lsb s)) v)) (sub_mask s) (sr_lsb s)) n
    = bit (take_bit (Suc (unat (sr_msb s) - unat (sr_lsb s))) v) n"
    using assms valid_range_bounds [OF assms]
    by (auto simp: bit_field_of bit_replace_bits bit_sub_mask bit_push_bit_iff bit_take_bit_iff)
qed

lemma field_disjoint:
  assumes "m AND msk = 0"
  shows "field_of (replace_bits c msk v) m lo = field_of c m lo"
proof -
  have "\<not> (bit m k \<and> bit msk k)" for k
    using assms by (metis bit_and_iff bit_0_eq bot_apply bot_bool_def)
  then show ?thesis
    by (intro bit_word_eqI) (auto simp: bit_field_of bit_replace_bits)
qed

text \<open>
  C40: writing a field by the read-modify-write formula and extracting it again gives the value cut
  to the field's width; every field disjoint from it, and every bit outside it, keeps its value.
\<close>

theorem field_write_read:
  assumes "valid_range s"
  shows "field_of (replace_bits c (sub_mask s) (push_bit (unat (sr_lsb s)) v)) (sub_mask s) (sr_lsb s)
      = take_bit (Suc (unat (sr_msb s) - unat (sr_lsb s))) v
    \<and> (\<forall>m lo. m AND sub_mask s = 0
        \<longrightarrow> field_of (replace_bits c (sub_mask s) (push_bit (unat (sr_lsb s)) v)) m lo = field_of c m lo)"
  using field_roundtrip [OF assms] field_disjoint by blast

theorem field_write_read_witness:
  "field_of (replace_bits 0xFFFF (sub_mask (sub_register_new ''mode'' 7 4)) (push_bit 4 0x15))
      (sub_mask (sub_register_new ''mode'' 7 4)) 4 = 5"
  using field_write_read [where s = "sub_register_new ''mode'' 7 4" and c = "0xFFFF" and v = "0x15"]
  by (simp add: sub_register_new_def valid_range_def take_bit_eq_mod)

end
