(* ===== verification/Device.thy ===== *)
theory Device
  imports Mapper Resolve LockProto Profile Regs
begin

text \<open>
  \<open>src/device.rs\<close>: opening a device window, and the locked accesses to it. The state of an operation
  is the machine (hardware, file system, locks of the process) with the device itself, whose cached
  page lock and custom mapper change behind \<open>&self\<close>. Arithmetic wraps as in a release build.
\<close>

section \<open>State\<close>

record 'h machine =
  mc_hw :: 'h
  mc_fs :: fs
  mc_locks :: lock_heap

text \<open>The environment: the kernel, the \<open>debug\<close> feature, and the code of a custom mapper.\<close>

record ('h, 'm) env =
  ev_kernel :: "'h kernel"
  ev_lock :: lock_env
  ev_debug :: bool
  ev_vt :: "'m mapper_vt"

datatype target_spec = UioName string | UioPath path | Addr u64 usize

datatype 'm backend = BOs os_mapper | BCustom 'm

record 'm builder =
  bd_spec :: target_spec
  bd_name :: "string option"
  bd_region :: usize
  bd_read_only :: bool
  bd_force :: bool
  bd_mapper_type :: mapper_type
  bd_profile :: "safety_profile option"
  bd_custom :: "'m option"

record 'm device =
  dv_name :: string
  dv_base :: u64
  dv_size :: usize
  dv_read_only :: bool
  dv_device_path :: "path option"
  dv_warnings :: "string list"
  dv_backend :: "'m backend"
  dv_uio_lock :: "nat option"
  dv_base_page_lock :: "nat option"
  dv_pm_guard :: "pm_guard option"

type_synonym ('h, 'm) world = "'h machine \<times> 'm device"

section \<open>\<open>Backend\<close>\<close>

definition backend_read ::
  "('h, 'm) env \<Rightarrow> u32 \<Rightarrow> width \<Rightarrow> ('h, 'm) world \<Rightarrow> (u64 \<times> ('h, 'm) world) run"
where
  "backend_read E off w = (\<lambda>(M, d). case dv_backend d of
       BOs om \<Rightarrow> (case os_read (ev_kernel E) om off w (mc_hw M) of
         Done (v, h) \<Rightarrow> Done (v, (M\<lparr>mc_hw := h\<rparr>, d)) | Blocks \<Rightarrow> Blocks | Panics \<Rightarrow> Panics)
     | BCustom m \<Rightarrow> (case vt_read (ev_vt E) off w m of
         Done (v, m') \<Rightarrow> Done (v, (M, d\<lparr>dv_backend := BCustom m'\<rparr>)) | Blocks \<Rightarrow> Blocks
       | Panics \<Rightarrow> Panics))"

definition backend_write ::
  "('h, 'm) env \<Rightarrow> u32 \<Rightarrow> width \<Rightarrow> u64 \<Rightarrow> ('h, 'm) world \<Rightarrow> ('h, 'm) world run"
where
  "backend_write E off w v = (\<lambda>(M, d). case dv_backend d of
       BOs om \<Rightarrow> (case os_write (ev_kernel E) om off w v (mc_hw M) of
         Done h \<Rightarrow> Done (M\<lparr>mc_hw := h\<rparr>, d) | Blocks \<Rightarrow> Blocks | Panics \<Rightarrow> Panics)
     | BCustom m \<Rightarrow> (case vt_write (ev_vt E) off w v m of
         Done m' \<Rightarrow> Done (M, d\<lparr>dv_backend := BCustom m'\<rparr>) | Blocks \<Rightarrow> Blocks | Panics \<Rightarrow> Panics))"

definition backend_unmap :: "('h, 'm) env \<Rightarrow> 'm backend \<Rightarrow> 'm backend" where
  "backend_unmap E b = (case b of
       BOs om \<Rightarrow> BOs (os_unmap om) | BCustom m \<Rightarrow> BCustom (vt_unmap (ev_vt E) m))"

text \<open>\<open>take_custom\<close>: the mapper, if any, and the backend that takes its place.\<close>

definition backend_take_custom :: "('h, 'm) env \<Rightarrow> 'm backend \<Rightarrow> 'm option \<times> 'm backend" where
  "backend_take_custom E b =
     ((case backend_unmap E b of BCustom m \<Rightarrow> Some m | BOs _ \<Rightarrow> None), BOs (os_new Auto True))"

section \<open>\<open>DeviceBuilder\<close>\<close>

definition builder_new :: "target_spec \<Rightarrow> 'm builder" where
  "builder_new spec = \<lparr>bd_spec = spec, bd_name = None, bd_region = 0, bd_read_only = False,
     bd_force = False, bd_mapper_type = Auto, bd_profile = None, bd_custom = None\<rparr>"

definition with_name :: "string \<Rightarrow> 'm builder \<Rightarrow> 'm builder" where
  "with_name nm b = b\<lparr>bd_name := Some nm\<rparr>"

definition with_region :: "usize \<Rightarrow> 'm builder \<Rightarrow> 'm builder" where
  "with_region i b = b\<lparr>bd_region := i\<rparr>"

definition with_read_only :: "bool \<Rightarrow> 'm builder \<Rightarrow> 'm builder" where
  "with_read_only ro b = b\<lparr>bd_read_only := ro\<rparr>"

definition with_force :: "bool \<Rightarrow> 'm builder \<Rightarrow> 'm builder" where
  "with_force force b = b\<lparr>bd_force := force\<rparr>"

definition with_mapper_type :: "mapper_type \<Rightarrow> 'm builder \<Rightarrow> 'm builder" where
  "with_mapper_type mt b = b\<lparr>bd_mapper_type := mt\<rparr>"

definition with_safety_profile :: "safety_profile \<Rightarrow> 'm builder \<Rightarrow> 'm builder" where
  "with_safety_profile p b = b\<lparr>bd_profile := Some p\<rparr>"

definition with_custom_mapper :: "'m \<Rightarrow> 'm builder \<Rightarrow> 'm builder" where
  "with_custom_mapper m b = b\<lparr>bd_custom := Some m\<rparr>"

text \<open>The name, window and mapper type that a UIO target gives.\<close>

definition resolve_uio_spec ::
  "'h kernel \<Rightarrow> fs \<Rightarrow> string \<Rightarrow> mmreg_error + path \<Rightarrow> usize \<Rightarrow> bool
    \<Rightarrow> mmreg_error + (string \<times> u64 \<times> usize \<times> mapper_type)"
where
  "resolve_uio_spec K F default_name path_res region_index mock_fallback =
     (case rbind path_res (\<lambda>p. rbind (read_uio_region K F p region_index) (\<lambda>w. Inr (p, w))) of
        Inr (p, w) \<Rightarrow> Inr (default_name, um_addr w, um_size w, Uio p region_index)
      | Inl e \<Rightarrow>
          if mock_fallback then Inr (default_name, 0, page_size K, Uio default_name region_index)
          else Inl e)"

definition resolve_spec ::
  "('h, 'm) env \<Rightarrow> fs \<Rightarrow> 'm builder \<Rightarrow> mmreg_error + (string \<times> u64 \<times> usize \<times> mapper_type)"
where
  "resolve_spec E F b =
     (let mock = bd_custom b \<noteq> None \<and> bd_force b in
      case bd_spec b of
        UioName n \<Rightarrow> resolve_uio_spec (ev_kernel E) F n (find_uio F n) (bd_region b) mock
      | UioPath p \<Rightarrow> resolve_uio_spec (ev_kernel E) F p (Inr p) (bd_region b) mock
      | Addr base sz \<Rightarrow>
          (let label = (case bd_name b of Some n \<Rightarrow> n | None \<Rightarrow> ''mmreg'') in
           if sz = 0 \<or> checked_add base sz = None then Inl (OutOfBoundsAccess label 0 1 sz)
           else Inr (label, base, sz, bd_mapper_type b)))"

text \<open>The power guard: only for \<open>/dev/mem\<close>, and only in \<open>debug\<close> builds.\<close>

definition open_pm_guard ::
  "('h, 'm) env \<Rightarrow> bool \<Rightarrow> target \<Rightarrow> fs \<Rightarrow> (pm_guard option \<times> string list) \<times> fs"
where
  "open_pm_guard E has_custom t F =
     (if tg_mapper t = DevMem \<and> \<not> has_custom \<and> ev_debug E then
        (case tg_owner t of
           Some p \<Rightarrow> pm_acquire p (tg_warnings t) F
         | None \<Rightarrow> ((None, tg_warnings t), F))
      else ((None, tg_warnings t), F))"

definition opt_pm_drop :: "pm_guard option \<Rightarrow> fs \<Rightarrow> fs" where
  "opt_pm_drop g F = (case g of Some x \<Rightarrow> pm_drop x F | None \<Rightarrow> F)"

definition open_backend ::
  "('h, 'm) env \<Rightarrow> fs \<Rightarrow> 'm builder \<Rightarrow> mapper_type \<Rightarrow> u64 \<Rightarrow> usize \<Rightarrow> mmreg_error + 'm backend"
where
  "open_backend E F b mt base sz = (case bd_custom b of
       Some m \<Rightarrow> (case vt_map (ev_vt E) base sz m of
         (Inl e, _) \<Rightarrow> Inl e | (Inr _, m') \<Rightarrow> Inr (BCustom m'))
     | None \<Rightarrow> (case os_map (ev_debug E) (ev_kernel E) F base sz (os_new mt (bd_read_only b)) of
         (Inl e, _) \<Rightarrow> Inl e | (Inr _, om) \<Rightarrow> Inr (BOs om)))"

definition backend_uio_file :: "'m backend \<Rightarrow> os_file option" where
  "backend_uio_file b = (case b of BOs om \<Rightarrow> om_uio_file om | BCustom _ \<Rightarrow> None)"

definition open_uio_lock ::
  "lock_env \<Rightarrow> 'm backend \<Rightarrow> path option \<Rightarrow> (mmreg_error, lock_heap, nat option) prog"
where
  "open_uio_lock L b dev_path = (case dev_path of
       None \<Rightarrow> pret None
     | Some p \<Rightarrow> pbind (case backend_uio_file b of
           Some f \<Rightarrow> from_open_file L f p | None \<Rightarrow> device_lock_open L p) (\<lambda>a. pret (Some a)))"

text \<open>\<open>DeviceBuilder::open\<close> after the safety profile.\<close>

definition open_window :: "('h, 'm) env \<Rightarrow> 'm builder \<Rightarrow> (mmreg_error, 'h machine, 'm device) prog" where
  "open_window E b M =
     (let has_custom = bd_custom b \<noteq> None in
      case resolve_spec E (mc_fs M) b of
        Inl e \<Rightarrow> Done (Inl e, M)
      | Inr (default_name, base, sz, mt) \<Rightarrow>
      (case resolve (mc_fs M) base sz mt (\<not> bd_force b) of
        Inl e \<Rightarrow> Done (Inl e, M)
      | Inr t \<Rightarrow>
          (let ((pm, warnings), F1) = open_pm_guard E has_custom t (mc_fs M);
               dev_path = (case tg_mapper t of Uio p _ \<Rightarrow> if has_custom then None else Some p | _ \<Rightarrow> None)
           in case open_backend E F1 b (tg_mapper t) base sz of
                Inl e \<Rightarrow> Done (Inl e, M\<lparr>mc_fs := opt_pm_drop pm F1\<rparr>)
              | Inr bk \<Rightarrow>
                  (case open_uio_lock (ev_lock E) bk dev_path (mc_locks M) of
                     Done (Inl e, L) \<Rightarrow> Done (Inl e, M\<lparr>mc_fs := opt_pm_drop pm F1, mc_locks := L\<rparr>)
                   | Done (Inr lk, L) \<Rightarrow> Done (Inr \<lparr>
                       dv_name = (case bd_name b of Some n \<Rightarrow> n | None \<Rightarrow> default_name),
                       dv_base = base, dv_size = sz, dv_read_only = bd_read_only b,
                       dv_device_path = dev_path, dv_warnings = warnings, dv_backend = bk,
                       dv_uio_lock = lk, dv_base_page_lock = None, dv_pm_guard = pm\<rparr>,
                       M\<lparr>mc_fs := F1, mc_locks := L\<rparr>)
                   | Blocks \<Rightarrow> Blocks
                   | Panics \<Rightarrow> Panics))))"

section \<open>Locks of a device\<close>

definition on_locks ::
  "(mmreg_error, lock_heap, 'a) prog \<Rightarrow> (mmreg_error, ('h, 'm) world, 'a) prog"
where
  "on_locks p = (\<lambda>(M, d). case p (mc_locks M) of
       Done (r, L) \<Rightarrow> Done (r, (M\<lparr>mc_locks := L\<rparr>, d))
     | Blocks \<Rightarrow> Blocks
     | Panics \<Rightarrow> Panics)"

text \<open>\<open>OnceLock::set\<close> for the cached page lock; nobody sets it in between, so it stays.\<close>

definition set_base_page_lock :: "nat \<Rightarrow> (mmreg_error, ('h, 'm) world, unit) prog" where
  "set_base_page_lock a = (\<lambda>(M, d). Done (Inr (), (M, d\<lparr>dv_base_page_lock := Some a\<rparr>)))"

definition lock_at ::
  "('h, 'm) env \<Rightarrow> thread \<Rightarrow> u64 \<Rightarrow> (mmreg_error, ('h, 'm) world, held) prog"
where
  "lock_at E me address = (\<lambda>(M, d). case dv_uio_lock d of
       Some a \<Rightarrow> on_locks (acquire me a) (M, d)
     | None \<Rightarrow>
         (let page = page_size (ev_kernel E); lock_addr = page_base page address in
          if lock_addr = page_base page (dv_base d) then
            (case dv_base_page_lock d of
               Some a \<Rightarrow> on_locks (acquire me a) (M, d)
             | None \<Rightarrow> pbind (on_locks (open_page (ev_lock E) page (dv_base d))) (\<lambda>a.
                 pbind (set_base_page_lock a) (\<lambda>_. on_locks (acquire me a))) (M, d))
          else on_locks (lock_at_or_page (ev_lock E) page me None lock_addr) (M, d)))"

definition max_sequence_pages :: u64 where
  "max_sequence_pages = 64"

text \<open>The pages of the window, first to last.\<close>

definition window_pages :: "u64 \<Rightarrow> 'm device \<Rightarrow> u64" where
  "window_pages page d =
     (page_base page (dv_base d + dv_size d - 1) - page_base page (dv_base d)) div page + 1"

definition page_addresses :: "u64 \<Rightarrow> 'm device \<Rightarrow> u64 list" where
  "page_addresses page d =
     map (\<lambda>i. page_base page (dv_base d) + of_nat i * page) [0..<unat (window_pages page d)]"

fun open_pages ::
  "lock_env \<Rightarrow> u64 \<Rightarrow> u64 list \<Rightarrow> nat list \<Rightarrow> (mmreg_error, lock_heap, nat list) prog"
where
  "open_pages L page [] acc st = Done (Inr acc, st)"
| "open_pages L page (a # as) acc st = (case open_page L page a st of
       Done (Inr x, st') \<Rightarrow> open_pages L page as (acc @ [x]) st'
     | Done (Inl e, st') \<Rightarrow> Done (Inl e, fold arc_drop acc st')
     | Blocks \<Rightarrow> Blocks
     | Panics \<Rightarrow> Panics)"

text \<open>\<open>Device::lock\<close>.\<close>

definition device_lock ::
  "('h, 'm) env \<Rightarrow> thread \<Rightarrow> (mmreg_error, ('h, 'm) world, held) prog"
where
  "device_lock E me = (\<lambda>(M, d).
     if dv_uio_lock d \<noteq> None then lock_at E me (dv_base d) (M, d)
     else
       (let page = page_size (ev_kernel E);
            first = page_base page (dv_base d);
            final = page_base page (dv_base d + dv_size d - 1)
        in if first = final then lock_at E me (dv_base d) (M, d)
           else if window_pages page d > max_sequence_pages then
             Done (Inl (LockRangeTooLarge (dv_name d) (window_pages page d) max_sequence_pages), (M, d))
           else pbind (on_locks (open_pages (ev_lock E) page (page_addresses page d) []))
             (\<lambda>locks. on_locks (lock_all me locks)) (M, d)))"

section \<open>Accesses\<close>

definition check_access :: "'m device \<Rightarrow> u32 \<Rightarrow> width \<Rightarrow> bool \<Rightarrow> mmreg_error + u64" where
  "check_access d off w wr =
     (if wr \<and> dv_read_only d then Inl (ReadOnly (dv_name d))
      else
        (let bytes = width_bytes w; address = dv_base d + ucast off in
         if (ucast off :: usize) mod bytes \<noteq> 0 \<or> address mod bytes \<noteq> 0
         then Inl (UnalignedWidthAccess (dv_base d) off (width_bits w))
         else if (case checked_add (ucast off) bytes of None \<Rightarrow> True | Some fin \<Rightarrow> fin > dv_size d)
         then Inl (OutOfBoundsAccess (dv_name d) off bytes (dv_size d))
         else Inr address))"

text \<open>\<open>let _guard = lock?; body\<close>: the guard is dropped after the body.\<close>

definition with_guard ::
  "(mmreg_error, ('h, 'm) world, held) prog \<Rightarrow> (('h, 'm) world \<Rightarrow> ('a \<times> ('h, 'm) world) run)
    \<Rightarrow> (mmreg_error, ('h, 'm) world, 'a) prog"
where
  "with_guard lock body s = (case lock s of
       Done (Inl e, s1) \<Rightarrow> Done (Inl e, s1)
     | Done (Inr g, s1) \<Rightarrow> (case body s1 of
         Done (x, (M, d)) \<Rightarrow> (case guard_drop g (mc_locks M) of
           Done L \<Rightarrow> Done (Inr x, (M\<lparr>mc_locks := L\<rparr>, d)) | Blocks \<Rightarrow> Blocks | Panics \<Rightarrow> Panics)
       | Blocks \<Rightarrow> Blocks
       | Panics \<Rightarrow> Panics)
     | Blocks \<Rightarrow> Blocks
     | Panics \<Rightarrow> Panics)"

definition write_body ::
  "('h, 'm) env \<Rightarrow> u32 \<Rightarrow> width \<Rightarrow> u64 \<Rightarrow> ('h, 'm) world \<Rightarrow> (unit \<times> ('h, 'm) world) run"
where
  "write_body E off w v s = (case backend_write E off w v s of
       Done s' \<Rightarrow> Done ((), s') | Blocks \<Rightarrow> Blocks | Panics \<Rightarrow> Panics)"

definition update_body ::
  "('h, 'm) env \<Rightarrow> u32 \<Rightarrow> u32 \<Rightarrow> u32 \<Rightarrow> ('h, 'm) world \<Rightarrow> (u32 \<times> ('h, 'm) world) run"
where
  "update_body E off msk v s = (case backend_read E off WU32 s of
       Done (x, s1) \<Rightarrow>
         (let updated = replace_bits (ucast x) msk v in
          case backend_write E off WU32 (ucast updated) s1 of
            Done s2 \<Rightarrow> Done (updated, s2) | Blocks \<Rightarrow> Blocks | Panics \<Rightarrow> Panics)
     | Blocks \<Rightarrow> Blocks
     | Panics \<Rightarrow> Panics)"

text \<open>An access: the check, then the body under the lock of the effective address.\<close>

definition device_access ::
  "('h, 'm) env \<Rightarrow> thread \<Rightarrow> u32 \<Rightarrow> width \<Rightarrow> bool \<Rightarrow> (('h, 'm) world \<Rightarrow> ('a \<times> ('h, 'm) world) run)
    \<Rightarrow> (mmreg_error, ('h, 'm) world, 'a) prog"
where
  "device_access E me off w wr body = (\<lambda>(M, d). case check_access d off w wr of
       Inl e \<Rightarrow> Done (Inl e, (M, d))
     | Inr address \<Rightarrow> with_guard (lock_at E me address) body (M, d))"

definition device_read ::
  "('h, 'm) env \<Rightarrow> thread \<Rightarrow> u32 \<Rightarrow> width \<Rightarrow> (mmreg_error, ('h, 'm) world, u64) prog"
where
  "device_read E me off w = device_access E me off w False (backend_read E off w)"

definition device_write ::
  "('h, 'm) env \<Rightarrow> thread \<Rightarrow> u32 \<Rightarrow> width \<Rightarrow> u64 \<Rightarrow> (mmreg_error, ('h, 'm) world, unit) prog"
where
  "device_write E me off w v = device_access E me off w True (write_body E off w v)"

definition update_u32 ::
  "('h, 'm) env \<Rightarrow> thread \<Rightarrow> u32 \<Rightarrow> u32 \<Rightarrow> u32 \<Rightarrow> (mmreg_error, ('h, 'm) world, u32) prog"
where
  "update_u32 E me off msk v = device_access E me off WU32 True (update_body E off msk v)"

text \<open>The accessors at fixed widths.\<close>

definition read_u8 :: "('h, 'm) env \<Rightarrow> thread \<Rightarrow> u32 \<Rightarrow> (mmreg_error, ('h, 'm) world, u8) prog" where
  "read_u8 E me off = pbind (device_read E me off WU8) (\<lambda>v. pret (ucast v))"

definition read_u16 :: "('h, 'm) env \<Rightarrow> thread \<Rightarrow> u32 \<Rightarrow> (mmreg_error, ('h, 'm) world, u16) prog" where
  "read_u16 E me off = pbind (device_read E me off WU16) (\<lambda>v. pret (ucast v))"

definition read_u32 :: "('h, 'm) env \<Rightarrow> thread \<Rightarrow> u32 \<Rightarrow> (mmreg_error, ('h, 'm) world, u32) prog" where
  "read_u32 E me off = pbind (device_read E me off WU32) (\<lambda>v. pret (ucast v))"

definition read_u64 :: "('h, 'm) env \<Rightarrow> thread \<Rightarrow> u32 \<Rightarrow> (mmreg_error, ('h, 'm) world, u64) prog" where
  "read_u64 E me off = device_read E me off WU64"

definition write_u8 :: "('h, 'm) env \<Rightarrow> thread \<Rightarrow> u32 \<Rightarrow> u8 \<Rightarrow> (mmreg_error, ('h, 'm) world, unit) prog" where
  "write_u8 E me off v = device_write E me off WU8 (ucast v)"

definition write_u16 :: "('h, 'm) env \<Rightarrow> thread \<Rightarrow> u32 \<Rightarrow> u16 \<Rightarrow> (mmreg_error, ('h, 'm) world, unit) prog" where
  "write_u16 E me off v = device_write E me off WU16 (ucast v)"

definition write_u32 :: "('h, 'm) env \<Rightarrow> thread \<Rightarrow> u32 \<Rightarrow> u32 \<Rightarrow> (mmreg_error, ('h, 'm) world, unit) prog" where
  "write_u32 E me off v = device_write E me off WU32 (ucast v)"

definition write_u64 :: "('h, 'm) env \<Rightarrow> thread \<Rightarrow> u32 \<Rightarrow> u64 \<Rightarrow> (mmreg_error, ('h, 'm) world, unit) prog" where
  "write_u64 E me off v = device_write E me off WU64 v"

section \<open>Interrupts\<close>

definition irq_error :: "'m device \<Rightarrow> io_error \<Rightarrow> mmreg_error" where
  "irq_error d e = UioIrq (case dv_device_path d of Some p \<Rightarrow> p | None \<Rightarrow> dv_name d) (ie_text e)"

definition irq_result :: "'m device \<Rightarrow> (io_error + 'a) option \<Rightarrow> (mmreg_error + 'a) option" where
  "irq_result d r = (case r of
       None \<Rightarrow> None
     | Some (Inl e) \<Rightarrow> Some (Inl (irq_error d e))
     | Some (Inr x) \<Rightarrow> Some (Inr x))"

definition device_irq_unmask :: "'m device \<Rightarrow> (io_error + nat) list \<Rightarrow> (mmreg_error + unit) option" where
  "device_irq_unmask d answers =
     (if dv_read_only d then Some (Inl (ReadOnly (dv_name d)))
      else case backend_uio_file (dv_backend d) of
        None \<Rightarrow> Some (Inl (UioRequired ''irq_unmask''))
      | Some f \<Rightarrow> irq_result d (irq_unmask answers))"

definition device_irq_wait ::
  "'m device \<Rightarrow> nat \<Rightarrow> nat \<Rightarrow> poll_turn list \<Rightarrow> (io_error + string) list
    \<Rightarrow> (mmreg_error + u32 option) option"
where
  "device_irq_wait d start timeout turns reads =
     (case backend_uio_file (dv_backend d) of
        None \<Rightarrow> Some (Inl (UioRequired ''irq_wait''))
      | Some f \<Rightarrow> irq_result d (irq_wait start timeout turns reads))"

section \<open>Dropping a device, and opening one\<close>

definition opt_arc_drop :: "nat option \<Rightarrow> lock_heap \<Rightarrow> lock_heap" where
  "opt_arc_drop a L = (case a of Some x \<Rightarrow> arc_drop x L | None \<Rightarrow> L)"

text \<open>\<open>Drop\<close> unmaps the backend (which is then gone), then the fields go in order.\<close>

definition device_drop :: "('h, 'm) world \<Rightarrow> 'h machine" where
  "device_drop = (\<lambda>(M, d). M\<lparr>
     mc_locks := opt_arc_drop (dv_base_page_lock d) (opt_arc_drop (dv_uio_lock d) (mc_locks M)),
     mc_fs := opt_pm_drop (dv_pm_guard d) (mc_fs M)\<rparr>)"

definition take_custom_mapper :: "('h, 'm) env \<Rightarrow> 'm device \<Rightarrow> 'm option \<times> 'm device" where
  "take_custom_mapper E d = (case backend_take_custom E (dv_backend d) of
       (m, bk) \<Rightarrow> (m, d\<lparr>dv_backend := bk\<rparr>))"

text \<open>A temporary device: opened, used once, dropped.\<close>

definition with_device ::
  "('h, 'm) env \<Rightarrow> 'm builder \<Rightarrow> (mmreg_error, ('h, 'm) world, 'a) prog \<Rightarrow> (mmreg_error, 'h machine, 'a) prog"
where
  "with_device E b act M = (case open_window E b M of
       Done (Inl e, M') \<Rightarrow> Done (Inl e, M')
     | Done (Inr d, M') \<Rightarrow> (case act (M', d) of
         Done (r, s) \<Rightarrow> Done (r, device_drop s) | Blocks \<Rightarrow> Blocks | Panics \<Rightarrow> Panics)
     | Blocks \<Rightarrow> Blocks
     | Panics \<Rightarrow> Panics)"

definition read_register_at ::
  "('h, 'm) env \<Rightarrow> thread \<Rightarrow> u64 \<Rightarrow> bool \<Rightarrow> (mmreg_error, 'h machine, u32) prog"
where
  "read_register_at E me address force M =
     (if address mod 4 \<noteq> 0 then Done (Inl (UnalignedAccess address 0), M)
      else with_device E (with_force force (with_read_only True (builder_new (Addr address 4))))
        (read_u32 E me 0) M)"

definition write_register_at ::
  "('h, 'm) env \<Rightarrow> thread \<Rightarrow> u64 \<Rightarrow> u32 \<Rightarrow> bool \<Rightarrow> (mmreg_error, 'h machine, unit) prog"
where
  "write_register_at E me address v force M =
     (if address mod 4 \<noteq> 0 then Done (Inl (UnalignedAccess address 0), M)
      else with_device E (with_force force (builder_new (Addr address 4))) (write_u32 E me 0 v) M)"

text \<open>\<open>DeviceBuilder::open\<close>.\<close>

definition device_open ::
  "('h, 'm) env \<Rightarrow> thread \<Rightarrow> 'm builder \<Rightarrow> (mmreg_error, 'h machine, 'm device) prog"
where
  "device_open E me b = (case bd_profile b of
       Some p \<Rightarrow> pbind (execute_with p (\<lambda>addr. read_register_at E me addr True)) (\<lambda>_. open_window E b)
     | None \<Rightarrow> open_window E b)"

text \<open>\<open>Device::uio\<close>, \<open>Device::uio_path\<close>, \<open>Device::addr\<close>, the openers made of them, and \<open>uio::find\<close>.\<close>

definition device_uio :: "string \<Rightarrow> 'm builder" where
  "device_uio nm = builder_new (UioName nm)"

definition device_uio_path :: "path \<Rightarrow> 'm builder" where
  "device_uio_path p = builder_new (UioPath p)"

definition device_addr :: "u64 \<Rightarrow> usize \<Rightarrow> 'm builder" where
  "device_addr base sz = builder_new (Addr base sz)"

definition open_uio :: "('h, 'm) env \<Rightarrow> thread \<Rightarrow> string \<Rightarrow> (mmreg_error, 'h machine, 'm device) prog" where
  "open_uio E me nm = device_open E me (device_uio nm)"

definition open_uio_path :: "('h, 'm) env \<Rightarrow> thread \<Rightarrow> path \<Rightarrow> (mmreg_error, 'h machine, 'm device) prog" where
  "open_uio_path E me p = device_open E me (device_uio_path p)"

definition open_addr :: "('h, 'm) env \<Rightarrow> thread \<Rightarrow> u64 \<Rightarrow> usize \<Rightarrow> (mmreg_error, 'h machine, 'm device) prog" where
  "open_addr E me base sz = device_open E me (device_addr base sz)"

definition uio_find :: "fs \<Rightarrow> string \<Rightarrow> mmreg_error + string" where
  "uio_find F nm = find_uio F nm"

section \<open>What a device tells of itself\<close>

definition device_name :: "'m device \<Rightarrow> string" where
  "device_name d = dv_name d"

definition device_base_address :: "'m device \<Rightarrow> u64" where
  "device_base_address d = dv_base d"

definition device_size :: "'m device \<Rightarrow> usize" where
  "device_size d = dv_size d"

definition device_is_read_only :: "'m device \<Rightarrow> bool" where
  "device_is_read_only d = dv_read_only d"

definition device_path :: "'m device \<Rightarrow> path option" where
  "device_path d = dv_device_path d"

definition device_warnings :: "'m device \<Rightarrow> string list" where
  "device_warnings d = dv_warnings d"

end
