(* ===== verification/LockPost.thy ===== *)
theory LockPost
  imports LockProto "HOL-Library.Multiset"
begin

text \<open>
  What the operations of \<open>src/lock.rs\<close> leave behind, in the form their callers need: opening a lock
  handle changes no holder, and a guard taken through any of the paths gives the holders back when
  it is dropped. The locale \<open>guard_service\<close> states this contract and derives from it that an
  operation run under a guard is balanced.
\<close>

section \<open>Holders\<close>

text \<open>Every lock that is held: its file, its owner and its depth.\<close>

type_synonym holder_map = "nat \<Rightarrow> (file_key \<times> thread \<times> nat) option"

definition holdings :: "lock_heap \<Rightarrow> holder_map" where
  "holdings st a = (case get_lock st a of
       Some l \<Rightarrow> map_option (\<lambda>t. (lock_key l, t, sl_depth l)) (sl_owner l) | None \<Rightarrow> None)"

lemma holdings_Some:
  "holdings st a = Some (k, t, n) \<longleftrightarrow>
     (\<exists>l. get_lock st a = Some l \<and> lock_key l = k \<and> sl_owner l = Some t \<and> sl_depth l = n)"
  by (auto simp: holdings_def split: option.splits)

lemma lock_view_holdings:
  assumes "reg_ok st"
  shows "lock_view st k = Some (t, n) \<longleftrightarrow> (\<exists>a. holdings st a = Some (k, t, n))"
proof
  assume v: "lock_view st k = Some (t, n)"
  then have "lock_view st k \<noteq> None" by simp
  then obtain a l where l: "get_lock st a = Some l" "lock_key l = k" "sl_owner l \<noteq> None"
    unfolding lock_view_None by blast
  then obtain u where u: "sl_owner l = Some u" by auto
  from lock_view_Some [OF assms l(1) u] l v have "u = t" "sl_depth l = n" by auto
  with l u show "\<exists>a. holdings st a = Some (k, t, n)"
    unfolding holdings_Some by blast
next
  assume "\<exists>a. holdings st a = Some (k, t, n)"
  then show "lock_view st k = Some (t, n)"
    using lock_view_Some [OF assms] by (auto simp: holdings_Some)
qed

text \<open>With the same holdings the files have the same holders.\<close>

lemma lock_view_cong:
  assumes "reg_ok st" "reg_ok st'" "holdings st = holdings st'"
  shows "lock_view st = lock_view st'"
proof
  fix k
  have "lock_view st k = Some x \<longleftrightarrow> lock_view st' k = Some x" for x
    by (cases x) (simp add: lock_view_holdings assms)
  then show "lock_view st k = lock_view st' k"
    by (metis not_None_eq)
qed

lemma holdings_set:
  assumes "get_lock st a = Some l"
    and "case x of None \<Rightarrow> sl_owner l = None
      | Some m \<Rightarrow> lock_key m = lock_key l \<and> sl_owner m = sl_owner l \<and> sl_depth m = sl_depth l"
  shows "holdings (set_lock a x st) = holdings st"
proof
  fix b
  show "holdings (set_lock a x st) b = holdings st b"
    using assms get_lock_SomeD [OF assms(1)]
    by (cases "b = a") (auto simp: holdings_def split: option.splits)
qed

lemma holdings_retain [simp]: "holdings (registry_retain st) = holdings st"
  by (simp add: holdings_def fun_eq_iff)

lemma holdings_clone: "holdings (arc_clone a st) = holdings st"
proof (cases "get_lock st a")
  case (Some l)
  then show ?thesis
    by (simp add: arc_clone_def holdings_set lock_key_def)
qed (simp add: arc_clone_def)

lemma holdings_push: "holdings (registry_push k f st) = holdings st"
proof
  fix b
  have "get_lock st (length (lh_locks st)) = None"
    by (simp add: get_lock_def)
  then show "holdings (registry_push k f st) b = holdings st b"
    by (simp add: holdings_def get_lock_push shared_lock_new_def)
qed

lemma holdings_arc_drop:
  assumes "lock_ok (a # hs) st"
  shows "holdings (arc_drop a st) = holdings st"
proof -
  obtain l where l: "get_lock st a = Some l"
    using lock_ok_live [OF assms, of a] by auto
  note b = lock_okD [OF assms l]
  show ?thesis
  proof (cases "sl_refs l \<le> 1")
    case True
    then have "sl_depth l = 0"
      using b(2) by simp
    then have "sl_owner l = None"
      using b(1) by simp
    then show ?thesis
      using True l by (simp add: arc_drop_def holdings_set)
  next
    case False
    then show ?thesis
      using l by (simp add: arc_drop_def holdings_set lock_key_def)
  qed
qed

section \<open>Lock states\<close>

text \<open>The invariants of a lock state with outstanding handles, and the holders in it.\<close>

definition locks_ok :: "nat list \<Rightarrow> lock_heap \<Rightarrow> bool" where
  "locks_ok hs st \<longleftrightarrow> lock_ok hs st \<and> reg_ok st"

lemma locks_ok_arc_drop:
  assumes "locks_ok (a # hs) st"
  shows "locks_ok hs (arc_drop a st)" "holdings (arc_drop a st) = holdings st"
proof -
  have ok: "lock_ok (a # hs) st" "reg_ok st"
    using assms by (auto simp: locks_ok_def)
  then show "locks_ok hs (arc_drop a st)"
    by (simp add: locks_ok_def arc_drop_ok arc_drop_reg_ok)
  show "holdings (arc_drop a st) = holdings st"
    using ok(1) by (rule holdings_arc_drop)
qed

lemma locks_ok_arc_drops:
  "locks_ok (xs @ hs) st
    \<Longrightarrow> locks_ok hs (fold arc_drop xs st) \<and> holdings (fold arc_drop xs st) = holdings st"
  by (induction xs arbitrary: st) (auto simp: locks_ok_arc_drop)

lemma lock_ok_perm: "mset hs = mset ks \<Longrightarrow> lock_ok hs st = lock_ok ks st"
proof -
  assume m: "mset hs = mset ks"
  have members: "set hs = set ks"
    using m by (rule mset_eq_setD)
  have counts: "count_list hs = count_list ks"
    using m by (metis count_mset ext)
  show ?thesis
    unfolding lock_ok_def members counts by (rule refl)
qed

lemma locks_ok_perm: "mset hs = mset ks \<Longrightarrow> locks_ok hs st = locks_ok ks st"
  unfolding locks_ok_def using lock_ok_perm by blast

text \<open>Opening a handle.\<close>

definition handle_post :: "nat list \<Rightarrow> lock_heap \<Rightarrow> 'e + nat \<Rightarrow> lock_heap \<Rightarrow> bool" where
  "handle_post hs st r st' \<longleftrightarrow> holdings st' = holdings st \<and>
     locks_ok (case r of Inl _ \<Rightarrow> hs | Inr a \<Rightarrow> a # hs) st'"

lemma insert_or_get_post:
  assumes "locks_ok hs st" "\<forall>f. mk = Inr f \<longrightarrow> fl_key f = k"
  shows "\<exists>r st'. insert_or_get_shared_lock k mk st = Done (r, st') \<and> handle_post hs st r st'"
proof -
  have ok: "lock_ok hs st" "reg_ok st"
    using assms(1) by (auto simp: locks_ok_def)
  have "\<exists>r st'. insert_or_get_shared_lock k mk st = Done (r, st')"
    by (auto simp: insert_or_get_shared_lock_def Let_def split: option.split sum.split)
  then obtain r st' where e: "insert_or_get_shared_lock k mk st = Done (r, st')"
    by blast
  have hold: "holdings st' = holdings st"
    using e by (auto simp: insert_or_get_shared_lock_def Let_def holdings_clone holdings_push
        split: option.splits sum.splits)
  have post: "reg_ok st'" "lock_ok (case r of Inl _ \<Rightarrow> hs | Inr a \<Rightarrow> a # hs) st'"
    using insert_or_get_inv [OF ok assms(2) e] by auto
  then show ?thesis
    using e hold by (simp add: handle_post_def locks_ok_def)
qed

lemma registered_post:
  assumes "locks_ok hs st" "\<forall>f. mk = Inr f \<longrightarrow> fl_key f = k"
  shows "\<exists>r st'. registered k p mk st = Done (r, st') \<and> handle_post hs st r st'"
proof -
  obtain r st' where e: "insert_or_get_shared_lock k mk st = Done (r, st')" "handle_post hs st r st'"
    using insert_or_get_post [OF assms] by blast
  then show ?thesis
    by (cases r) (auto simp: registered_def handle_post_def)
qed

lemma handle_post_refl: "locks_ok hs st \<Longrightarrow> handle_post hs st (Inl e) st"
  by (simp add: handle_post_def)

lemma from_open_file_post:
  "locks_ok hs st \<Longrightarrow> \<exists>r st'. from_open_file E f p st = Done (r, st') \<and> handle_post hs st r st'"
proof (cases "file_key_of E f")
  case (Inr k)
  assume "locks_ok hs st"
  moreover have "\<forall>g. try_clone E f = Inr g \<longrightarrow> fl_key g = k"
    using Inr by (auto simp: try_clone_def file_key_of_def split: option.splits)
  ultimately show ?thesis
    using registered_post [of hs st "try_clone E f" k p] Inr by (simp add: from_open_file_def)
qed (auto simp: from_open_file_def handle_post_refl)

lemma from_file_post:
  "locks_ok hs st \<Longrightarrow> \<exists>r st'. from_file E f p st = Done (r, st') \<and> handle_post hs st r st'"
proof (cases "file_key_of E f")
  case (Inr k)
  assume "locks_ok hs st"
  moreover have "\<forall>g. Inr f = Inr g \<longrightarrow> fl_key g = k"
    using Inr by (auto simp: file_key_of_def split: option.splits)
  ultimately show ?thesis
    using registered_post [of hs st "Inr f" k p] Inr by (simp add: from_file_def)
qed (auto simp: from_file_def handle_post_refl)

lemma device_lock_open_post:
  "locks_ok hs st \<Longrightarrow> \<exists>r st'. device_lock_open E p st = Done (r, st') \<and> handle_post hs st r st'"
  by (cases "le_open E p") (auto simp: device_lock_open_def handle_post_refl from_file_post)

lemma open_page_post:
  "locks_ok hs st \<Longrightarrow> \<exists>r st'. open_page E page a st = Done (r, st') \<and> handle_post hs st r st'"
  by (cases "open_lock_file E (path_join (lock_dir E) (page_lock_name page a))")
    (auto simp: open_page_def open_page_in_def handle_post_refl from_file_post)

section \<open>The contract of a guard\<close>

text \<open>
  \<open>guard_service\<close>: what a caller of a lock relies on. Taking a guard may fail or wait; a guard that
  was taken can always be dropped, and dropping it gives back the holders from before, with the
  invariant. The client is a device access that runs under the guard (in \<open>DeviceSpec\<close>).
\<close>

locale guard_service =
  fixes ok :: "lock_heap \<Rightarrow> bool"
    and take_guard :: "lock_heap \<Rightarrow> ((mmreg_error + held) \<times> lock_heap) run"
  assumes take_Inl: "ok st \<Longrightarrow> take_guard st = Done (Inl e, st') \<Longrightarrow> ok st' \<and> holdings st' = holdings st"
    and take_Inr: "ok st \<Longrightarrow> take_guard st = Done (Inr g, st') \<Longrightarrow>
      \<exists>st''. guard_drop g st' = Done st'' \<and> ok st'' \<and> holdings st'' = holdings st"
    and no_panic: "ok st \<Longrightarrow> take_guard st \<noteq> Panics"
begin

text \<open>The three outcomes of taking a guard.\<close>

lemma take_cases:
  assumes "ok st"
  obtains (failed) e st' where "take_guard st = Done (Inl e, st')" "ok st'" "holdings st' = holdings st"
    | (taken) g st' st'' where "take_guard st = Done (Inr g, st')" "guard_drop g st' = Done st''"
        "ok st''" "holdings st'' = holdings st"
    | (waits) "take_guard st = Blocks"
proof (cases "take_guard st")
  case (Done y)
  then obtain x st' where t: "take_guard st = Done (x, st')"
    by (cases y) auto
  show ?thesis
  proof (cases x)
    case (Inl e)
    with t take_Inl [OF assms, of e st'] show ?thesis
      by (intro failed [of e st']) auto
  next
    case (Inr g)
    with t take_Inr [OF assms, of g st'] show ?thesis
      by (auto intro: taken)
  qed
next
  case Panics
  with no_panic [OF assms] show ?thesis by blast
qed (rule waits)

end

text \<open>A handle's own lock.\<close>

interpretation handle_guard: guard_service "locks_ok (a # hs)" "acquire me a" for a hs me
proof unfold_locales
  fix st st' e
  assume "locks_ok (a # hs) st" "acquire me a st = Done (Inl e, st')"
  then show "locks_ok (a # hs) st' \<and> holdings st' = holdings st"
    by (auto dest: acquire_Inl)
next
  fix st st' g
  assume ok: "locks_ok (a # hs) st" and t: "acquire me a st = Done (Inr g, st')"
  then show "\<exists>st''. guard_drop g st' = Done st'' \<and> locks_ok (a # hs) st'' \<and> holdings st'' = holdings st"
    using release_acquire(2) [OF t] by (auto simp: locks_ok_def)
next
  fix st
  assume "locks_ok (a # hs) st"
  then obtain l where "get_lock st a = Some l"
    using lock_ok_live [of "a # hs" st a] by (auto simp: locks_ok_def)
  then show "acquire me a st \<noteq> Panics"
    by (rule acquire_no_panic)
qed

text \<open>The lock of a page, opened for one access.\<close>

lemma lock_page_opens:
  assumes "locks_ok hs st"
  obtains (failed) e st1 where "lock_page_in E page me (lock_dir E) address st = Done (Inl e, st1)"
      "locks_ok hs st1" "holdings st1 = holdings st"
    | (opened) a st1 where "locks_ok (a # hs) st1" "holdings st1 = holdings st"
      "lock_page_in E page me (lock_dir E) address st = (case acquire me a st1 of
         Done (r, st2) \<Rightarrow> Done (r, arc_drop a st2) | Blocks \<Rightarrow> Blocks | Panics \<Rightarrow> Panics)"
proof -
  obtain r st1 where o: "open_page_in E page (lock_dir E) address st = Done (r, st1)" "handle_post hs st r st1"
    using open_page_post [OF assms, of E page address] by (auto simp: open_page_def)
  show ?thesis
  proof (cases r)
    case (Inl e)
    with o show ?thesis by (intro failed [of e st1]) (simp_all add: lock_page_in_def handle_post_def)
  next
    case (Inr a)
    with o show ?thesis by (intro opened [of a st1]) (simp_all add: lock_page_in_def handle_post_def)
  qed
qed

interpretation page_guard: guard_service "locks_ok hs" "lock_page_in E page me (lock_dir E) address"
  for hs E page me address
proof unfold_locales
  fix st st' e
  assume ok: "locks_ok hs st" and t: "lock_page_in E page me (lock_dir E) address st = Done (Inl e, st')"
  from ok show "locks_ok hs st' \<and> holdings st' = holdings st"
  proof (cases rule: lock_page_opens [where E = E and page = page and me = me and address = address])
    case (opened a st1)
    from opened(3) t obtain st2 where "acquire me a st1 = Done (Inl e, st2)" "st' = arc_drop a st2"
      by (auto split: run.splits)
    with opened show ?thesis
      by (auto dest: acquire_Inl simp: locks_ok_arc_drop)
  qed (use t in simp)
next
  fix st st' g
  assume ok: "locks_ok hs st" and t: "lock_page_in E page me (lock_dir E) address st = Done (Inr g, st')"
  from ok show "\<exists>st''. guard_drop g st' = Done st'' \<and> locks_ok hs st'' \<and> holdings st'' = holdings st"
  proof (cases rule: lock_page_opens [where E = E and page = page and me = me and address = address])
    case (opened a st1)
    from opened(3) t obtain st2 where a: "acquire me a st1 = Done (Inr g, st2)" "st' = arc_drop a st2"
      by (auto split: run.splits)
    have l: "lock_ok (a # hs) st1" "lock_ok (a # hs) st2"
      using opened(1) acquire_ok [OF a(1)] by (auto simp: locks_ok_def)
    have "guard_drop g st2 = Done st1"
      using release_acquire(2) [OF a(1) l(1)] .
    then have "guard_drop g st' = Done (arc_drop a st1)"
      unfolding a(2) using l(2) by (intro guard_drop_arc_drop)
    with opened show ?thesis
      by (simp add: locks_ok_arc_drop)
  qed (use t in simp)
next
  fix st
  assume ok: "locks_ok hs st"
  then show "lock_page_in E page me (lock_dir E) address st \<noteq> Panics"
  proof (cases rule: lock_page_opens [where E = E and page = page and me = me and address = address])
    case (opened a st1)
    then show ?thesis
      using handle_guard.no_panic [of a hs st1 me] by (auto split: run.splits)
  qed simp
qed

end
