(* ===== verification/DeviceSpec.thy ===== *)
theory DeviceSpec
  imports Device LockPost
begin

text \<open>
  The properties of \<open>Device\<close>: what an access is checked for, that it is balanced in the locks and does
  not panic, what the pages of a sequence cover, and what reaches the bus.
\<close>

section \<open>The access check\<close>

lemma word_mod_width: "(a :: u64) mod width_bytes w = 0 \<longleftrightarrow> unat (width_bytes w) dvd unat a"
  by (rule width_dvd_iff)

lemma check_access_cases:
  "check_access d off w wr =
     (if wr \<and> dv_read_only d then Inl (ReadOnly (dv_name d))
      else if \<not> (unat (width_bytes w) dvd unat off
          \<and> unat (width_bytes w) dvd (unat (dv_base d) + unat off) mod 2 ^ 64)
        then Inl (UnalignedWidthAccess (dv_base d) off (width_bits w))
      else if unat (dv_size d) < unat off + unat (width_bytes w)
        then Inl (OutOfBoundsAccess (dv_name d) off (width_bytes w) (dv_size d))
      else Inr (dv_base d + ucast off))"
proof -
  have a: "unat (dv_base d + ucast off :: u64) = (unat (dv_base d) + unat off) mod 2 ^ 64"
    by (simp add: unat_word_ariths)
  have "unat off < 2 ^ 32"
    using unat_bound [of off] by simp
  moreover have "unat (width_bytes w) \<le> 8"
    by (cases w) auto
  ultimately have "unat (ucast off :: usize) + unat (width_bytes w) < 2 ^ 64"
    by simp
  then have "checked_add (ucast off) (width_bytes w) = Some (ucast off + width_bytes w)"
    and "unat (ucast off + width_bytes w :: usize) = unat off + unat (width_bytes w)"
    by (simp_all add: checked_add_def unat_add_no_wrap)
  then have b: "(case checked_add (ucast off) (width_bytes w) of None \<Rightarrow> True | Some fin \<Rightarrow> fin > dv_size d)
      \<longleftrightarrow> unat (dv_size d) < unat off + unat (width_bytes w)"
    by (simp add: word_less_nat_alt)
  show ?thesis
    unfolding check_access_def Let_def word_mod_width a b by simp
qed

text \<open>
  An access is allowed exactly when it is not a write to a read-only device, the offset and the
  effective address are multiples of its size, and it ends inside the window; the effective address
  is the sum modulo \<open>2^64\<close>. The errors come in that order.
\<close>

theorem check_access_spec:
  "check_access d off w wr =
     (if wr \<and> dv_read_only d then Inl (ReadOnly (dv_name d))
      else if \<not> (unat (width_bytes w) dvd unat off
          \<and> unat (width_bytes w) dvd (unat (dv_base d) + unat off) mod 2 ^ 64)
        then Inl (UnalignedWidthAccess (dv_base d) off (width_bits w))
      else if unat (dv_size d) < unat off + unat (width_bytes w)
        then Inl (OutOfBoundsAccess (dv_name d) off (width_bytes w) (dv_size d))
      else Inr (dv_base d + ucast off))"
  by (rule check_access_cases)

lemma check_access_Inr:
  "check_access d off w wr = Inr a \<longleftrightarrow>
     \<not> (wr \<and> dv_read_only d) \<and> unat (width_bytes w) dvd unat off
     \<and> unat (width_bytes w) dvd (unat (dv_base d) + unat off) mod 2 ^ 64
     \<and> unat off + unat (width_bytes w) \<le> unat (dv_size d) \<and> a = dv_base d + ucast off"
  unfolding check_access_cases by auto

lemma width_dvd_pow: "unat (width_bytes w) dvd 2 ^ 64"
  by (cases w) (simp_all add: dvd_eq_mod_eq_0)

text \<open>Alignment modulo \<open>2^64\<close> is alignment.\<close>

lemma width_dvd_mod: "unat (width_bytes w) dvd n mod 2 ^ 64 \<longleftrightarrow> unat (width_bytes w) dvd n"
  by (rule dvd_mod_iff) (rule width_dvd_pow)

section \<open>Accesses are balanced\<close>

definition dev_handles :: "'m device \<Rightarrow> nat list" where
  "dev_handles d = (case dv_uio_lock d of Some a \<Rightarrow> [a] | None \<Rightarrow> [])
     @ (case dv_base_page_lock d of Some a \<Rightarrow> [a] | None \<Rightarrow> [])"

text \<open>The locks of the machine are in order, with the handles of the device and others \<open>hs\<close>.\<close>

definition world_ok :: "nat list \<Rightarrow> ('h, 'm) world \<Rightarrow> bool" where
  "world_ok hs = (\<lambda>(M, d). locks_ok (dev_handles d @ hs) (mc_locks M))"

definition holders :: "('h, 'm) world \<Rightarrow> holder_map" where
  "holders = (\<lambda>(M, d). holdings (mc_locks M))"

text \<open>A body that leaves locks and handles alone, and does not panic.\<close>

definition keeps_locks :: "(('h, 'm) world \<Rightarrow> ('a \<times> ('h, 'm) world) run) \<Rightarrow> bool" where
  "keeps_locks body \<longleftrightarrow> (\<forall>M d x M' d'. body (M, d) = Done (x, (M', d'))
     \<longrightarrow> mc_locks M' = mc_locks M \<and> dev_handles d' = dev_handles d)"

lemma keeps_locksD:
  "keeps_locks body \<Longrightarrow> body (M, d) = Done (x, (M', d'))
    \<Longrightarrow> mc_locks M' = mc_locks M \<and> dev_handles d' = dev_handles d"
  unfolding keeps_locks_def by blast

text \<open>What a locked operation leaves: the same holders, and the locks in order.\<close>

definition balanced :: "nat list \<Rightarrow> ('h, 'm) world \<Rightarrow> (('e + 'a) \<times> ('h, 'm) world) run \<Rightarrow> bool" where
  "balanced hs s r \<longleftrightarrow> (case r of
       Done (_, s') \<Rightarrow> world_ok hs s' \<and> holders s' = holders s
     | Blocks \<Rightarrow> True
     | Panics \<Rightarrow> False)"

lemma on_locks_Done:
  "p (mc_locks M) = Done (r, L) \<Longrightarrow> on_locks p (M, d) = Done (r, (M\<lparr>mc_locks := L\<rparr>, d))"
  by (simp add: on_locks_def)

context guard_service
begin

text \<open>The client: a body under a guard, on a device whose handles the service's invariant covers.\<close>

lemma with_guard_balanced:
  assumes "\<And>st. ok st \<longleftrightarrow> locks_ok (dev_handles d @ hs) st" "world_ok hs (M, d)" "keeps_locks body"
    and "\<And>L. body (M\<lparr>mc_locks := L\<rparr>, d) \<noteq> Panics"
  shows "balanced hs (M, d) (with_guard (on_locks take_guard) body (M, d))"
proof -
  have ok: "ok (mc_locks M)"
    using assms(1,2) by (simp add: world_ok_def)
  show ?thesis
    using ok
  proof (cases rule: take_cases)
    case (failed e st')
    then show ?thesis
      using assms(1) by (simp add: with_guard_def on_locks_Done balanced_def world_ok_def holders_def)
  next
    case (taken g st' st'')
    show ?thesis
    proof (cases "body (M\<lparr>mc_locks := st'\<rparr>, d)")
      case (Done y)
      then obtain x M' d' where b: "body (M\<lparr>mc_locks := st'\<rparr>, d) = Done (x, (M', d'))"
        by (cases y) auto
      then have "mc_locks M' = st'" "dev_handles d' = dev_handles d"
        using keeps_locksD [OF assms(3) b] by simp_all
      then show ?thesis
        using taken b assms(1)
        by (simp add: with_guard_def on_locks_Done balanced_def world_ok_def holders_def)
    next
      case Blocks
      then show ?thesis
        using taken by (simp add: with_guard_def on_locks_Done balanced_def)
    next
      case Panics
      with assms(4) show ?thesis by blast
    qed
  next
    case waits
    then show ?thesis
      by (simp add: with_guard_def on_locks_def balanced_def)
  qed
qed

end

lemma with_guard_pbind: "with_guard (pbind p f) body s = pbind p (\<lambda>a. with_guard (f a) body) s"
  by (auto simp: with_guard_def pbind_def split: run.split sum.split)

text \<open>The first access of a device without a lock of its own opens its page lock and caches it.\<close>

lemma fresh_lock_balanced:
  assumes "world_ok hs (M, d)" "keeps_locks body"
    and "\<And>L c. body (M\<lparr>mc_locks := L\<rparr>, d\<lparr>dv_base_page_lock := c\<rparr>) \<noteq> Panics"
    and fresh: "dv_uio_lock d = None" "dv_base_page_lock d = None"
      "page_base (page_size (ev_kernel E)) address = page_base (page_size (ev_kernel E)) (dv_base d)"
  shows "balanced hs (M, d) (with_guard (lock_at E me address) body (M, d))"
proof -
  let ?page = "page_size (ev_kernel E)"
  have h: "locks_ok hs (mc_locks M)" "dev_handles d = []"
    using assms(1) fresh by (simp_all add: world_ok_def dev_handles_def)
  obtain r L where o: "open_page (ev_lock E) ?page (dv_base d) (mc_locks M) = Done (r, L)"
    "handle_post hs (mc_locks M) r L"
    using open_page_post [OF h(1)] by blast
  have eq: "with_guard (lock_at E me address) body (M, d) =
      pbind (on_locks (open_page (ev_lock E) ?page (dv_base d))) (\<lambda>a.
        pbind (set_base_page_lock a) (\<lambda>_. with_guard (on_locks (acquire me a)) body)) (M, d)"
    using fresh by (simp add: lock_at_def with_guard_def [of "\<lambda>s. lock_at E me address s"] Let_def)
      (simp add: with_guard_def pbind_def lock_at_def split: run.split sum.split)
  show ?thesis
  proof (cases r)
    case (Inl e)
    then show ?thesis
      using o h by (simp add: eq pbind_def on_locks_Done balanced_def world_ok_def handle_post_def
          dev_handles_def fresh holders_def)
  next
    case (Inr a)
    let ?M = "M\<lparr>mc_locks := L\<rparr>" and ?d = "d\<lparr>dv_base_page_lock := Some a\<rparr>"
    have w: "world_ok hs (?M, ?d)" and hold: "holders (?M, ?d) = holders (M, d)"
      using o Inr fresh by (simp_all add: world_ok_def dev_handles_def handle_post_def holders_def)
    have "balanced hs (?M, ?d) (with_guard (on_locks (acquire me a)) body (?M, ?d))"
      by (rule handle_guard.with_guard_balanced [of a hs])
        (use w assms(2,3) fresh in \<open>auto simp: dev_handles_def\<close>)
    then show ?thesis
      using o Inr hold
      by (auto simp: eq pbind_def on_locks_Done set_base_page_lock_def balanced_def
          split: run.splits prod.splits sum.splits)
  qed
qed

lemma lock_at_balanced:
  assumes "world_ok hs (M, d)" "keeps_locks body"
    and "\<And>L c. body (M\<lparr>mc_locks := L\<rparr>, d\<lparr>dv_base_page_lock := c\<rparr>) \<noteq> Panics"
  shows "balanced hs (M, d) (with_guard (lock_at E me address) body (M, d))"
proof -
  let ?page = "page_size (ev_kernel E)"
  have nd: "body (M\<lparr>mc_locks := L\<rparr>, d) \<noteq> Panics" for L
    using assms(3) [of L "dv_base_page_lock d"] by simp
  consider (uio) a where "dv_uio_lock d = Some a"
    | (cached) a where "dv_uio_lock d = None" "dv_base_page_lock d = Some a"
        "page_base ?page address = page_base ?page (dv_base d)"
    | (fresh) "dv_uio_lock d = None" "dv_base_page_lock d = None"
        "page_base ?page address = page_base ?page (dv_base d)"
    | (other) "dv_uio_lock d = None" "page_base ?page address \<noteq> page_base ?page (dv_base d)"
    by (cases "dv_uio_lock d"; cases "dv_base_page_lock d") auto
  then show ?thesis
  proof cases
    case uio
    let ?rest = "(case dv_base_page_lock d of Some b \<Rightarrow> [b] | None \<Rightarrow> []) @ hs"
    have "balanced hs (M, d) (with_guard (on_locks (acquire me a)) body (M, d))"
      by (rule handle_guard.with_guard_balanced [of a ?rest]) (use assms(1,2) nd uio in \<open>auto simp: dev_handles_def\<close>)
    then show ?thesis
      using uio by (simp add: lock_at_def with_guard_def)
  next
    case cached
    have "balanced hs (M, d) (with_guard (on_locks (acquire me a)) body (M, d))"
      by (rule handle_guard.with_guard_balanced [of a hs]) (use assms(1,2) nd cached in \<open>auto simp: dev_handles_def\<close>)
    then show ?thesis
      using cached by (simp add: lock_at_def with_guard_def)
  next
    case other
    have "balanced hs (M, d) (with_guard (on_locks (lock_page_in (ev_lock E) ?page me (lock_dir (ev_lock E))
        (page_base ?page address))) body (M, d))"
      by (rule page_guard.with_guard_balanced [of "dev_handles d @ hs"]) (use assms(1,2) nd in auto)
    then show ?thesis
      using other by (simp add: lock_at_def with_guard_def lock_at_or_page_def Let_def)
  next
    case fresh
    with assms show ?thesis by (intro fresh_lock_balanced)
  qed
qed

lemma keeps_backend_read: "keeps_locks (backend_read E off w)"
  by (auto simp: keeps_locks_def backend_read_def dev_handles_def split: backend.splits run.splits)

lemma keeps_backend_write: "backend_write E off w v (M, d) = Done (M', d')
    \<Longrightarrow> mc_locks M' = mc_locks M \<and> dev_handles d' = dev_handles d"
  by (auto simp: backend_write_def dev_handles_def split: backend.splits run.splits)

lemma keeps_write_body: "keeps_locks (write_body E off w v)"
  by (auto simp: keeps_locks_def write_body_def dest: keeps_backend_write split: run.splits)

lemma keeps_update_body: "keeps_locks (update_body E off msk v)"
  unfolding keeps_locks_def
  by (auto simp: update_body_def Let_def split: run.splits
      dest!: keeps_backend_write keeps_locksD [OF keeps_backend_read])

section \<open>A mapped device\<close>

text \<open>
  A device is mapped when its backend holds a window of its size, anchored at its base modulo 8. For
  a custom mapper this is the trait's contract (the locale \<open>memory_mapper\<close> with a window function).
\<close>

definition dev_mapped ::
  "('h, 'm) env \<Rightarrow> ('m \<Rightarrow> bool) \<Rightarrow> ('m \<Rightarrow> u64 \<times> usize \<Rightarrow> bool) \<Rightarrow> ('h, 'm) world \<Rightarrow> bool"
where
  "dev_mapped E okay win = (\<lambda>(M, d). case dv_backend d of
       BOs om \<Rightarrow> os_okay (ev_kernel E) (om, mc_hw M)
         \<and> (\<exists>b. os_win (om, mc_hw M) (b, dv_size d) \<and> unat b mod 8 = unat (dv_base d) mod 8)
     | BCustom m \<Rightarrow> okay m
         \<and> (\<exists>b. win m (b, dv_size d) \<and> unat b mod 8 = unat (dv_base d) mod 8))"

lemma check_access_in_window:
  assumes "check_access d off w wr = Inr a" "unat b mod 8 = unat (dv_base d) mod 8"
  shows "in_window (b, dv_size d) off w"
  using assms unfolding check_access_Inr width_dvd_mod by (intro os.in_window_mapped) auto

text \<open>
  Reads and writes that passed the check return, and the device stays mapped.
\<close>

lemma mapped_read:
  assumes "memory_mapper okay win (ev_vt E)" "dev_mapped E okay win (M, d)"
    and "check_access d off w wr = Inr a"
  shows "\<exists>v M' d'. backend_read E off w (M, d) = Done (v, (M', d')) \<and> v = width_cut w v
    \<and> dev_mapped E okay win (M', d') \<and> dv_base d' = dv_base d \<and> dv_size d' = dv_size d
    \<and> dv_read_only d' = dv_read_only d"
proof (cases "dv_backend d")
  case (BOs om)
  with assms(2) obtain b where b: "os_okay (ev_kernel E) (om, mc_hw M)"
    "os_win (om, mc_hw M) (b, dv_size d)" "unat b mod 8 = unat (dv_base d) mod 8"
    by (auto simp: dev_mapped_def)
  obtain v s' where r: "vt_read (os_vt (ev_debug E) (ev_kernel E) (mc_fs M)) off w (om, mc_hw M) = Done (v, s')"
    "v = width_cut w v" "os_okay (ev_kernel E) s'" "os_win s' = os_win (om, mc_hw M)"
    using os.read_in [OF b(1,2) check_access_in_window [OF assms(3) b(3)]] by blast
  from r(1) obtain h where h: "os_read (ev_kernel E) om off w (mc_hw M) = Done (v, h)" "s' = (om, h)"
    by (auto simp: os_vt_def split: run.splits)
  show ?thesis
    using r h b BOs by (auto simp: backend_read_def dev_mapped_def os_win_def)
next
  case (BCustom m)
  with assms(2) obtain b where b: "okay m" "win m (b, dv_size d)"
    "unat b mod 8 = unat (dv_base d) mod 8"
    by (auto simp: dev_mapped_def)
  obtain v m' where r: "vt_read (ev_vt E) off w m = Done (v, m')" "v = width_cut w v" "okay m'" "win m' = win m"
    using memory_mapper.read_in [OF assms(1) b(1,2) check_access_in_window [OF assms(3) b(3)]] by blast
  then show ?thesis
    using b BCustom by (auto simp: backend_read_def dev_mapped_def)
qed

lemma mapped_write:
  assumes "memory_mapper okay win (ev_vt E)" "dev_mapped E okay win (M, d)"
    and "check_access d off w wr = Inr a"
  shows "\<exists>M' d'. backend_write E off w v (M, d) = Done (M', d')
    \<and> dev_mapped E okay win (M', d') \<and> dv_base d' = dv_base d \<and> dv_size d' = dv_size d
    \<and> dv_read_only d' = dv_read_only d"
proof (cases "dv_backend d")
  case (BOs om)
  with assms(2) obtain b where b: "os_okay (ev_kernel E) (om, mc_hw M)"
    "os_win (om, mc_hw M) (b, dv_size d)" "unat b mod 8 = unat (dv_base d) mod 8"
    by (auto simp: dev_mapped_def)
  obtain s' where r: "vt_write (os_vt (ev_debug E) (ev_kernel E) (mc_fs M)) off w v (om, mc_hw M) = Done s'"
    "os_okay (ev_kernel E) s'" "os_win s' = os_win (om, mc_hw M)"
    using os.write_in [OF b(1,2) check_access_in_window [OF assms(3) b(3)]] by blast
  from r(1) obtain h where h: "os_write (ev_kernel E) om off w v (mc_hw M) = Done h" "s' = (om, h)"
    by (auto simp: os_vt_def split: run.splits)
  show ?thesis
    using r h b BOs by (auto simp: backend_write_def dev_mapped_def os_win_def)
next
  case (BCustom m)
  with assms(2) obtain b where b: "okay m" "win m (b, dv_size d)"
    "unat b mod 8 = unat (dv_base d) mod 8"
    by (auto simp: dev_mapped_def)
  obtain m' where r: "vt_write (ev_vt E) off w v m = Done m'" "okay m'" "win m' = win m"
    using memory_mapper.write_in [OF assms(1) b(1,2) check_access_in_window [OF assms(3) b(3)]] by blast
  then show ?thesis
    using b BCustom by (auto simp: backend_write_def dev_mapped_def)
qed

lemma check_access_cong:
  "dv_base d' = dv_base d \<Longrightarrow> dv_size d' = dv_size d \<Longrightarrow> dv_read_only d' = dv_read_only d
    \<Longrightarrow> check_access d off w wr = Inr a \<Longrightarrow> check_access d' off w wr = Inr a"
  by (simp add: check_access_Inr)

lemma mapped_update:
  assumes "memory_mapper okay win (ev_vt E)" "dev_mapped E okay win (M, d)"
    and "check_access d off WU32 True = Inr a"
  shows "update_body E off msk v (M, d) \<noteq> Panics"
proof -
  obtain x M1 d1 where r: "backend_read E off WU32 (M, d) = Done (x, (M1, d1))"
    "dev_mapped E okay win (M1, d1)" "dv_base d1 = dv_base d" "dv_size d1 = dv_size d"
    "dv_read_only d1 = dv_read_only d"
    using mapped_read [OF assms] by blast
  have "check_access d1 off WU32 True = Inr a"
    using r(3-5) assms(3) by (rule check_access_cong)
  from mapped_write [OF assms(1) r(2) this] obtain M2 d2 where
    "backend_write E off WU32 (ucast (replace_bits (ucast x) msk v)) (M1, d1) = Done (M2, d2)"
    by blast
  with r(1) show ?thesis
    by (simp add: update_body_def Let_def)
qed

lemma dev_mapped_locks:
  "dev_mapped E okay win (M\<lparr>mc_locks := L\<rparr>, d\<lparr>dv_base_page_lock := c\<rparr>) = dev_mapped E okay win (M, d)"
  by (simp add: dev_mapped_def split: backend.split)

lemma device_access_balanced:
  assumes "world_ok hs (M, d)" "keeps_locks body"
    and "\<And>a L c. check_access d off w wr = Inr a
      \<Longrightarrow> body (M\<lparr>mc_locks := L\<rparr>, d\<lparr>dv_base_page_lock := c\<rparr>) \<noteq> Panics"
  shows "balanced hs (M, d) (device_access E me off w wr body (M, d))"
proof (cases "check_access d off w wr")
  case (Inl e)
  then show ?thesis
    using assms(1) by (simp add: device_access_def balanced_def)
next
  case (Inr a)
  then show ?thesis
    using lock_at_balanced [OF assms(1,2)] assms(3) by (simp add: device_access_def)
qed

lemma check_access_page:
  "check_access (d\<lparr>dv_base_page_lock := c\<rparr>) off w wr = Inr a \<longleftrightarrow> check_access d off w wr = Inr a"
  by (simp add: check_access_Inr)

lemma read_balanced:
  assumes "memory_mapper okay win (ev_vt E)" "dev_mapped E okay win (M, d)" "world_ok hs (M, d)"
  shows "balanced hs (M, d) (device_read E me off w (M, d))"
  unfolding device_read_def
proof (rule device_access_balanced [OF assms(3) keeps_backend_read])
  fix a L c
  assume "check_access d off w False = Inr a"
  then have "check_access (d\<lparr>dv_base_page_lock := c\<rparr>) off w False = Inr a"
    by (simp add: check_access_page)
  from mapped_read [OF assms(1) _ this, where M = "M\<lparr>mc_locks := L\<rparr>"] assms(2)
  show "backend_read E off w (M\<lparr>mc_locks := L\<rparr>, d\<lparr>dv_base_page_lock := c\<rparr>) \<noteq> Panics"
    unfolding dev_mapped_locks by (metis run.distinct(3))
qed

lemma write_balanced:
  assumes "memory_mapper okay win (ev_vt E)" "dev_mapped E okay win (M, d)" "world_ok hs (M, d)"
  shows "balanced hs (M, d) (device_write E me off w v (M, d))"
  unfolding device_write_def
proof (rule device_access_balanced [OF assms(3) keeps_write_body])
  fix a L c
  assume "check_access d off w True = Inr a"
  then have "check_access (d\<lparr>dv_base_page_lock := c\<rparr>) off w True = Inr a"
    by (simp add: check_access_page)
  from mapped_write [OF assms(1) _ this, where M = "M\<lparr>mc_locks := L\<rparr>" and v = v] assms(2)
  obtain M' d' where
    "backend_write E off w v (M\<lparr>mc_locks := L\<rparr>, d\<lparr>dv_base_page_lock := c\<rparr>) = Done (M', d')"
    unfolding dev_mapped_locks by blast
  then show "write_body E off w v (M\<lparr>mc_locks := L\<rparr>, d\<lparr>dv_base_page_lock := c\<rparr>) \<noteq> Panics"
    by (simp add: write_body_def)
qed

lemma update_balanced:
  assumes "memory_mapper okay win (ev_vt E)" "dev_mapped E okay win (M, d)" "world_ok hs (M, d)"
  shows "balanced hs (M, d) (update_u32 E me off msk x (M, d))"
  unfolding update_u32_def
proof (rule device_access_balanced [OF assms(3) keeps_update_body])
  fix a L c
  assume "check_access d off WU32 True = Inr a"
  then have "check_access (d\<lparr>dv_base_page_lock := c\<rparr>) off WU32 True = Inr a"
    by (simp add: check_access_page)
  from mapped_update [OF assms(1) _ this, where M = "M\<lparr>mc_locks := L\<rparr>"] assms(2)
  show "update_body E off msk x (M\<lparr>mc_locks := L\<rparr>, d\<lparr>dv_base_page_lock := c\<rparr>) \<noteq> Panics"
    unfolding dev_mapped_locks by blast
qed

text \<open>
  C2: on a mapped device no access panics, whatever its offset and width, and every access gives
  back the locks it took: when it returns, with a value or an error, every file of the process is
  held by the same thread with the same number of guards as before, so a sequence guard held around
  it still holds, and nothing else is left locked.
\<close>

theorem accesses_are_balanced:
  assumes "memory_mapper okay win (ev_vt E)" "dev_mapped E okay win (M, d)" "world_ok hs (M, d)"
  shows "balanced hs (M, d) (device_read E me off w (M, d))
    \<and> balanced hs (M, d) (device_write E me off w v (M, d))
    \<and> balanced hs (M, d) (update_u32 E me off msk x (M, d))"
  using read_balanced [OF assms] write_balanced [OF assms] update_balanced [OF assms] by blast

text \<open>
  A mapped 32-byte device at \<open>0xA0000010\<close>, on a machine with two free locks held as handles
  elsewhere; every page lock opens a third file.
\<close>

definition sample_lock_env :: lock_env where
  "sample_lock_env = \<lparr>le_stat_err = (\<lambda>_. None), le_dup_err = (\<lambda>_. None),
     le_open = (\<lambda>p. Inr \<lparr>fl_path = p, fl_key = (1, 9)\<rparr>),
     le_create = (\<lambda>p. Inr \<lparr>fl_path = p, fl_key = (1, 9)\<rparr>),
     le_reopen = (\<lambda>p. Inr \<lparr>fl_path = p, fl_key = (1, 9)\<rparr>), le_is_dir = (\<lambda>_. True)\<rparr>"

definition sample_env :: "(u64 \<Rightarrow> nat, os_mapper \<times> (u64 \<Rightarrow> nat)) env" where
  "sample_env = \<lparr>ev_kernel = flat_kernel, ev_lock = sample_lock_env, ev_debug = True,
     ev_vt = os_vt True flat_kernel window_fs\<rparr>"

definition sample_machine :: "(u64 \<Rightarrow> nat) machine" where
  "sample_machine = \<lparr>mc_hw = (\<lambda>_. 0), mc_fs = window_fs, mc_locks = two_locks\<rparr>"

definition sample_device :: "(os_mapper \<times> (u64 \<Rightarrow> nat)) device" where
  "sample_device = \<lparr>dv_name = ''mmreg'', dv_base = 0xA0000010, dv_size = 0x20, dv_read_only = False,
     dv_device_path = None, dv_warnings = [],
     dv_backend = BOs ((os_new DevMem False)\<lparr>om_mapping := Some
       \<lparr>mp_ptr = 0xA0000000, mp_len = 0x30, mp_data_offset = 0x10\<rparr>\<rparr>),
     dv_uio_lock = None, dv_base_page_lock = None, dv_pm_guard = None\<rparr>"

lemma sample_mapped:
  "dev_mapped sample_env (os_okay flat_kernel) os_win (sample_machine, sample_device)"
  by (simp add: dev_mapped_def sample_env_def sample_machine_def sample_device_def os_okay_def os_win_def
      flat_page is_page_size_4096 os_new_def)

lemma sample_world_ok: "world_ok [0, 1] (sample_machine, sample_device)"
  using two_locks_ok two_locks_reg
  by (simp add: world_ok_def locks_ok_def dev_handles_def sample_device_def sample_machine_def)

theorem accesses_are_balanced_witness:
  "balanced [0, 1] (sample_machine, sample_device)
     (device_write sample_env 7 4 WU32 0x15 (sample_machine, sample_device))"
proof -
  have "memory_mapper (os_okay flat_kernel) os_win (ev_vt sample_env)"
    using os.memory_mapper_axioms by (simp add: sample_env_def)
  from accesses_are_balanced [OF this sample_mapped sample_world_ok]
  show ?thesis by blast
qed

end
