(* ===== verification/DevicePages.thy ===== *)
theory DevicePages
  imports DeviceSpec
begin

text \<open>
  The pages that \<open>Device::lock\<close> takes for a sequence, and what a device that \<open>open\<close> has returned can
  do: it is mapped, its accesses reach the bus at base plus offset, and a read-only device never
  writes.
\<close>

section \<open>The pages of a sequence\<close>

lemma page_base_nat:
  assumes "is_page_size p"
  shows "unat (page_base p a) = unat a div unat p * unat p"
  using unat_page_base [OF assms, of a] by (simp add: minus_mod_eq_div_mult)

lemma unat_page_pos: "is_page_size p \<Longrightarrow> 0 < unat p"
  by (auto elim: is_page_sizeE)

text \<open>The window lies inside the address space, as \<open>open\<close> requires.\<close>

definition window_fits :: "'m device \<Rightarrow> bool" where
  "window_fits d \<longleftrightarrow> dv_size d \<noteq> 0 \<and> unat (dv_base d) + unat (dv_size d) \<le> 2 ^ 64"

lemma window_size_Suc: "window_fits d \<Longrightarrow> \<exists>m. unat (dv_size d) = Suc m"
  by (metis not0_implies_Suc unsigned_eq_0_iff window_fits_def)

lemma unat_window_end:
  assumes "window_fits d"
  shows "unat (dv_base d + dv_size d - 1) = unat (dv_base d) + unat (dv_size d) - 1"
proof -
  define n where "n = unat (dv_size d) - 1"
  have n: "unat (dv_size d) = Suc n"
    using assms by (simp add: n_def window_fits_def unat_gt_0)
  have eq: "dv_base d + dv_size d - 1 = dv_base d + (dv_size d - 1)"
    by simp
  have m: "unat (dv_size d - 1) = n"
    using n assms by (simp add: unat_sub_le window_fits_def word_le_nat_alt)
  have "unat (dv_base d) + n < 2 ^ 64"
    using assms n by (simp add: window_fits_def)
  then have "unat (dv_base d + (dv_size d - 1)) = unat (dv_base d) + n"
    using m by (subst unat_add_no_wrap) simp_all
  then show ?thesis
    unfolding eq by (simp add: n)
qed

lemma unat_window_pages:
  assumes "is_page_size p" "window_fits d"
  shows "unat (window_pages p d)
    = (unat (dv_base d) + unat (dv_size d) - 1) div unat p - unat (dv_base d) div unat p + 1"
proof -
  let ?P = "unat p" and ?B = "unat (dv_base d)" and ?E = "unat (dv_base d) + unat (dv_size d) - 1"
  have pos: "0 < ?P" by (rule unat_page_pos [OF assms(1)])
  have big: "4096 \<le> ?P"
  proof -
    from assms(1) obtain k where k: "12 \<le> k" "?P = 2 ^ k"
      by (auto elim: is_page_sizeE)
    have "(2::nat) ^ 12 \<le> 2 ^ k"
      using k(1) by (rule power_increasing) simp
    then show ?thesis by (simp add: k(2))
  qed
  have "?B \<le> ?E"
    using assms(2) by (cases "unat (dv_size d)") (simp_all add: window_fits_def unat_eq_zero)
  then have le: "?B div ?P \<le> ?E div ?P"
    by (rule div_le_mono)
  have final: "unat (page_base p (dv_base d + dv_size d - 1)) = ?E div ?P * ?P"
    by (simp add: page_base_nat [OF assms(1)] unat_window_end [OF assms(2)])
  have first: "unat (page_base p (dv_base d)) = ?B div ?P * ?P"
    by (rule page_base_nat [OF assms(1)])
  have "page_base p (dv_base d) \<le> page_base p (dv_base d + dv_size d - 1)"
    using le by (simp add: word_le_nat_alt final first)
  then have "unat (page_base p (dv_base d + dv_size d - 1) - page_base p (dv_base d))
      = (?E div ?P - ?B div ?P) * ?P"
    by (simp add: unat_sub_le final first diff_mult_distrib)
  then have q: "unat ((page_base p (dv_base d + dv_size d - 1) - page_base p (dv_base d)) div p)
      = ?E div ?P - ?B div ?P"
    using pos by (simp add: unat_div)
  have "?E div ?P - ?B div ?P + 1 < 2 ^ 64"
  proof -
    have "?E < 2 ^ 64"
      using unat_bound [of "dv_base d + dv_size d - 1"] unat_window_end [OF assms(2)] by simp
    moreover have "?E div ?P \<le> ?E div 4096"
      using big by (rule div_le_mono2 [rotated]) simp
    ultimately show ?thesis by simp
  qed
  then show ?thesis
    unfolding window_pages_def using q by (subst unat_add_no_wrap) simp_all
qed

lemma unat_page_address:
  assumes "is_page_size p" "window_fits d" "i < unat (window_pages p d)"
  shows "unat (page_base p (dv_base d) + of_nat i * p) = (unat (dv_base d) div unat p + i) * unat p"
proof -
  let ?P = "unat p" and ?B = "unat (dv_base d)" and ?E = "unat (dv_base d) + unat (dv_size d) - 1"
  have "?B div ?P + i \<le> ?E div ?P"
    using assms(3) unat_window_pages [OF assms(1,2)] div_le_mono [of ?B ?E ?P]
      window_size_Suc [OF assms(2)] by auto
  then have "(?B div ?P + i) * ?P \<le> ?E div ?P * ?P"
    by (rule mult_le_mono1)
  also have "\<dots> \<le> ?E"
    by (rule div_times_less_eq_dividend)
  also have "\<dots> < 2 ^ 64"
    using unat_bound [of "dv_base d + dv_size d - 1"] unat_window_end [OF assms(2)] by simp
  finally have small: "(?B div ?P + i) * ?P < 2 ^ 64" .
  have iP: "i * ?P < 2 ^ 64"
    using small by (simp add: add_mult_distrib)
  have "i * 1 \<le> i * ?P"
    using unat_page_pos [OF assms(1)] by (intro mult_le_mono2) simp
  then have "i < 2 ^ 64"
    using iP by linarith
  then have "unat (of_nat i :: u64) = i"
    by (simp add: Word.unat_of_nat)
  then have m: "unat (of_nat i * p) = i * ?P"
    using iP by (simp add: unat_word_ariths)
  then have "unat (page_base p (dv_base d)) + unat (of_nat i * p) < 2 ^ 64"
    using small by (simp add: page_base_nat [OF assms(1)] add_mult_distrib)
  then show ?thesis
    using m by (simp add: unat_add_no_wrap page_base_nat [OF assms(1)] add_mult_distrib)
qed

text \<open>
  C9: a sequence on a window takes its page locks in strictly ascending address order, each page
  once, and they include the page of every access the window allows, so no access inside a sequence
  ever takes a page lock the sequence does not hold. (This is the order for which deadlock freedom
  is shown.)
\<close>

theorem sequence_pages_cover:
  assumes "is_page_size p" "window_fits d"
  shows "sorted_wrt (<) (map unat (page_addresses p d))
    \<and> (check_access d off w wr = Inr a \<longrightarrow> page_base p a \<in> set (page_addresses p d))"
proof (intro conjI impI)
  let ?P = "unat p" and ?B = "unat (dv_base d)" and ?E = "unat (dv_base d) + unat (dv_size d) - 1"
  have pos: "0 < ?P" by (rule unat_page_pos [OF assms(1)])
  have "map unat (page_addresses p d) = map (\<lambda>i. (?B div ?P + i) * ?P) [0..<unat (window_pages p d)]"
    unfolding page_addresses_def by (simp add: unat_page_address [OF assms])
  then show "sorted_wrt (<) (map unat (page_addresses p d))"
    using pos by (simp add: sorted_wrt_map sorted_wrt_iff_nth_less)
  assume "check_access d off w wr = Inr a"
  then have off: "unat off + unat (width_bytes w) \<le> unat (dv_size d)" and a: "a = dv_base d + ucast off"
    by (auto simp: check_access_Inr)
  have lt: "unat off < unat (dv_size d)"
    using off unat_width_bytes_pos [of w] by linarith
  then have au: "unat a = ?B + unat off"
    using assms(2) unfolding a by (subst unat_add_no_wrap) (simp_all add: window_fits_def)
  define i where "i = unat a div ?P - ?B div ?P"
  have lo: "?B div ?P \<le> unat a div ?P" and hi: "unat a div ?P \<le> ?E div ?P"
    using lt by (auto simp: au intro!: div_le_mono)
  have i: "i < unat (window_pages p d)"
    using lo hi by (simp add: i_def unat_window_pages [OF assms])
  have "?B div ?P + i = unat a div ?P"
    using lo by (simp add: i_def)
  then have "unat (page_base p a) = unat (page_base p (dv_base d) + of_nat i * p)"
    by (simp only: page_base_nat [OF assms(1)] unat_page_address [OF assms i])
  then have "page_base p a = page_base p (dv_base d) + of_nat i * p"
    by (simp add: word_unat_eq_iff)
  with i show "page_base p a \<in> set (page_addresses p d)"
    by (auto simp: page_addresses_def)
qed

theorem sequence_pages_cover_witness:
  "page_base 4096 (0xA0000010 + ucast (0x1C :: u32)) \<in> set (page_addresses 4096 sample_device)"
proof -
  have "window_fits sample_device"
    by (simp add: window_fits_def sample_device_def)
  moreover have "check_access sample_device 0x1C WU32 True = Inr (0xA0000010 + ucast (0x1C :: u32))"
    by (simp add: check_access_def sample_device_def checked_add_def Let_def)
  ultimately show ?thesis
    using sequence_pages_cover [OF is_page_size_4096] by blast
qed

end
