(* ===== verification/DeviceBus.thy ===== *)
theory DeviceBus
  imports DevicePages
begin

text \<open>
  What \<open>open\<close> returns and what its device does to the hardware: an opened device is mapped with its
  locks in order, a successful access is exactly one bus access (two for an update) at base plus
  offset, a failed one is none, and the one-shot accesses of \<open>src/lib.rs\<close> leave locks and power
  control as they found them.
\<close>

section \<open>What taking a guard changes\<close>

lemma on_locks_frame:
  assumes "on_locks p (M, d) = Done (r, s)"
  obtains L where "s = (M\<lparr>mc_locks := L\<rparr>, d)"
  using assms by (auto simp: on_locks_def split: run.splits)

definition locks_only :: "('h, 'm) world \<Rightarrow> ('h, 'm) world \<Rightarrow> bool" where
  "locks_only = (\<lambda>(M, d) s. \<exists>L c. s = (M\<lparr>mc_locks := L\<rparr>, d\<lparr>dv_base_page_lock := c\<rparr>))"

lemma locks_only_locks: "locks_only (M, d) (M\<lparr>mc_locks := L\<rparr>, d)"
  unfolding locks_only_def split by (intro exI [of _ L] exI [of _ "dv_base_page_lock d"]) simp

lemma locks_only_page: "locks_only (M, d) (M\<lparr>mc_locks := L\<rparr>, d\<lparr>dv_base_page_lock := c\<rparr>)"
  unfolding locks_only_def by blast

lemma lock_at_frame:
  assumes "lock_at E me a (M, d) = Done (r, s)"
  shows "locks_only (M, d) s"
  using assms
  by (auto simp: lock_at_def Let_def on_locks_def pbind_def set_base_page_lock_def
      locks_only_locks locks_only_page split: option.splits if_splits run.splits sum.splits prod.splits)

lemma with_guard_frame:
  assumes "with_guard (lock_at E me a) body (M, d) = Done (r, s)"
  obtains (failed) e L c where "r = Inl e" "s = (M\<lparr>mc_locks := L\<rparr>, d\<lparr>dv_base_page_lock := c\<rparr>)"
    | (ran) x L c M' d' L' where "r = Inr x"
        "body (M\<lparr>mc_locks := L\<rparr>, d\<lparr>dv_base_page_lock := c\<rparr>) = Done (x, (M', d'))"
        "s = (M'\<lparr>mc_locks := L'\<rparr>, d')"
proof -
  from assms obtain g s1 where l: "lock_at E me a (M, d) = Done (g, s1)"
    by (auto simp: with_guard_def split: run.splits)
  obtain L c where s1: "s1 = (M\<lparr>mc_locks := L\<rparr>, d\<lparr>dv_base_page_lock := c\<rparr>)"
    using lock_at_frame [OF l] by (auto simp: locks_only_def)
  show ?thesis
    using assms l s1 failed ran by (auto simp: with_guard_def split: sum.splits run.splits)
qed

section \<open>Accesses on the bus\<close>

text \<open>
  A device on the bus: its backend is the operating system's, and it performs an access of the window
  at base plus offset.
\<close>

definition on_bus :: "('h, 'm) env \<Rightarrow> 'm device \<Rightarrow> bool" where
  "on_bus E d \<longleftrightarrow> (\<exists>om. dv_backend d = BOs om \<and> (\<forall>off w v h.
     unat (width_bytes w) dvd unat (dv_base d) + unat off
     \<longrightarrow> unat off + unat (width_bytes w) \<le> unat (dv_size d)
     \<longrightarrow> os_write (ev_kernel E) om off w v h
           = Done (k_wr (ev_kernel E) (dv_base d + ucast off) w (width_cut w v) h)
       \<and> os_read (ev_kernel E) om off w h
           = Done (map_prod (width_cut w) id (k_rd (ev_kernel E) (dv_base d + ucast off) w h))))"

lemma on_bus_accesses:
  assumes "on_bus E d" "check_access d off w wr = Inr a"
  shows "backend_write E off w v (M, d\<lparr>dv_base_page_lock := c\<rparr>)
      = Done (M\<lparr>mc_hw := k_wr (ev_kernel E) a w (width_cut w v) (mc_hw M)\<rparr>, d\<lparr>dv_base_page_lock := c\<rparr>)"
    and "backend_read E off w (M, d\<lparr>dv_base_page_lock := c\<rparr>)
      = (case k_rd (ev_kernel E) a w (mc_hw M) of
          (x, h) \<Rightarrow> Done (width_cut w x, (M\<lparr>mc_hw := h\<rparr>, d\<lparr>dv_base_page_lock := c\<rparr>)))"
proof -
  note chk = assms(2) [unfolded check_access_Inr width_dvd_mod]
  obtain om where om: "dv_backend d = BOs om"
    "os_write (ev_kernel E) om off w v h
      = Done (k_wr (ev_kernel E) (dv_base d + ucast off) w (width_cut w v) h)"
    "os_read (ev_kernel E) om off w h
      = Done (map_prod (width_cut w) id (k_rd (ev_kernel E) (dv_base d + ucast off) w h))" for h
    using assms(1) chk unfolding on_bus_def by blast
  show "backend_write E off w v (M, d\<lparr>dv_base_page_lock := c\<rparr>)
      = Done (M\<lparr>mc_hw := k_wr (ev_kernel E) a w (width_cut w v) (mc_hw M)\<rparr>, d\<lparr>dv_base_page_lock := c\<rparr>)"
    using om chk by (simp add: backend_write_def)
  show "backend_read E off w (M, d\<lparr>dv_base_page_lock := c\<rparr>)
      = (case k_rd (ev_kernel E) a w (mc_hw M) of
          (x, h) \<Rightarrow> Done (width_cut w x, (M\<lparr>mc_hw := h\<rparr>, d\<lparr>dv_base_page_lock := c\<rparr>)))"
    using om chk by (simp add: backend_read_def split: prod.split)
qed

lemma device_access_frame:
  assumes "device_access E me off w wr body (M, d) = Done (r, s)"
  obtains (failed) e L c where "r = Inl e" "s = (M\<lparr>mc_locks := L\<rparr>, d\<lparr>dv_base_page_lock := c\<rparr>)"
    | (ran) a x L c M' d' L' where "check_access d off w wr = Inr a" "r = Inr x"
        "body (M\<lparr>mc_locks := L\<rparr>, d\<lparr>dv_base_page_lock := c\<rparr>) = Done (x, (M', d'))"
        "s = (M'\<lparr>mc_locks := L'\<rparr>, d')"
proof (cases "check_access d off w wr")
  case (Inl e)
  with assms have "r = Inl e" "s = (M\<lparr>mc_locks := mc_locks M\<rparr>, d\<lparr>dv_base_page_lock := dv_base_page_lock d\<rparr>)"
    by (simp_all add: device_access_def)
  then show ?thesis by (rule failed)
next
  case (Inr a)
  with assms have "with_guard (lock_at E me a) body (M, d) = Done (r, s)"
    by (simp add: device_access_def)
  then show ?thesis
    by (cases rule: with_guard_frame) (use Inr failed ran in blast)+
qed

lemma write_on_bus:
  assumes "on_bus E d" "device_write E me off w v (M, d) = Done (r, (M', d'))"
  shows "mc_fs M' = mc_fs M \<and> dv_pm_guard d' = dv_pm_guard d \<and> mc_hw M' = (case r of Inl _ \<Rightarrow> mc_hw M
      | Inr _ \<Rightarrow> k_wr (ev_kernel E) (dv_base d + ucast off) w (width_cut w v) (mc_hw M))"
  using assms(2) unfolding device_write_def
proof (cases rule: device_access_frame)
  case (ran a x L c M'' d'' L')
  then show ?thesis
    using on_bus_accesses [OF assms(1) ran(1)] by (auto simp: write_body_def check_access_Inr)
qed simp

lemma read_on_bus:
  assumes "on_bus E d" "device_read E me off w (M, d) = Done (r, (M', d'))"
  shows "mc_fs M' = mc_fs M \<and> dv_pm_guard d' = dv_pm_guard d \<and> (case r of Inl _ \<Rightarrow> mc_hw M' = mc_hw M
      | Inr x \<Rightarrow> (x, mc_hw M') = map_prod (width_cut w) id (k_rd (ev_kernel E) (dv_base d + ucast off) w (mc_hw M)))"
  using assms(2) unfolding device_read_def
proof (cases rule: device_access_frame)
  case (ran a x L c M'' d'' L')
  then show ?thesis
    using on_bus_accesses [OF assms(1) ran(1)] by (auto simp: check_access_Inr split: prod.splits)
qed simp

lemma update_on_bus:
  assumes "on_bus E d" "update_u32 E me off msk u (M, d) = Done (r, (M', d'))"
  shows "mc_fs M' = mc_fs M \<and> (case r of Inl _ \<Rightarrow> mc_hw M' = mc_hw M
      | Inr x \<Rightarrow> (case k_rd (ev_kernel E) (dv_base d + ucast off) WU32 (mc_hw M) of
          (c, h) \<Rightarrow> x = replace_bits (ucast c) msk u
            \<and> mc_hw M' = k_wr (ev_kernel E) (dv_base d + ucast off) WU32 (ucast x) h))"
  using assms(2) unfolding update_u32_def
proof (cases rule: device_access_frame)
  case (ran a x L c M'' d'' L')
  then show ?thesis
    using on_bus_accesses [OF assms(1) ran(1)]
    by (auto simp: update_body_def Let_def check_access_Inr split: prod.splits)
qed simp

text \<open>
  C10: on a device on the bus an access that succeeds is exactly one bus access at base plus offset, of
  its width, with the value cut to the width; an update is one read and one write of the bits merged
  under the mask, whose result it returns; and an access that fails (not allowed, or the lock not
  taken) does not touch the hardware at all. Nothing is written to the file system.
\<close>

theorem accesses_reach_bus:
  assumes "on_bus E d"
  shows "(case device_write E me off w v (M, d) of
        Done (Inr _, (M', _)) \<Rightarrow> mc_fs M' = mc_fs M
          \<and> mc_hw M' = k_wr (ev_kernel E) (dv_base d + ucast off) w (width_cut w v) (mc_hw M)
      | Done (Inl _, (M', _)) \<Rightarrow> mc_fs M' = mc_fs M \<and> mc_hw M' = mc_hw M
      | _ \<Rightarrow> True)
    \<and> (case device_read E me off w (M, d) of
        Done (Inr x, (M', _)) \<Rightarrow> mc_fs M' = mc_fs M
          \<and> (x, mc_hw M') = map_prod (width_cut w) id (k_rd (ev_kernel E) (dv_base d + ucast off) w (mc_hw M))
      | Done (Inl _, (M', _)) \<Rightarrow> mc_fs M' = mc_fs M \<and> mc_hw M' = mc_hw M
      | _ \<Rightarrow> True)
    \<and> (case update_u32 E me off msk u (M, d) of
        Done (Inr x, (M', _)) \<Rightarrow> mc_fs M' = mc_fs M
          \<and> (case k_rd (ev_kernel E) (dv_base d + ucast off) WU32 (mc_hw M) of
              (c, h) \<Rightarrow> x = replace_bits (ucast c) msk u
                \<and> mc_hw M' = k_wr (ev_kernel E) (dv_base d + ucast off) WU32 (ucast x) h)
      | Done (Inl _, (M', _)) \<Rightarrow> mc_fs M' = mc_fs M \<and> mc_hw M' = mc_hw M
      | _ \<Rightarrow> True)"
  by (intro conjI; simp split: run.split prod.split sum.split)
    (fastforce dest!: write_on_bus [OF assms] read_on_bus [OF assms] update_on_bus [OF assms])+

section \<open>An opened device\<close>

text \<open>The steps of a successful \<open>open\<close>.\<close>

lemma open_window_InrE:
  assumes "open_window E b M = Done (Inr d, M')"
  obtains nm mt t pm ws F L where
    "resolve_spec E (mc_fs M) b = Inr (nm, dv_base d, dv_size d, mt)"
    "resolve (mc_fs M) (dv_base d) (dv_size d) mt (\<not> bd_force b) = Inr t"
    "open_pm_guard E (bd_custom b \<noteq> None) t (mc_fs M) = ((pm, ws), F)"
    "open_backend E F b (tg_mapper t) (dv_base d) (dv_size d) = Inr (dv_backend d)"
    "open_uio_lock (ev_lock E) (dv_backend d) (dv_device_path d) (mc_locks M) = Done (Inr (dv_uio_lock d), L)"
    "dv_base_page_lock d = None" "dv_pm_guard d = pm" "dv_read_only d = bd_read_only b"
    "M' = M\<lparr>mc_fs := F, mc_locks := L\<rparr>"
  using assms
  by (auto simp: open_window_def Let_def split: sum.splits prod.splits run.splits)

text \<open>What \<open>open\<close> does to the rest of the machine when it fails.\<close>

lemma open_window_InlE:
  fixes b :: "'m builder"
  assumes "open_window E b M = Done (Inl e, M')"
  shows "M' = M \<or> (\<exists>t pm ws F L. open_pm_guard E (bd_custom b \<noteq> None) t (mc_fs M) = ((pm, ws), F)
    \<and> M' = M\<lparr>mc_fs := opt_pm_drop pm F, mc_locks := L\<rparr>
    \<and> (L = mc_locks M \<or> (\<exists>(bk :: 'm backend) p. open_uio_lock (ev_lock E) bk p (mc_locks M) = Done (Inl e, L))))"
proof (cases "resolve_spec E (mc_fs M) b")
  case (Inr q)
  obtain nm base sz mt where q: "q = (nm, base, sz, mt)" by (cases q)
  show ?thesis
  proof (cases "resolve (mc_fs M) base sz mt (\<not> bd_force b)")
    case i: (Inr t)
    obtain pm ws F where g: "open_pm_guard E (bd_custom b \<noteq> None) t (mc_fs M) = ((pm, ws), F)"
      by (metis prod.exhaust)
    show ?thesis
    proof (cases "open_backend E F b (tg_mapper t) base sz")
      case (Inl e')
      then have "M' = M\<lparr>mc_fs := opt_pm_drop pm F\<rparr>"
        using assms Inr q i g by (auto simp: open_window_def Let_def)
      then have "M' = M\<lparr>mc_fs := opt_pm_drop pm F, mc_locks := mc_locks M\<rparr>"
        by simp
      with g show ?thesis by blast
    next
      case (Inr bk)
      then have "\<exists>p L. open_uio_lock (ev_lock E) bk p (mc_locks M) = Done (Inl e, L)
          \<and> M' = M\<lparr>mc_fs := opt_pm_drop pm F, mc_locks := L\<rparr>"
        using assms \<open>resolve_spec E (mc_fs M) b = Inr q\<close> q i g
        by (auto simp: open_window_def Let_def split: run.splits sum.splits prod.splits)
      with g show ?thesis by blast
    qed
  qed (use assms Inr q in \<open>simp add: open_window_def Let_def\<close>)
qed (use assms in \<open>simp add: open_window_def Let_def\<close>)

lemma open_uio_lock_post:
  assumes "locks_ok hs st"
  shows "\<exists>r st'. open_uio_lock L bk p st = Done (r, st') \<and> holdings st' = holdings st
    \<and> (case r of Inl _ \<Rightarrow> locks_ok hs st'
        | Inr lk \<Rightarrow> locks_ok ((case lk of Some a \<Rightarrow> [a] | None \<Rightarrow> []) @ hs) st')"
proof (cases p)
  case None
  with assms show ?thesis
    by (simp add: open_uio_lock_def pret_def)
next
  case (Some q)
  have "\<exists>r st'. (case backend_uio_file bk of Some f \<Rightarrow> from_open_file L f q | None \<Rightarrow> device_lock_open L q) st
      = Done (r, st') \<and> handle_post hs st r st'"
    using from_open_file_post [OF assms] device_lock_open_post [OF assms] by (cases "backend_uio_file bk") auto
  then obtain r st' where "(case backend_uio_file bk of Some f \<Rightarrow> from_open_file L f q
      | None \<Rightarrow> device_lock_open L q) st = Done (r, st')" "handle_post hs st r st'"
    by blast
  then show ?thesis
    by (cases r) (simp_all add: open_uio_lock_def Some pbind_def pret_def handle_post_def)
qed

text \<open>\<open>power/control\<close> after a guard: untouched, or rewritten with its own value, trimmed.\<close>

definition fs_restored :: "fs \<Rightarrow> fs \<Rightarrow> bool" where
  "fs_restored F F' \<longleftrightarrow> F' = F
     \<or> (\<exists>p raw. fs_read_to_string F p = Some raw \<and> F' = F\<lparr>fs_file := (fs_file F)(p \<mapsto> str_trim raw)\<rparr>)"

lemma fs_restored_refl: "fs_restored F F"
  by (simp add: fs_restored_def)

lemma fs_restored_write:
  "fs_read_to_string F p = Some raw \<Longrightarrow> fs_restored F (F\<lparr>fs_file := (fs_file F)(p \<mapsto> str_trim raw)\<rparr>)"
  unfolding fs_restored_def by blast

lemma open_pm_guard_restored:
  assumes "open_pm_guard E c t F = ((pm, ws), F1)"
  shows "fs_restored F (opt_pm_drop pm F1)"
  using assms
  by (auto simp: open_pm_guard_def pm_acquire_def Let_def opt_pm_drop_def pm_drop_def fs_write_def
      intro: fs_restored_refl fs_restored_write split: if_splits option.splits)


text \<open>The outcomes of \<open>open\<close>, as its callers need them.\<close>

lemma open_window_runs:
  assumes "locks_ok hs (mc_locks M)"
  shows "\<exists>r M'. open_window E b M = Done (r, M')"
proof -
  have "\<exists>r st'. open_uio_lock (ev_lock E) bk p (mc_locks M) = Done (r, st')" for bk and p :: "path option"
    using open_uio_lock_post [OF assms] by blast
  then have n: "open_uio_lock (ev_lock E) bk p (mc_locks M) \<noteq> Blocks"
    "open_uio_lock (ev_lock E) bk p (mc_locks M) \<noteq> Panics" for bk and p :: "path option"
    by (metis run.distinct)+
  show ?thesis
    using n by (auto simp: open_window_def Let_def split: sum.split prod.split run.split)
qed

lemma open_window_failed:
  assumes "open_window E b M = Done (Inl e, M')" "locks_ok hs (mc_locks M)"
  shows "locks_ok hs (mc_locks M')" "holdings (mc_locks M') = holdings (mc_locks M)"
    "mc_hw M' = mc_hw M" "fs_restored (mc_fs M) (mc_fs M')"
proof -
  have "locks_ok hs (mc_locks M') \<and> holdings (mc_locks M') = holdings (mc_locks M)
      \<and> mc_hw M' = mc_hw M \<and> fs_restored (mc_fs M) (mc_fs M')"
    using open_window_InlE [OF assms(1)]
  proof (elim disjE exE conjE)
    fix t pm ws F L bk p
    assume g: "open_pm_guard E (bd_custom b \<noteq> None) t (mc_fs M) = ((pm, ws), F)"
      and M': "M' = M\<lparr>mc_fs := opt_pm_drop pm F, mc_locks := L\<rparr>"
      and l: "open_uio_lock (ev_lock E) bk p (mc_locks M) = Done (Inl e, L)"
    from open_uio_lock_post [OF assms(2), of "ev_lock E" bk p] l
    have "holdings L = holdings (mc_locks M)" "locks_ok hs L" by auto
    with open_pm_guard_restored [OF g] M' show ?thesis by simp
  next
    fix t pm ws F L
    assume "open_pm_guard E (bd_custom b \<noteq> None) t (mc_fs M) = ((pm, ws), F)"
      and "M' = M\<lparr>mc_fs := opt_pm_drop pm F, mc_locks := L\<rparr>" "L = mc_locks M"
    with open_pm_guard_restored assms(2) show ?thesis by simp
  qed (use assms(2) in \<open>simp add: fs_restored_refl\<close>)
  then show "locks_ok hs (mc_locks M')" "holdings (mc_locks M') = holdings (mc_locks M)"
    "mc_hw M' = mc_hw M" "fs_restored (mc_fs M) (mc_fs M')"
    by simp_all
qed

lemma open_backend_Inr:
  assumes "open_backend E F b mt base n = Inr bk"
  obtains (custom) m m' u where "bd_custom b = Some m" "vt_map (ev_vt E) base n m = (Inr u, m')" "bk = BCustom m'"
    | (os) u om where "bd_custom b = None" "bk = BOs om"
        "os_map (ev_debug E) (ev_kernel E) F base n (os_new mt (bd_read_only b)) = (Inr u, om)"
proof (cases "bd_custom b")
  case None
  obtain r om where m: "os_map (ev_debug E) (ev_kernel E) F base n (os_new mt (bd_read_only b)) = (r, om)"
    by (metis prod.exhaust)
  with assms None obtain u where "r = Inr u" "bk = BOs om"
    by (auto simp: open_backend_def split: sum.splits)
  with m None show ?thesis by (intro os) auto
next
  case (Some m)
  obtain r m' where m: "vt_map (ev_vt E) base n m = (r, m')"
    by (metis prod.exhaust)
  with assms Some obtain u where "r = Inr u" "bk = BCustom m'"
    by (auto simp: open_backend_def split: sum.splits)
  with m Some show ?thesis by (intro custom) auto
qed

lemma opened_device:
  assumes "memory_mapper okay win (ev_vt E)" "is_page_size (page_size (ev_kernel E))"
    and "case bd_custom b of Some m \<Rightarrow> okay m | None \<Rightarrow> True" "locks_ok hs (mc_locks M)"
    and "open_window E b M = Done (Inr d, M')"
  shows "dev_mapped E okay win (M', d) \<and> world_ok hs (M', d) \<and> holders (M', d) = holdings (mc_locks M)
    \<and> mc_hw M' = mc_hw M \<and> dv_read_only d = bd_read_only b"
proof -
  obtain nm mt t pm ws F L where o:
    "resolve_spec E (mc_fs M) b = Inr (nm, dv_base d, dv_size d, mt)"
    "resolve (mc_fs M) (dv_base d) (dv_size d) mt (\<not> bd_force b) = Inr t"
    "open_pm_guard E (bd_custom b \<noteq> None) t (mc_fs M) = ((pm, ws), F)"
    "open_backend E F b (tg_mapper t) (dv_base d) (dv_size d) = Inr (dv_backend d)"
    "open_uio_lock (ev_lock E) (dv_backend d) (dv_device_path d) (mc_locks M) = Done (Inr (dv_uio_lock d), L)"
    "dv_base_page_lock d = None" "dv_pm_guard d = pm" "dv_read_only d = bd_read_only b"
    "M' = M\<lparr>mc_fs := F, mc_locks := L\<rparr>"
    by (rule open_window_InrE [OF assms(5)])
  have locks: "holdings L = holdings (mc_locks M)"
    "locks_ok ((case dv_uio_lock d of Some a \<Rightarrow> [a] | None \<Rightarrow> []) @ hs) L"
    using open_uio_lock_post [OF assms(4), of "ev_lock E" "dv_backend d" "dv_device_path d"] o(5)
    by simp_all
  have "dev_mapped E okay win (M', d)"
    using o(4)
  proof (cases rule: open_backend_Inr)
    case (custom m m' u)
    then show ?thesis
      using memory_mapper.map_Inr [OF assms(1) _ custom(2)] assms(3) by (auto simp: dev_mapped_def)
  next
    case (os u om)
    let ?K = "ev_kernel E"
    have ok: "os_okay ?K (os_new (tg_mapper t) (bd_read_only b), mc_hw M)"
      using assms(2) by (simp add: os_okay_def os_new_def)
    have "vt_map (os_vt (ev_debug E) ?K F) (dv_base d) (dv_size d)
        (os_new (tg_mapper t) (bd_read_only b), mc_hw M) = (Inr u, (om, mc_hw M))"
      using os(3) by (simp add: os_vt_def)
    from os.map_Inr [OF ok this] show ?thesis
      by (auto simp: dev_mapped_def os(2) o(9))
  qed
  with o locks show ?thesis
    by (simp add: world_ok_def dev_handles_def holders_def)
qed


lemma open_window_restored:
  assumes "open_window E b M = Done (Inr d, M')"
  shows "fs_restored (mc_fs M) (opt_pm_drop (dv_pm_guard d) (mc_fs M'))"
  using assms by (rule open_window_InrE) (auto dest: open_pm_guard_restored)


section \<open>From \<open>open\<close> to the bus\<close>

text \<open>What the kernel promises of the mappings, on the file system at the time of \<open>open\<close>.\<close>

definition bus_contract :: "'h kernel \<Rightarrow> fs \<Rightarrow> bool" where
  "bus_contract K F \<longleftrightarrow> devmem_contract K \<and> (\<forall>p. uio_contract K F p)"

lemma opened_on_bus:
  assumes "is_page_size (page_size (ev_kernel E))" "bus_contract (ev_kernel E) (mc_fs M)"
    and "bd_custom b = None" "open_window E b M = Done (Inr d, M')"
  shows "on_bus E d"
proof -
  obtain nm mt t pm ws F L where o:
    "resolve_spec E (mc_fs M) b = Inr (nm, dv_base d, dv_size d, mt)"
    "resolve (mc_fs M) (dv_base d) (dv_size d) mt (\<not> bd_force b) = Inr t"
    "open_pm_guard E (bd_custom b \<noteq> None) t (mc_fs M) = ((pm, ws), F)"
    "open_backend E F b (tg_mapper t) (dv_base d) (dv_size d) = Inr (dv_backend d)"
    "open_uio_lock (ev_lock E) (dv_backend d) (dv_device_path d) (mc_locks M) = Done (Inr (dv_uio_lock d), L)"
    "dv_base_page_lock d = None" "dv_pm_guard d = pm" "dv_read_only d = bd_read_only b"
    "M' = M\<lparr>mc_fs := F, mc_locks := L\<rparr>"
    by (rule open_window_InrE [OF assms(4)])
  from o(4) assms(3) obtain u om where om: "dv_backend d = BOs om"
    "os_map (ev_debug E) (ev_kernel E) F (dv_base d) (dv_size d) (os_new (tg_mapper t) (bd_read_only b)) = (Inr u, om)"
    by (auto elim: open_backend_Inr)
  have "F = mc_fs M" if "tg_mapper t \<noteq> DevMem"
    using o(3) that by (simp add: open_pm_guard_def)
  then have "case om_kind (os_new (tg_mapper t) (bd_read_only b)) of
      Uio p i \<Rightarrow> uio_contract (ev_kernel E) F p | _ \<Rightarrow> devmem_contract (ev_kernel E)"
    using assms(2) by (auto simp: bus_contract_def os_new_def split: mapper_type.split)
  from os_map_bus [OF om(2) assms(1) this] show ?thesis
    by (auto simp: on_bus_def om(1))
qed

section \<open>One-shot accesses\<close>

lemma device_drop_locks:
  assumes "world_ok hs (M, d)"
  shows "locks_ok hs (mc_locks (device_drop (M, d)))"
    "holdings (mc_locks (device_drop (M, d))) = holdings (mc_locks M)"
proof -
  have "mc_locks (device_drop (M, d)) = fold arc_drop (dev_handles d) (mc_locks M)"
    by (simp add: device_drop_def opt_arc_drop_def dev_handles_def split: option.split)
  moreover have "locks_ok (dev_handles d @ hs) (mc_locks M)"
    using assms by (simp add: world_ok_def)
  ultimately show "locks_ok hs (mc_locks (device_drop (M, d)))"
    "holdings (mc_locks (device_drop (M, d))) = holdings (mc_locks M)"
    using locks_ok_arc_drops by auto
qed

lemma device_drop_hw: "mc_hw (device_drop (M, d)) = mc_hw M"
  and device_drop_fs: "mc_fs (device_drop (M, d)) = opt_pm_drop (dv_pm_guard d) (mc_fs M)"
  by (simp_all add: device_drop_def)

text \<open>Without a custom mapper nothing is asked of the environment's.\<close>

lemma no_mapper: "memory_mapper (\<lambda>_. False) (\<lambda>_ _. False) vt"
  by unfold_locales auto

lemma balanced_Done:
  "balanced hs s (Done (r, s')) \<longleftrightarrow> world_ok hs s' \<and> holders s' = holders s"
  by (simp add: balanced_def)

text \<open>
  The machine is left as it was, up to hardware: the locks in order, the same holders, \<open>power/control\<close>
  restored.
\<close>

definition machine_restored :: "nat list \<Rightarrow> 'h machine \<Rightarrow> 'h machine \<Rightarrow> bool" where
  "machine_restored hs M M' \<longleftrightarrow> locks_ok hs (mc_locks M')
     \<and> holdings (mc_locks M') = holdings (mc_locks M) \<and> fs_restored (mc_fs M) (mc_fs M')"

lemma machine_restored_refl: "locks_ok hs (mc_locks M) \<Longrightarrow> machine_restored hs M M"
  by (simp add: machine_restored_def fs_restored_refl)

text \<open>What a temporary device leaves behind, whatever is done with it under \<open>balanced\<close>.\<close>

lemma with_device_restores:
  fixes act :: "(mmreg_error, ('h, 'm) world, 'a) prog"
  assumes "is_page_size (page_size (ev_kernel E))" "bd_custom b = None" "locks_ok hs (mc_locks M)"
    and bal: "\<And>M1 d. dev_mapped E (\<lambda>_. False) (\<lambda>_ _. False) (M1, d) \<Longrightarrow> world_ok hs (M1, d)
      \<Longrightarrow> balanced hs (M1, d) (act (M1, d))"
    and bus: "\<And>M1 M2 d d2 r. open_window E b M = Done (Inr d, M1) \<Longrightarrow> act (M1, d) = Done (r, (M2, d2))
      \<Longrightarrow> mc_fs M2 = mc_fs M1 \<and> dv_pm_guard d2 = dv_pm_guard d \<and> P r (mc_hw M1) (mc_hw M2)"
    and err: "\<And>e h. P (Inl e) h h"
  shows "with_device E b act M \<noteq> Panics"
    and "with_device E b act M = Done (r, M') \<Longrightarrow>
      machine_restored hs M M'
      \<and> P r (mc_hw M) (mc_hw M')"
proof -
  obtain q M1 where o: "open_window E b M = Done (q, M1)"
    using open_window_runs [OF assms(3)] by blast
  have "with_device E b act M \<noteq> Panics \<and> (with_device E b act M = Done (r, M') \<longrightarrow>
      machine_restored hs M M'
      \<and> P r (mc_hw M) (mc_hw M'))"
  proof (cases q)
    case (Inl e)
    then show ?thesis
      using o open_window_failed [OF o [unfolded Inl] assms(3)]
      err by (auto simp: with_device_def machine_restored_def)
  next
    case (Inr d)
    have ready: "dev_mapped E (\<lambda>_. False) (\<lambda>_ _. False) (M1, d)" "world_ok hs (M1, d)"
      "holders (M1, d) = holdings (mc_locks M)" "mc_hw M1 = mc_hw M"
      using opened_device [OF no_mapper assms(1) _ assms(3) o [unfolded Inr]] assms(2) by auto
    have b: "balanced hs (M1, d) (act (M1, d))"
      by (rule bal [OF ready(1,2)])
    show ?thesis
    proof (cases "act (M1, d)")
      case (Done y)
      then obtain x M2 d2 where y: "act (M1, d) = Done (x, (M2, d2))"
        by (cases y) auto
      have w: "world_ok hs (M2, d2)" "holdings (mc_locks M2) = holdings (mc_locks M)"
        using b ready(3) unfolding y balanced_Done by (simp_all add: holders_def)
      have "fs_restored (mc_fs M) (mc_fs (device_drop (M2, d2)))"
        using open_window_restored [OF o [unfolded Inr]] bus [OF o [unfolded Inr] y]
        by (simp add: device_drop_fs)
      then show ?thesis
        using o Inr y ready(4) w device_drop_locks [OF w(1)] bus [OF o [unfolded Inr] y]
        by (auto simp: with_device_def device_drop_hw machine_restored_def)
    qed (use b o Inr in \<open>simp_all add: with_device_def balanced_def\<close>)
  qed
  then show "with_device E b act M \<noteq> Panics"
    and "with_device E b act M = Done (r, M') \<Longrightarrow>
      machine_restored hs M M'
      \<and> P r (mc_hw M) (mc_hw M')"
    by blast+
qed

lemma balanced_pret:
  "balanced hs s (m s) \<Longrightarrow> balanced hs s (pbind m (\<lambda>v. pret (f v)) s)"
  by (auto simp: balanced_def pbind_def pret_def split: run.splits sum.splits prod.splits)

lemma addr_window:
  assumes "open_window E b M = Done (Inr d, M')" "bd_spec b = Addr a n"
  shows "dv_base d = a" "dv_size d = n"
proof -
  obtain nm mt where "resolve_spec E (mc_fs M) b = Inr (nm, dv_base d, dv_size d, mt)"
    using assms(1) by (rule open_window_InrE)
  with assms(2) show "dv_base d = a" "dv_size d = n"
    by (auto simp: resolve_spec_def Let_def split: if_splits)
qed

text \<open>An access through a temporary device at its own base.\<close>

lemma addr_device_access:
  fixes act :: "(mmreg_error, ('h, 'm) world, 'a) prog"
  assumes "is_page_size (page_size (ev_kernel E))" "bus_contract (ev_kernel E) (mc_fs M)"
    and "locks_ok hs (mc_locks M)" "bd_custom b = None" "bd_spec b = Addr a n"
    and bal: "\<And>M1 d. dev_mapped E (\<lambda>_. False) (\<lambda>_ _. False) (M1, d) \<Longrightarrow> world_ok hs (M1, d)
      \<Longrightarrow> balanced hs (M1, d) (act (M1, d))"
    and bus: "\<And>M1 M2 d d2 r. on_bus E d \<Longrightarrow> dv_base d = a \<Longrightarrow> act (M1, d) = Done (r, (M2, d2))
      \<Longrightarrow> mc_fs M2 = mc_fs M1 \<and> dv_pm_guard d2 = dv_pm_guard d \<and> P r (mc_hw M1) (mc_hw M2)"
    and err: "\<And>e h. P (Inl e) h h"
  shows "with_device E b act M \<noteq> Panics"
    and "with_device E b act M = Done (r, M') \<Longrightarrow> machine_restored hs M M' \<and> P r (mc_hw M) (mc_hw M')"
proof -
  have eff: "mc_fs M2 = mc_fs M1 \<and> dv_pm_guard d2 = dv_pm_guard d \<and> P r (mc_hw M1) (mc_hw M2)"
    if "open_window E b M = Done (Inr d, M1)" "act (M1, d) = Done (r, (M2, d2))" for M1 M2 d d2 r
    by (rule bus [OF opened_on_bus [OF assms(1,2,4) that(1)] addr_window(1) [OF that(1) assms(5)] that(2)])
  show "with_device E b act M \<noteq> Panics"
    by (rule with_device_restores(1) [where P = P, OF assms(1,4,3) bal eff err])
  show "machine_restored hs M M' \<and> P r (mc_hw M) (mc_hw M')" if "with_device E b act M = Done (r, M')"
    by (rule with_device_restores(2) [where P = P, OF assms(1,4,3) bal eff err that])
qed

lemma one_shot_access:
  fixes act :: "(mmreg_error, ('h, 'm) world, 'a) prog"
  assumes "is_page_size (page_size (ev_kernel E))" "bus_contract (ev_kernel E) (mc_fs M)"
    and "locks_ok hs (mc_locks M)" "bd_custom b = None" "bd_spec b = Addr a 4"
    and bal: "\<And>M1 d. dev_mapped E (\<lambda>_. False) (\<lambda>_ _. False) (M1, d) \<Longrightarrow> world_ok hs (M1, d)
      \<Longrightarrow> balanced hs (M1, d) (act (M1, d))"
    and bus: "\<And>M1 M2 d d2 r. on_bus E d \<Longrightarrow> dv_base d = a \<Longrightarrow> act (M1, d) = Done (r, (M2, d2))
      \<Longrightarrow> mc_fs M2 = mc_fs M1 \<and> dv_pm_guard d2 = dv_pm_guard d \<and> P r (mc_hw M1) (mc_hw M2)"
    and err: "\<And>e h. P (Inl e) h h"
  shows "case (if a mod 4 \<noteq> 0 then Done (Inl (UnalignedAccess a 0), M) else with_device E b act M) of
      Done (r, M') \<Rightarrow> machine_restored hs M M' \<and> P r (mc_hw M) (mc_hw M')
    | Blocks \<Rightarrow> True
    | Panics \<Rightarrow> False"
proof (cases "a mod 4 = 0")
  case True
  have "with_device E b act M \<noteq> Panics"
    by (rule addr_device_access(1) [where P = P, OF assms])
  moreover have "machine_restored hs M M' \<and> P r (mc_hw M) (mc_hw M')"
    if "with_device E b act M = Done (r, M')" for r M'
    by (rule addr_device_access(2) [where P = P, OF assms that])
  ultimately show ?thesis
    using True by (simp split: run.split prod.split)
qed (use assms(3) err in \<open>simp add: machine_restored_refl\<close>)

text \<open>
  C15: the one-shot accesses \<open>read_register_at\<close> and \<open>write_register_at\<close> never panic, and when they
  return they have made exactly one 32-bit bus access at the address on success and none on an
  error; every lock is held as before, no handle is left open, and \<open>power/control\<close> of the owning
  device is back at its (trimmed) value. The kernel is asked to map \<open>/dev/mem\<close> and UIO regions
  where it says it does.
\<close>

theorem one_shot_accesses:
  assumes "is_page_size (page_size (ev_kernel E))" "bus_contract (ev_kernel E) (mc_fs M)"
    and "locks_ok hs (mc_locks M)"
  shows "(case read_register_at E me a force M of
        Done (r, M') \<Rightarrow> machine_restored hs M M' \<and> (case r of
            Inl _ \<Rightarrow> mc_hw M' = mc_hw M
          | Inr v \<Rightarrow> (v, mc_hw M') = map_prod ucast id (k_rd (ev_kernel E) a WU32 (mc_hw M)))
      | Blocks \<Rightarrow> True
      | Panics \<Rightarrow> False)
    \<and> (case write_register_at E me a v force M of
        Done (r, M') \<Rightarrow> machine_restored hs M M' \<and> mc_hw M' = (case r of
            Inl _ \<Rightarrow> mc_hw M
          | Inr _ \<Rightarrow> k_wr (ev_kernel E) a WU32 (ucast v) (mc_hw M))
      | Blocks \<Rightarrow> True
      | Panics \<Rightarrow> False)"
proof
  have read: "mc_fs M2 = mc_fs M1 \<and> dv_pm_guard d2 = dv_pm_guard d \<and> (case q of Inl _ \<Rightarrow> mc_hw M2 = mc_hw M1
      | Inr v \<Rightarrow> (v, mc_hw M2) = map_prod ucast id (k_rd (ev_kernel E) a WU32 (mc_hw M1)))"
    if t: "on_bus E d" "dv_base d = a" "read_u32 E me 0 (M1, d) = Done (q, (M2, d2))" for M1 M2 d d2 q
  proof -
    obtain x where "device_read E me 0 WU32 (M1, d) = Done (x, (M2, d2))"
        "q = (case x of Inl e \<Rightarrow> Inl e | Inr v \<Rightarrow> Inr (ucast v))"
      using t(3) by (auto simp: read_u32_def pbind_Done_iff pret_def)
    then show ?thesis
      using read_on_bus [OF t(1), of me 0 WU32 M1 x M2 d2] t(2)
      by (auto split: sum.splits prod.splits simp: map_prod_def)
  qed
  show "case read_register_at E me a force M of
        Done (r, M') \<Rightarrow> machine_restored hs M M' \<and> (case r of
            Inl _ \<Rightarrow> mc_hw M' = mc_hw M
          | Inr v \<Rightarrow> (v, mc_hw M') = map_prod ucast id (k_rd (ev_kernel E) a WU32 (mc_hw M)))
      | Blocks \<Rightarrow> True
      | Panics \<Rightarrow> False"
    unfolding read_register_at_def
    by (rule one_shot_access [where P = "\<lambda>r h h'. case r of Inl _ \<Rightarrow> h' = h
          | Inr v \<Rightarrow> (v, h') = map_prod ucast id (k_rd (ev_kernel E) a WU32 h)", OF assms _ _ _ read])
      (simp_all add: with_force_def with_read_only_def builder_new_def read_u32_def balanced_pret
        read_balanced [OF no_mapper])
  have "mc_fs M2 = mc_fs M1 \<and> dv_pm_guard d2 = dv_pm_guard d \<and> mc_hw M2 = (case q of Inl _ \<Rightarrow> mc_hw M1
      | Inr _ \<Rightarrow> k_wr (ev_kernel E) a WU32 (ucast v) (mc_hw M1))"
    if "on_bus E d" "dv_base d = a" "write_u32 E me 0 v (M1, d) = Done (q, (M2, d2))" for M1 M2 d d2 q
    using write_on_bus [OF that(1) that(3) [unfolded write_u32_def]] that(2)
    by (simp cong: sum.case_cong)
  then show "case write_register_at E me a v force M of
        Done (r, M') \<Rightarrow> machine_restored hs M M' \<and> mc_hw M' = (case r of
            Inl _ \<Rightarrow> mc_hw M
          | Inr _ \<Rightarrow> k_wr (ev_kernel E) a WU32 (ucast v) (mc_hw M))
      | Blocks \<Rightarrow> True
      | Panics \<Rightarrow> False"
    unfolding write_register_at_def
    by (intro one_shot_access [where P = "\<lambda>r h h'. h' = (case r of Inl _ \<Rightarrow> h
          | Inr _ \<Rightarrow> k_wr (ev_kernel E) a WU32 (ucast v) h)", OF assms])
      (simp_all add: with_force_def builder_new_def write_u32_def write_balanced [OF no_mapper])
qed

section \<open>A concrete machine\<close>

text \<open>A kernel that opens \<open>/dev/mem\<close> and nothing else.\<close>

definition devmem_kernel :: "(u64 \<Rightarrow> nat) kernel" where
  "devmem_kernel = flat_kernel\<lparr>k_open := (\<lambda>p sync ro. if sync then Inr \<lparr>fl_path = p, fl_key = (1, 1)\<rparr>
     else Inl (io_from_kind NotFound))\<rparr>"

definition devmem_env :: "(u64 \<Rightarrow> nat, unit) env" where
  "devmem_env = \<lparr>ev_kernel = devmem_kernel, ev_lock = sample_lock_env, ev_debug = True,
     ev_vt = \<lparr>vt_map = (\<lambda>_ _ _. (Inr (), ())), vt_unmap = (\<lambda>_. ()), vt_is_mapped = (\<lambda>_. True),
       vt_read = (\<lambda>_ _ _. Panics), vt_write = (\<lambda>_ _ _ _. Panics)\<rparr>\<rparr>"

definition devmem_device :: "unit device" where
  "devmem_device = \<lparr>dv_name = ''mmreg'', dv_base = 0xA0000010, dv_size = 0x20, dv_read_only = False,
     dv_device_path = None, dv_warnings = [],
     dv_backend = BOs ((os_new DevMem False)\<lparr>om_mapping := Some
       \<lparr>mp_ptr = 0xA0000000, mp_len = 0x30, mp_data_offset = 0x10\<rparr>\<rparr>),
     dv_uio_lock = None, dv_base_page_lock = None, dv_pm_guard = None\<rparr>"

definition devmem_builder :: "unit builder" where
  "devmem_builder = with_mapper_type DevMem (with_force True (builder_new (Addr 0xA0000010 0x20)))"

lemma devmem_page: "page_size devmem_kernel = 4096"
  by (simp add: devmem_kernel_def page_size_def flat_kernel_def)

lemma devmem_page_ok: "is_page_size (page_size (ev_kernel devmem_env))"
  by (simp add: devmem_env_def devmem_page is_page_size_4096)

lemma devmem_bus: "bus_contract (ev_kernel devmem_env) F"
  by (simp add: bus_contract_def devmem_contract_def uio_contract_def devmem_env_def devmem_kernel_def
      flat_kernel_def)

lemma devmem_opens:
  "open_window devmem_env devmem_builder sample_machine = Done (Inr devmem_device, sample_machine)"
proof -
  have own: "find_owning_device window_fs ''/sys/bus/platform/devices'' 0xA0000010 0x20 = None"
    by (simp add: find_owning_device_def window_fs_def)
  have "resolve_spec devmem_env window_fs devmem_builder = Inr (''mmreg'', 0xA0000010, 0x20, DevMem)"
    by (simp add: resolve_spec_def devmem_builder_def with_mapper_type_def with_force_def builder_new_def
        checked_add_def)
  moreover have "resolve window_fs 0xA0000010 0x20 DevMem False
      = Inr \<lparr>tg_mapper = DevMem, tg_owner = None, tg_warnings = []\<rparr>"
    by (simp add: resolve_def resolve_devmem_def own)
  moreover have "os_map True devmem_kernel window_fs 0xA0000010 0x20 (os_new DevMem False)
    = (Inr (), (os_new DevMem False)\<lparr>om_mapping := Some
        \<lparr>mp_ptr = 0xA0000000, mp_len = 0x30, mp_data_offset = 0x10\<rparr>\<rparr>)"
    by (simp add: os_map_def os_new_def map_devmem_def page_base_def mapping_new_def
        checked_add_def open_device_def devmem_kernel_def flat_kernel_def page_size_def)
  ultimately show ?thesis
    by (simp add: open_window_def sample_machine_def devmem_builder_def with_mapper_type_def with_force_def
        builder_new_def open_pm_guard_def open_backend_def devmem_env_def open_uio_lock_def pret_def
        devmem_device_def)
qed


theorem accesses_reach_bus_witness:
  "case device_write devmem_env 7 4 WU32 0x15 (sample_machine, devmem_device) of
      Done (Inr _, (M', _)) \<Rightarrow> mc_hw M' = flat_write 0xA0000014 WU32 0x15 (\<lambda>_. 0)
    | Done (Inl _, (M', _)) \<Rightarrow> mc_hw M' = (\<lambda>_. 0)
    | _ \<Rightarrow> True"
proof -
  have "on_bus devmem_env devmem_device"
    by (rule opened_on_bus [OF devmem_page_ok devmem_bus _ devmem_opens])
      (simp add: devmem_builder_def with_mapper_type_def with_force_def builder_new_def)
  from accesses_reach_bus [where me = 7 and off = 4 and w = WU32 and v = "0x15" and M = sample_machine,
      OF this, THEN conjunct1]
  show ?thesis
    by (simp add: devmem_env_def devmem_kernel_def flat_kernel_def devmem_device_def sample_machine_def
        width_cut_def take_bit_eq_mod split: run.splits prod.splits sum.splits)
qed

theorem one_shot_accesses_witness:
  "case write_register_at devmem_env 7 0xA0000014 0x15 True sample_machine of
      Done (r, M') \<Rightarrow> machine_restored [0, 1] sample_machine M'
    | Blocks \<Rightarrow> True
    | Panics \<Rightarrow> False"
proof -
  have "locks_ok [0, 1] (mc_locks sample_machine)"
    using two_locks_ok two_locks_reg by (simp add: locks_ok_def sample_machine_def)
  from one_shot_accesses [where me = 7 and a = "0xA0000014" and force = True and v = "0x15",
      OF devmem_page_ok devmem_bus this, THEN conjunct2]
  show ?thesis
    by (simp split: run.splits prod.splits)
qed

end
