(* ===== verification/Iface.thy ===== *)
theory Iface
  imports DeviceBus
begin

text \<open>
  \<open>src/interface.rs\<close>, with the register accesses of \<open>src/register.rs\<close>: named registers and bit fields
  over a device that is mapped on demand. The state of an operation is the machine with the
  interface.
\<close>

section \<open>State\<close>

record 'm iface =
  if_name :: string
  if_base :: u64
  if_size :: usize
  if_registers :: "register list"
  if_force :: bool
  if_mapper_type :: mapper_type
  if_profile :: "safety_profile option"
  if_custom :: "'m option"
  if_device :: "'m device option"
  if_warnings :: "string list"

type_synonym ('h, 'm) istate = "'h machine \<times> 'm iface"

definition iface_new :: "string \<Rightarrow> u64 \<Rightarrow> usize \<Rightarrow> register list \<Rightarrow> 'm iface" where
  "iface_new nm base sz regs = \<lparr>if_name = nm, if_base = base, if_size = sz, if_registers = regs,
     if_force = False, if_mapper_type = Auto, if_profile = None, if_custom = None, if_device = None,
     if_warnings = []\<rparr>"

text \<open>What an interface tells of itself.\<close>

definition iface_name :: "'m iface \<Rightarrow> string" where
  "iface_name I = if_name I"

definition iface_base_address :: "'m iface \<Rightarrow> u64" where
  "iface_base_address I = if_base I"

definition iface_size :: "'m iface \<Rightarrow> usize" where
  "iface_size I = if_size I"

definition iface_registers :: "'m iface \<Rightarrow> register list" where
  "iface_registers I = if_registers I"

definition iface_force_map :: "'m iface \<Rightarrow> bool" where
  "iface_force_map I = if_force I"

definition iface_mapper_type :: "'m iface \<Rightarrow> mapper_type" where
  "iface_mapper_type I = if_mapper_type I"

definition iface_safety_profile :: "'m iface \<Rightarrow> safety_profile option" where
  "iface_safety_profile I = if_profile I"

definition iface_warnings :: "'m iface \<Rightarrow> string list" where
  "iface_warnings I = if_warnings I"

definition iface_device :: "'m iface \<Rightarrow> 'm device option" where
  "iface_device I = if_device I"

text \<open>The builder methods.\<close>

definition iface_with_force :: "bool \<Rightarrow> 'm iface \<Rightarrow> 'm iface" where
  "iface_with_force force I = I\<lparr>if_force := force\<rparr>"

definition iface_with_mapper_type :: "mapper_type \<Rightarrow> 'm iface \<Rightarrow> 'm iface" where
  "iface_with_mapper_type mt I = I\<lparr>if_mapper_type := mt\<rparr>"

definition iface_with_safety_profile :: "safety_profile \<Rightarrow> 'm iface \<Rightarrow> 'm iface" where
  "iface_with_safety_profile p I = I\<lparr>if_profile := Some p\<rparr>"

definition iface_with_custom_mapper :: "'m \<Rightarrow> 'm iface \<Rightarrow> 'm iface" where
  "iface_with_custom_mapper m I = I\<lparr>if_custom := Some m\<rparr>"

definition iface_is_mapped :: "'m iface \<Rightarrow> bool" where
  "iface_is_mapped I \<longleftrightarrow> if_device I \<noteq> None"

section \<open>Layout\<close>

text \<open>The loop of \<open>validate_layout\<close> over the registers.\<close>

fun check_registers :: "u64 \<Rightarrow> usize \<Rightarrow> register list \<Rightarrow> mmreg_error + unit" where
  "check_registers base sz [] = Inr ()"
| "check_registers base sz (r # rs) =
     (if rg_offset r mod 4 \<noteq> 0 then Inl (UnalignedAccess base (rg_offset r))
      else if (case checked_add (ucast (rg_offset r)) 4 of None \<Rightarrow> True | Some fin \<Rightarrow> fin > sz)
      then Inl (OutOfBoundsAccess (rg_name r) (rg_offset r) 4 sz)
      else check_registers base sz rs)"

definition validate_layout :: "'m iface \<Rightarrow> mmreg_error + unit" where
  "validate_layout I =
     (if if_base I mod 4 \<noteq> 0 then Inl (UnalignedAccess (if_base I) 0)
      else if if_size I = 0 \<or> checked_add (if_base I) (if_size I) = None
      then Inl (OutOfBoundsAccess (if_name I) 0 4 (if_size I))
      else check_registers (if_base I) (if_size I) (if_registers I))"

section \<open>Mapping\<close>

definition run_profile ::
  "('h, 'm) env \<Rightarrow> thread \<Rightarrow> safety_profile option \<Rightarrow> (mmreg_error, 'h machine, unit) prog"
where
  "run_profile E me p = (case p of
       Some q \<Rightarrow> execute_with q (\<lambda>addr. read_register_at E me addr True)
     | None \<Rightarrow> pret ())"

definition iface_builder :: "'m iface \<Rightarrow> 'm builder" where
  "iface_builder I =
     (let b = with_mapper_type (if_mapper_type I) (with_force (if_force I)
           (with_name (if_name I) (builder_new (Addr (if_base I) (if_size I)))))
      in case if_custom I of Some m \<Rightarrow> with_custom_mapper m b | None \<Rightarrow> b)"

text \<open>\<open>self.custom_mapper.take()\<close> happens before \<open>builder.open()?\<close>.\<close>

definition iface_map :: "('h, 'm) env \<Rightarrow> thread \<Rightarrow> (mmreg_error, ('h, 'm) istate, unit) prog" where
  "iface_map E me = (\<lambda>(M, I).
     if iface_is_mapped I then Done (Inr (), (M, I))
     else case validate_layout I of
       Inl e \<Rightarrow> Done (Inl e, (M, I))
     | Inr _ \<Rightarrow> (case run_profile E me (if_profile I) M of
         Done (Inl e, M1) \<Rightarrow> Done (Inl e, (M1, I))
       | Done (Inr _, M1) \<Rightarrow> (case device_open E me (iface_builder I) M1 of
           Done (Inl e, M2) \<Rightarrow> Done (Inl e, (M2, I\<lparr>if_custom := None\<rparr>))
         | Done (Inr d, M2) \<Rightarrow> Done (Inr (), (M2, I\<lparr>if_custom := None, if_warnings := dv_warnings d,
             if_device := Some d\<rparr>))
         | Blocks \<Rightarrow> Blocks
         | Panics \<Rightarrow> Panics)
       | Blocks \<Rightarrow> Blocks
       | Panics \<Rightarrow> Panics))"

definition iface_unmap :: "('h, 'm) env \<Rightarrow> ('h, 'm) istate \<Rightarrow> ('h, 'm) istate" where
  "iface_unmap E = (\<lambda>(M, I). case if_device I of
       None \<Rightarrow> (M, I)
     | Some d \<Rightarrow> (case take_custom_mapper E d of (m, d') \<Rightarrow>
         (device_drop (M, d'), I\<lparr>if_device := None,
            if_custom := (case m of Some c \<Rightarrow> Some c | None \<Rightarrow> if_custom I)\<rparr>)))"

text \<open>\<open>Drop for Interface\<close>.\<close>

definition iface_drop :: "('h, 'm) env \<Rightarrow> ('h, 'm) istate \<Rightarrow> 'h machine" where
  "iface_drop E s = fst (iface_unmap E s)"

section \<open>Registers by name\<close>

fun position :: "('a \<Rightarrow> bool) \<Rightarrow> 'a list \<Rightarrow> nat option" where
  "position P [] = None"
| "position P (x # xs) = (if P x then Some 0 else map_option Suc (position P xs))"

definition register_index :: "'m iface \<Rightarrow> string \<Rightarrow> mmreg_error + nat" where
  "register_index I nm = (case position (\<lambda>r. rg_name r = nm) (if_registers I) of
       Some i \<Rightarrow> Inr i
     | None \<Rightarrow> Inl (RegisterNotFound (if_name I) nm (map rg_name (if_registers I))))"

definition iface_field :: "'m iface \<Rightarrow> string \<Rightarrow> string \<Rightarrow> mmreg_error + (nat \<times> u32 \<times> u8)" where
  "iface_field I reg_name sub_name =
     rbind (register_index I reg_name) (\<lambda>i.
       (let r = if_registers I ! i in
        case subregister r sub_name of
          None \<Rightarrow> Inl (SubRegisterNotFound (if_name I) (rg_name r) sub_name (map sr_name (rg_children r)))
        | Some s \<Rightarrow>
            if sub_mask s = 0
            then Inl (InvalidSubRegister (rg_name r) (sr_name s) (sr_msb s) (sr_lsb s))
            else Inr (i, sub_mask s, sr_lsb s)))"

section \<open>Accesses\<close>

text \<open>An operation on a register and its device; on an error the register is unchanged.\<close>

type_synonym ('h, 'm, 'a) reg_op = "register \<Rightarrow> (mmreg_error, ('h, 'm) world, 'a \<times> register) prog"

definition register_read :: "('h, 'm) env \<Rightarrow> thread \<Rightarrow> ('h, 'm, u32) reg_op" where
  "register_read E me r = pbind (read_u32 E me (rg_offset r)) (\<lambda>v. pret (v, r\<lparr>rg_raw := v\<rparr>))"

definition register_write :: "('h, 'm) env \<Rightarrow> thread \<Rightarrow> u32 \<Rightarrow> ('h, 'm, unit) reg_op" where
  "register_write E me v r = pbind (write_u32 E me (rg_offset r) v) (\<lambda>_. pret ((), r\<lparr>rg_raw := v\<rparr>))"

definition field_read :: "('h, 'm) env \<Rightarrow> thread \<Rightarrow> u32 \<Rightarrow> u8 \<Rightarrow> ('h, 'm, u32) reg_op" where
  "field_read E me msk lo r = pbind (register_read E me r) (\<lambda>(v, r'). pret (field_of v msk lo, r'))"

definition field_write :: "('h, 'm) env \<Rightarrow> thread \<Rightarrow> u32 \<Rightarrow> u8 \<Rightarrow> u32 \<Rightarrow> ('h, 'm, unit) reg_op" where
  "field_write E me msk lo v r =
     pbind (update_u32 E me (rg_offset r) msk (push_bit (unat lo) v)) (\<lambda>u. pret ((), r\<lparr>rg_raw := u\<rparr>))"

text \<open>
  \<open>access\<close>. The two panics (the \<open>expect\<close> on the device and the index) are branches of the model.
\<close>

definition iface_access ::
  "('h, 'm) env \<Rightarrow> thread \<Rightarrow> nat \<Rightarrow> ('h, 'm, 'a) reg_op \<Rightarrow> (mmreg_error, ('h, 'm) istate, 'a) prog"
where
  "iface_access E me i act = (\<lambda>(M, I).
     let finish = (\<lambda>s. if iface_is_mapped I then s else iface_unmap E s) in
     case iface_map E me (M, I) of
       Done (Inl e, s) \<Rightarrow> Done (Inl e, s)
     | Done (Inr _, (M1, I1)) \<Rightarrow> (case if_device I1 of
         None \<Rightarrow> Panics
       | Some d \<Rightarrow>
           if i < length (if_registers I1) then
             (case act (if_registers I1 ! i) (M1, d) of
                Done (Inl e, (M2, d2)) \<Rightarrow> Done (Inl e, finish (M2, I1\<lparr>if_device := Some d2\<rparr>))
              | Done (Inr (x, r), (M2, d2)) \<Rightarrow> Done (Inr x, finish (M2, I1\<lparr>if_device := Some d2,
                  if_registers := (if_registers I1)[i := r]\<rparr>))
              | Blocks \<Rightarrow> Blocks
              | Panics \<Rightarrow> Panics)
           else Panics)
     | Blocks \<Rightarrow> Blocks
     | Panics \<Rightarrow> Panics)"

text \<open>\<open>let i = lookup?; access(i, op)\<close>.\<close>

definition with_lookup ::
  "(mmreg_error + 'i) \<Rightarrow> ('i \<Rightarrow> (mmreg_error, ('h, 'm) istate, 'a) prog) \<Rightarrow> (mmreg_error, ('h, 'm) istate, 'a) prog"
where
  "with_lookup r f = (case r of Inl e \<Rightarrow> pfail e | Inr i \<Rightarrow> f i)"

definition read_register :: "('h, 'm) env \<Rightarrow> thread \<Rightarrow> string \<Rightarrow> (mmreg_error, ('h, 'm) istate, u32) prog" where
  "read_register E me nm s =
     with_lookup (register_index (snd s) nm) (\<lambda>i. iface_access E me i (register_read E me)) s"

definition write_register ::
  "('h, 'm) env \<Rightarrow> thread \<Rightarrow> string \<Rightarrow> u32 \<Rightarrow> (mmreg_error, ('h, 'm) istate, unit) prog"
where
  "write_register E me nm v s =
     with_lookup (register_index (snd s) nm) (\<lambda>i. iface_access E me i (register_write E me v)) s"

definition read_subregister ::
  "('h, 'm) env \<Rightarrow> thread \<Rightarrow> string \<Rightarrow> string \<Rightarrow> (mmreg_error, ('h, 'm) istate, u32) prog"
where
  "read_subregister E me reg sub s =
     with_lookup (iface_field (snd s) reg sub) (\<lambda>(i, msk, lo). iface_access E me i (field_read E me msk lo)) s"

definition write_subregister ::
  "('h, 'm) env \<Rightarrow> thread \<Rightarrow> string \<Rightarrow> string \<Rightarrow> u32 \<Rightarrow> (mmreg_error, ('h, 'm) istate, unit) prog"
where
  "write_subregister E me reg sub v s =
     with_lookup (iface_field (snd s) reg sub) (\<lambda>(i, msk, lo). iface_access E me i (field_write E me msk lo v)) s"

definition parse_subregister :: "'m iface \<Rightarrow> string \<Rightarrow> string \<Rightarrow> mmreg_error + u32" where
  "parse_subregister I reg sub = rbind (iface_field I reg sub) (\<lambda>(i, msk, lo).
     Inr (field_of (rg_raw (if_registers I ! i)) msk lo))"

end
