(* ===== verification/IfaceSpec.thy ===== *)
theory IfaceSpec
  imports Iface
begin

text \<open>
  The properties of \<open>Iface\<close>: a validated layout has no register whose access is refused, every
  operation keeps the interface well formed and gives back the locks, a field that was written is
  read back, and what a failed \<open>map\<close> does to a custom mapper.
\<close>

section \<open>Layout\<close>

lemma word_mod_4: "(x :: u64) mod 4 = 0 \<longleftrightarrow> 4 dvd unat x" "(y :: u32) mod 4 = 0 \<longleftrightarrow> 4 dvd unat y"
  by (simp_all add: word_unat_eq_iff unat_mod dvd_eq_mod_eq_0)

lemma register_room:
  "(case checked_add (ucast (off :: u32)) 4 of None \<Rightarrow> True | Some fin \<Rightarrow> fin > (sz :: usize))
    \<longleftrightarrow> unat sz < unat off + 4"
proof -
  have "unat (ucast off :: usize) + unat (4 :: usize) < 2 ^ 64"
    using unat_bound [of off] by simp
  then have "checked_add (ucast off) 4 = Some (ucast off + 4 :: usize)"
    and "unat (ucast off + 4 :: usize) = unat off + 4"
    by (simp_all add: checked_add_def unat_add_no_wrap)
  then show ?thesis
    by (simp add: word_less_nat_alt)
qed

lemma check_registers_Inr:
  "check_registers base sz rs = Inr () \<longleftrightarrow>
     (\<forall>r\<in>set rs. 4 dvd unat (rg_offset r) \<and> unat (rg_offset r) + 4 \<le> unat sz)"
  by (induction rs) (simp_all add: register_room word_mod_4 not_less conj_commute)

lemma validate_layout_Inr:
  "validate_layout I = Inr () \<longleftrightarrow> 4 dvd unat (if_base I) \<and> if_size I \<noteq> 0
     \<and> unat (if_base I) + unat (if_size I) < 2 ^ 64
     \<and> (\<forall>r\<in>set (if_registers I). 4 dvd unat (rg_offset r) \<and> unat (rg_offset r) + 4 \<le> unat (if_size I))"
  by (simp add: validate_layout_def check_registers_Inr word_mod_4 checked_add_def)

text \<open>
  C17: \<open>validate_layout\<close> accepts exactly the layouts with an aligned base and a non-empty window inside
  the address space on which the device refuses no 32-bit read or write of a register for alignment
  or bounds.
\<close>

theorem layout_accesses_allowed:
  assumes "dv_base d = if_base I" "dv_size d = if_size I" "\<not> dv_read_only d"
  shows "validate_layout I = Inr () \<longleftrightarrow> 4 dvd unat (if_base I) \<and> if_size I \<noteq> 0
     \<and> unat (if_base I) + unat (if_size I) < 2 ^ 64
     \<and> (\<forall>r\<in>set (if_registers I). \<forall>wr.
          check_access d (rg_offset r) WU32 wr = Inr (if_base I + ucast (rg_offset r)))"
proof -
  have "check_access d (rg_offset r) WU32 wr = Inr (if_base I + ucast (rg_offset r))
      \<longleftrightarrow> 4 dvd unat (rg_offset r) \<and> unat (rg_offset r) + 4 \<le> unat (if_size I)"
    if "4 dvd unat (if_base I)" for r wr
  proof -
    have "4 dvd unat (if_base I) + unat (rg_offset r) \<longleftrightarrow> 4 dvd unat (rg_offset r)"
      using that by (simp add: dvd_add_right_iff)
    then show ?thesis
      using assms width_dvd_mod [of WU32] unfolding check_access_Inr by auto
  qed
  then show ?thesis
    unfolding validate_layout_Inr by blast
qed

section \<open>What an access keeps of its device\<close>

definition same_window :: "'m device \<Rightarrow> 'm device \<Rightarrow> bool" where
  "same_window d d' \<longleftrightarrow> dv_base d' = dv_base d \<and> dv_size d' = dv_size d \<and> dv_read_only d' = dv_read_only d"

lemma same_window_refl: "same_window d (d\<lparr>dv_base_page_lock := c\<rparr>)" "same_window d d"
  by (simp_all add: same_window_def)

lemma dev_mapped_set_locks: "dev_mapped E okay win (M\<lparr>mc_locks := L\<rparr>, d) = dev_mapped E okay win (M, d)"
  by (simp add: dev_mapped_def split: backend.split)

text \<open>A body keeps the device mapped when the access was allowed.\<close>

definition keeps_mapped ::
  "('h, 'm) env \<Rightarrow> ('m \<Rightarrow> bool) \<Rightarrow> ('m \<Rightarrow> u64 \<times> usize \<Rightarrow> bool) \<Rightarrow> u32 \<Rightarrow> width \<Rightarrow> bool
    \<Rightarrow> (('h, 'm) world \<Rightarrow> ('a \<times> ('h, 'm) world) run) \<Rightarrow> bool"
where
  "keeps_mapped E okay win off w wr body \<longleftrightarrow> (\<forall>M d a x M' d'.
     dev_mapped E okay win (M, d) \<longrightarrow> check_access d off w wr = Inr a
     \<longrightarrow> body (M, d) = Done (x, (M', d')) \<longrightarrow> dev_mapped E okay win (M', d') \<and> same_window d d')"

lemma keeps_mappedD:
  "keeps_mapped E okay win off w wr body \<Longrightarrow> dev_mapped E okay win (M, d)
    \<Longrightarrow> check_access d off w wr = Inr a \<Longrightarrow> body (M, d) = Done (x, (M', d'))
    \<Longrightarrow> dev_mapped E okay win (M', d') \<and> same_window d d'"
  unfolding keeps_mapped_def by blast

lemma read_keeps_mapped:
  "memory_mapper okay win (ev_vt E) \<Longrightarrow> keeps_mapped E okay win off w wr (backend_read E off w)"
  unfolding keeps_mapped_def by (auto simp: same_window_def dest!: mapped_read)

lemma write_keeps_mapped:
  assumes "memory_mapper okay win (ev_vt E)"
  shows "keeps_mapped E okay win off w wr (write_body E off w v)"
  unfolding keeps_mapped_def
proof (intro allI impI)
  fix M d a x M' d'
  assume m: "dev_mapped E okay win (M, d)" and c: "check_access d off w wr = Inr a"
    and u: "write_body E off w v (M, d) = Done (x, (M', d'))"
  from mapped_write [OF assms m c, where v = v] u
  show "dev_mapped E okay win (M', d') \<and> same_window d d'"
    by (auto simp: write_body_def same_window_def)
qed

lemma update_keeps_mapped:
  assumes "memory_mapper okay win (ev_vt E)"
  shows "keeps_mapped E okay win off WU32 True (update_body E off msk v)"
  unfolding keeps_mapped_def
proof (intro allI impI)
  fix M d a x M' d'
  assume m: "dev_mapped E okay win (M, d)" and c: "check_access d off WU32 True = Inr a"
    and u: "update_body E off msk v (M, d) = Done (x, (M', d'))"
  obtain y M1 d1 where r: "backend_read E off WU32 (M, d) = Done (y, (M1, d1))"
    "dev_mapped E okay win (M1, d1)" "same_window d d1"
    using mapped_read [OF assms m c] unfolding same_window_def by blast
  have "check_access d1 off WU32 True = Inr a"
    using c r(3) by (simp add: same_window_def check_access_Inr)
  from mapped_write [OF assms r(2) this, where v = "ucast (replace_bits (ucast y) msk v)"] u r
  show "dev_mapped E okay win (M', d') \<and> same_window d d'"
    by (auto simp: update_body_def Let_def same_window_def)
qed

lemma access_keeps_mapped:
  assumes "keeps_mapped E okay win off w wr body" "dev_mapped E okay win (M, d)"
    and "device_access E me off w wr body (M, d) = Done (r, (M', d'))"
  shows "dev_mapped E okay win (M', d') \<and> same_window d d'"
  using assms(3)
proof (cases rule: device_access_frame)
  case (failed e L c)
  with assms(2) show ?thesis
    by (simp add: dev_mapped_locks same_window_refl)
next
  case (ran a x L c M2 d2 L')
  have "check_access (d\<lparr>dv_base_page_lock := c\<rparr>) off w wr = Inr a"
    using ran(1) by (simp add: check_access_page)
  from keeps_mappedD [OF assms(1) _ this ran(3)] assms(2)
  have "dev_mapped E okay win (M2, d2)" "same_window d d2"
    by (simp_all add: dev_mapped_locks same_window_def)
  with ran(4) show ?thesis
    by (simp add: dev_mapped_set_locks)
qed


section \<open>The contract of a register operation\<close>

definition reg_shape :: "register \<Rightarrow> string \<times> u32 \<times> sub_register list" where
  "reg_shape r = (rg_name r, rg_offset r, rg_children r)"

text \<open>
  What an interface relies on when it runs an operation on a register of a mapped device: it does not
  panic, the device stays mapped with its locks given back, and only \<open>raw\<close> of the register changes.
\<close>

definition reg_post ::
  "('h, 'm) env \<Rightarrow> ('m \<Rightarrow> bool) \<Rightarrow> ('m \<Rightarrow> u64 \<times> usize \<Rightarrow> bool) \<Rightarrow> nat list \<Rightarrow> register
    \<Rightarrow> ('h, 'm) world \<Rightarrow> ((mmreg_error + ('a \<times> register)) \<times> ('h, 'm) world) run \<Rightarrow> bool"
where
  "reg_post E okay win hs r s out \<longleftrightarrow> balanced hs s out \<and> (case out of
       Done (x, s') \<Rightarrow> dev_mapped E okay win s' \<and> same_window (snd s) (snd s')
         \<and> (case x of Inr (_, r') \<Rightarrow> reg_shape r' = reg_shape r | Inl _ \<Rightarrow> True)
     | _ \<Rightarrow> True)"

locale register_op =
  fixes E :: "('h, 'm) env" and act :: "('h, 'm, 'a) reg_op"
  assumes act_post: "memory_mapper okay win (ev_vt E) \<Longrightarrow> dev_mapped E okay win s \<Longrightarrow> world_ok hs s
    \<Longrightarrow> reg_post E okay win hs r s (act r s)"

lemma reg_shape_raw [simp]: "reg_shape (r\<lparr>rg_raw := v\<rparr>) = reg_shape r"
  by (simp add: reg_shape_def)

lemma pbind_pret_pret: "pbind (pbind m (\<lambda>x. pret (f x))) (\<lambda>x. pret (g x)) = pbind m (\<lambda>x. pret (g (f x)))"
  by (rule ext) (simp add: pbind_def pret_def split: run.split sum.split prod.split)

lemma register_read_eq:
  "register_read E me r = pbind (device_read E me (rg_offset r) WU32) (\<lambda>v. pret (ucast v, r\<lparr>rg_raw := ucast v\<rparr>))"
  by (simp add: register_read_def read_u32_def pbind_pret_pret)

lemma field_read_eq:
  "field_read E me msk lo r = pbind (device_read E me (rg_offset r) WU32)
     (\<lambda>v. pret (field_of (ucast v) msk lo, r\<lparr>rg_raw := ucast v\<rparr>))"
  by (simp add: field_read_def register_read_eq split_def pbind_pret_pret)

lemma access_reg_post:
  assumes "balanced hs (M, d) (device_access E me off w wr body (M, d))"
    and "keeps_mapped E okay win off w wr body" "dev_mapped E okay win (M, d)"
    and "\<And>x. reg_shape (g x) = reg_shape r"
  shows "reg_post E okay win hs r (M, d) (pbind (device_access E me off w wr body) (\<lambda>x. pret (f x, g x)) (M, d))"
proof -
  have "balanced hs (M, d) (pbind (device_access E me off w wr body) (\<lambda>x. pret (f x, g x)) (M, d))"
    by (rule balanced_pret) (rule assms(1))
  moreover have "dev_mapped E okay win s' \<and> same_window d (snd s')"
    if "device_access E me off w wr body (M, d) = Done (x, s')" for x s'
    using access_keeps_mapped [OF assms(2,3), of me x "fst s'" "snd s'"] that by simp
  ultimately show ?thesis
    using assms(4)
    by (auto simp: reg_post_def pbind_def pret_def split: run.split sum.split prod.split)
qed

interpretation register_read: register_op E "register_read E me" for E me
proof unfold_locales
  fix okay win s hs r
  assume a: "memory_mapper okay win (ev_vt E)" "dev_mapped E okay win s" "world_ok hs s"
  obtain M d where s: "s = (M, d)" by (cases s)
  show "reg_post E okay win hs r s (register_read E me r s)"
    using a unfolding register_read_eq s device_read_def
    by (intro access_reg_post read_keeps_mapped read_balanced [unfolded device_read_def]) simp_all
qed

interpretation field_read: register_op E "field_read E me msk lo" for E me msk lo
proof unfold_locales
  fix okay win s hs r
  assume a: "memory_mapper okay win (ev_vt E)" "dev_mapped E okay win s" "world_ok hs s"
  obtain M d where s: "s = (M, d)" by (cases s)
  show "reg_post E okay win hs r s (field_read E me msk lo r s)"
    using a unfolding field_read_eq s device_read_def
    by (intro access_reg_post read_keeps_mapped read_balanced [unfolded device_read_def]) simp_all
qed

interpretation register_write: register_op E "register_write E me v" for E me v
proof unfold_locales
  fix okay win s hs r
  assume a: "memory_mapper okay win (ev_vt E)" "dev_mapped E okay win s" "world_ok hs s"
  obtain M d where s: "s = (M, d)" by (cases s)
  show "reg_post E okay win hs r s (register_write E me v r s)"
    using a unfolding register_write_def write_u32_def s device_write_def
    by (intro access_reg_post write_keeps_mapped write_balanced [unfolded device_write_def]) simp_all
qed

interpretation field_write: register_op E "field_write E me msk lo v" for E me msk lo v
proof unfold_locales
  fix okay win s hs r
  assume a: "memory_mapper okay win (ev_vt E)" "dev_mapped E okay win s" "world_ok hs s"
  obtain M d where s: "s = (M, d)" by (cases s)
  show "reg_post E okay win hs r s (field_write E me msk lo v r s)"
    using a unfolding field_write_def update_u32_def s
    by (intro access_reg_post update_keeps_mapped update_balanced [unfolded update_u32_def]) simp_all
qed

section \<open>The interface invariant\<close>

definition iface_handles :: "'m iface \<Rightarrow> nat list" where
  "iface_handles I = (case if_device I of Some d \<Rightarrow> dev_handles d | None \<Rightarrow> [])"

text \<open>
  A well-formed interface: a waiting custom mapper keeps its contract; a device is mapped at the
  window of the interface, writable, and the layout was accepted; the locks are in order.
\<close>

definition iface_ok ::
  "('h, 'm) env \<Rightarrow> ('m \<Rightarrow> bool) \<Rightarrow> ('m \<Rightarrow> u64 \<times> usize \<Rightarrow> bool) \<Rightarrow> nat list \<Rightarrow> ('h, 'm) istate \<Rightarrow> bool"
where
  "iface_ok E okay win hs = (\<lambda>(M, I).
     (case if_custom I of Some m \<Rightarrow> okay m | None \<Rightarrow> True)
     \<and> locks_ok (iface_handles I @ hs) (mc_locks M)
     \<and> (case if_device I of None \<Rightarrow> True
        | Some d \<Rightarrow> dev_mapped E okay win (M, d) \<and> dv_base d = if_base I \<and> dv_size d = if_size I
            \<and> \<not> dv_read_only d \<and> validate_layout I = Inr ()))"

definition same_layout :: "'m iface \<Rightarrow> 'm iface \<Rightarrow> bool" where
  "same_layout I I' \<longleftrightarrow> if_name I' = if_name I \<and> if_base I' = if_base I \<and> if_size I' = if_size I
     \<and> map reg_shape (if_registers I') = map reg_shape (if_registers I)"

text \<open>The outcome of an operation on a well-formed interface.\<close>

definition iface_post ::
  "('h, 'm) env \<Rightarrow> ('m \<Rightarrow> bool) \<Rightarrow> ('m \<Rightarrow> u64 \<times> usize \<Rightarrow> bool) \<Rightarrow> nat list \<Rightarrow> ('h, 'm) istate
    \<Rightarrow> ((mmreg_error + 'a) \<times> ('h, 'm) istate) run \<Rightarrow> bool"
where
  "iface_post E okay win hs s out \<longleftrightarrow> (case out of
       Done (_, s') \<Rightarrow> iface_ok E okay win hs s' \<and> same_layout (snd s) (snd s')
         \<and> holdings (mc_locks (fst s')) = holdings (mc_locks (fst s))
     | Blocks \<Rightarrow> True
     | Panics \<Rightarrow> False)"

lemma check_registers_shape:
  "map reg_shape rs = map reg_shape rs' \<Longrightarrow> check_registers b n rs = check_registers b n rs'"
proof (induction rs arbitrary: rs')
  case (Cons r rs)
  then obtain r' rs'' where *: "rs' = r' # rs''" "reg_shape r = reg_shape r'" "map reg_shape rs = map reg_shape rs''"
    by (cases rs') auto
  have "rg_name r = rg_name r'" "rg_offset r = rg_offset r'"
    using *(2) by (simp_all add: reg_shape_def)
  with Cons.IH [OF *(3)] show ?case
    by (simp add: *(1))
qed simp

lemma validate_layout_same: "same_layout I I' \<Longrightarrow> validate_layout I' = validate_layout I"
  using check_registers_shape [of "if_registers I'" "if_registers I"]
  by (simp add: same_layout_def validate_layout_def)

lemma same_layout_refl [simp]: "same_layout I I"
  by (simp add: same_layout_def)

lemma same_layout_trans: "same_layout I J \<Longrightarrow> same_layout J K \<Longrightarrow> same_layout I K"
  by (simp add: same_layout_def)

text \<open>Unmapping.\<close>

lemma unmap_ok:
  assumes "memory_mapper okay win (ev_vt E)" "iface_ok E okay win hs (M, I)"
  shows "iface_ok E okay win hs (iface_unmap E (M, I)) \<and> same_layout I (snd (iface_unmap E (M, I)))
    \<and> holdings (mc_locks (fst (iface_unmap E (M, I)))) = holdings (mc_locks M)
    \<and> if_device (snd (iface_unmap E (M, I))) = None"
proof (cases "if_device I")
  case None
  with assms(2) show ?thesis
    by (simp add: iface_unmap_def)
next
  case (Some d)
  obtain m d' where t: "take_custom_mapper E d = (m, d')"
    by (metis prod.exhaust)
  have h: "dev_handles d' = dev_handles d" and c: "\<forall>x. m = Some x \<longrightarrow> okay x"
    using t assms(2) Some memory_mapper.unmap [OF assms(1)]
    by (auto simp: take_custom_mapper_def backend_take_custom_def backend_unmap_def dev_handles_def
        iface_ok_def dev_mapped_def split: backend.splits)
  have "world_ok hs (M, d')"
    using assms(2) Some h by (simp add: iface_ok_def world_ok_def iface_handles_def)
  note l = device_drop_locks [OF this]
  show ?thesis
    using assms(2) Some t l c
    by (auto simp: iface_unmap_def iface_ok_def iface_handles_def same_layout_def split: option.splits)
qed

text \<open>A run of checks keeps what every read keeps.\<close>

lemma run_checks_keeps:
  assumes "\<And>a s. Q s \<Longrightarrow> f a s \<noteq> Panics \<and> (\<forall>r s'. f a s = Done (r, s') \<longrightarrow> Q s')" "Q s"
  shows "run_checks n cs f s \<noteq> Panics \<and> (\<forall>r s'. run_checks n cs f s = Done (r, s') \<longrightarrow> Q s')"
  using assms(2)
proof (induction cs arbitrary: s)
  case (Cons c cs)
  show ?case
    using assms(1) [OF Cons.prems, of "vc_addr c"] Cons.IH
    by (auto simp: pbind_def pfail_def split: run.splits sum.splits)
qed (simp add: pret_def)

text \<open>Reading through a temporary device needs no promise of the kernel to give the locks back.\<close>

lemma backend_read_frame:
  "backend_read E off w (M, d) = Done (x, (M', d')) \<Longrightarrow> mc_fs M' = mc_fs M \<and> dv_pm_guard d' = dv_pm_guard d"
  by (auto simp: backend_read_def split: backend.splits run.splits)

lemma read_u32_frame:
  assumes "read_u32 E me off (M, d) = Done (r, (M', d'))"
  shows "mc_fs M' = mc_fs M \<and> dv_pm_guard d' = dv_pm_guard d"
proof -
  obtain x where "device_access E me off WU32 False (backend_read E off WU32) (M, d) = Done (x, (M', d'))"
    using assms by (auto simp: read_u32_def device_read_def pbind_Done_iff pret_def)
  then show ?thesis
    by (cases rule: device_access_frame) (auto dest: backend_read_frame)
qed

lemma read_register_at_locks:
  assumes "is_page_size (page_size (ev_kernel E))" "locks_ok hs (mc_locks M)"
  shows "read_register_at E me a force M \<noteq> Panics
    \<and> (\<forall>r M'. read_register_at E me a force M = Done (r, M') \<longrightarrow>
        locks_ok hs (mc_locks M') \<and> holdings (mc_locks M') = holdings (mc_locks M))"
proof (cases "a mod 4 = 0")
  case True
  define b where "b = with_force force (with_read_only True (builder_new (Addr a 4) :: 'b builder))"
  have b: "bd_custom b = None"
    by (simp add: b_def with_force_def with_read_only_def builder_new_def)
  have eq: "read_register_at E me a force M = with_device E b (read_u32 E me 0) M"
    using True by (simp add: read_register_at_def b_def)
  have bal: "balanced hs (M1, d) (read_u32 E me 0 (M1, d))"
    if "dev_mapped E (\<lambda>_. False) (\<lambda>_ _. False) (M1, d)" "world_ok hs (M1, d)" for M1 d
    unfolding read_u32_def by (rule balanced_pret) (rule read_balanced [OF no_mapper that])
  have frame: "mc_fs M2 = mc_fs M1 \<and> dv_pm_guard d2 = dv_pm_guard d \<and> True"
    if "open_window E b M = Done (Inr d, M1)" "read_u32 E me 0 (M1, d) = Done (r, (M2, d2))" for M1 M2 d d2 r
    using read_u32_frame [OF that(2)] by simp
  have "machine_restored hs M M' \<and> True" if "with_device E b (read_u32 E me 0) M = Done (r, M')" for r M'
    by (rule with_device_restores(2) [where P = "\<lambda>_ _ _. True", OF assms(1) b assms(2) bal frame TrueI that])
  moreover have "with_device E b (read_u32 E me 0) M \<noteq> Panics"
    by (rule with_device_restores(1) [where P = "\<lambda>_ _ _. True", OF assms(1) b assms(2) bal frame TrueI])
  ultimately show ?thesis
    unfolding eq machine_restored_def by blast
qed (use assms(2) in \<open>simp add: read_register_at_def\<close>)

lemma run_profile_locks:
  assumes "is_page_size (page_size (ev_kernel E))" "locks_ok hs (mc_locks M)"
  shows "run_profile E me p M \<noteq> Panics
    \<and> (\<forall>r M'. run_profile E me p M = Done (r, M') \<longrightarrow>
        locks_ok hs (mc_locks M') \<and> holdings (mc_locks M') = holdings (mc_locks M))"
proof (cases p)
  case (Some q)
  show ?thesis
    unfolding run_profile_def Some option.case execute_with_def
    by (rule run_checks_keeps [where Q = "\<lambda>M'. locks_ok hs (mc_locks M')
        \<and> holdings (mc_locks M') = holdings (mc_locks M)"])
      (use read_register_at_locks [OF assms(1)] assms(2) in \<open>fastforce+\<close>)
qed (use assms(2) in \<open>simp add: run_profile_def pret_def\<close>)

text \<open>Mapping.\<close>

lemma iface_builder_simps:
  "bd_custom (iface_builder I) = if_custom I" "bd_spec (iface_builder I) = Addr (if_base I) (if_size I)"
  "bd_read_only (iface_builder I) = False" "bd_profile (iface_builder I) = None"
  by (simp_all add: iface_builder_def Let_def with_mapper_type_def with_force_def with_name_def
      builder_new_def with_custom_mapper_def split: option.split)

lemma device_open_iface: "device_open E me (iface_builder I) = open_window E (iface_builder I)"
  by (rule ext) (simp add: device_open_def iface_builder_simps)

text \<open>The interface after its device has been opened.\<close>

lemma map_opened:
  assumes "memory_mapper okay win (ev_vt E)" "is_page_size (page_size (ev_kernel E))"
    and "iface_ok E okay win hs (M, I)" "if_device I = None" "validate_layout I = Inr ()"
    and "locks_ok hs (mc_locks M1)" "open_window E (iface_builder I) M1 = Done (Inr d, M2)"
  shows "iface_ok E okay win hs (M2, I\<lparr>if_custom := None, if_warnings := dv_warnings d, if_device := Some d\<rparr>)
    \<and> holdings (mc_locks M2) = holdings (mc_locks M1)"
proof -
  have cust: "case bd_custom (iface_builder I) of Some m \<Rightarrow> okay m | None \<Rightarrow> True"
    using assms(3) by (simp add: iface_builder_simps iface_ok_def)
  have r: "dev_mapped E okay win (M2, d)" "world_ok hs (M2, d)"
    "holders (M2, d) = holdings (mc_locks M1)" "\<not> dv_read_only d"
    using opened_device [OF assms(1,2) cust assms(6,7)] by (auto simp: iface_builder_simps)
  have "validate_layout (I\<lparr>if_custom := None, if_warnings := dv_warnings d, if_device := Some d\<rparr>) = Inr ()"
    using assms(5) by (simp add: validate_layout_Inr)
  then show ?thesis
    using r addr_window [OF assms(7) iface_builder_simps(2)]
    by (simp add: iface_ok_def iface_handles_def world_ok_def holders_def)
qed

lemma map_unmapped:
  assumes "memory_mapper okay win (ev_vt E)" "is_page_size (page_size (ev_kernel E))"
    and "iface_ok E okay win hs (M, I)" "if_device I = None" "validate_layout I = Inr ()"
  shows "iface_post E okay win hs (M, I) (iface_map E me (M, I))
    \<and> (iface_map E me (M, I) = Done (Inr (), (M', I')) \<longrightarrow>
      if_device I' \<noteq> None \<and> if_registers I' = if_registers I \<and> if_custom I' = None)"
proof -
  note step = iface_map_def iface_is_mapped_def iface_post_def device_open_iface assms(4,5)
  have locks: "locks_ok hs (mc_locks M)"
    using assms(3,4) by (simp add: iface_ok_def iface_handles_def)
  note prof = run_profile_locks [OF assms(2) locks, of me "if_profile I"]
  show ?thesis
  proof (cases "run_profile E me (if_profile I) M")
    case (Done y)
    then obtain q M1 where q: "run_profile E me (if_profile I) M = Done (q, M1)" by (cases y) auto
    have l1: "locks_ok hs (mc_locks M1)" "holdings (mc_locks M1) = holdings (mc_locks M)"
      using prof q by auto
    obtain z M2 where z: "open_window E (iface_builder I) M1 = Done (z, M2)"
      using open_window_runs [OF l1(1)] by blast
    consider (profile) e where "q = Inl e" | (failed) u e where "q = Inr u" "z = Inl e"
      | (opened) u d where "q = Inr u" "z = Inr d"
      by (metis sum.exhaust)
    then show ?thesis
    proof cases
      case profile
      with q l1 assms(3,4) show ?thesis
        by (simp add: step iface_ok_def iface_handles_def)
    next
      case failed
      with q z l1 open_window_failed [of E "iface_builder I" M1 _ M2 hs] assms(4) show ?thesis
        by (simp add: step iface_ok_def iface_handles_def same_layout_def)
    next
      case opened
      with map_opened [OF assms l1(1), of d M2] q z l1(2) show ?thesis
        by (auto simp: step same_layout_def)
    qed
  qed (use prof in \<open>auto simp: step\<close>)
qed

lemma map_post:
  assumes "memory_mapper okay win (ev_vt E)" "is_page_size (page_size (ev_kernel E))"
    and "iface_ok E okay win hs (M, I)"
  shows "iface_post E okay win hs (M, I) (iface_map E me (M, I))"
    and "iface_map E me (M, I) = Done (Inr (), (M', I')) \<Longrightarrow>
      if_device I' \<noteq> None \<and> if_registers I' = if_registers I \<and> (if_device I = None \<longrightarrow> if_custom I' = None)"
proof -
  have "iface_post E okay win hs (M, I) (iface_map E me (M, I))
    \<and> (iface_map E me (M, I) = Done (Inr (), (M', I')) \<longrightarrow>
      if_device I' \<noteq> None \<and> if_registers I' = if_registers I \<and> (if_device I = None \<longrightarrow> if_custom I' = None))"
  proof (cases "if_device I = None \<and> validate_layout I = Inr ()")
    case True
    with map_unmapped [OF assms] show ?thesis by blast
  next
    case False
    with assms(3) show ?thesis
      by (cases "validate_layout I") (auto simp: iface_map_def iface_post_def iface_is_mapped_def)
  qed
  then show "iface_post E okay win hs (M, I) (iface_map E me (M, I))"
    and "iface_map E me (M, I) = Done (Inr (), (M', I')) \<Longrightarrow>
      if_device I' \<noteq> None \<and> if_registers I' = if_registers I \<and> (if_device I = None \<longrightarrow> if_custom I' = None)"
    by blast+
qed

section \<open>Every operation keeps the interface\<close>

lemma position_Some: "position P xs = Some i \<Longrightarrow> i < length xs \<and> P (xs ! i) \<and> (\<forall>j<i. \<not> P (xs ! j))"
proof (induction xs arbitrary: i)
  case (Cons x xs)
  then show ?case
    by (auto split: if_splits) (metis Cons.IH less_Suc_eq_0_disj nth_Cons_0 nth_Cons_Suc)
qed simp

lemma register_index_Inr: "register_index I nm = Inr i \<Longrightarrow> i < length (if_registers I)"
  by (auto simp: register_index_def split: option.splits dest: position_Some)

lemma iface_field_Inr:
  assumes "iface_field I reg sub = Inr (i, msk, lo)"
  shows "register_index I reg = Inr i"
    and "\<exists>s. subregister (if_registers I ! i) sub = Some s \<and> msk = sub_mask s \<and> lo = sr_lsb s \<and> valid_range s"
proof -
  show "register_index I reg = Inr i"
    using assms by (auto simp: iface_field_def rbind_Inr_iff Let_def split: option.splits if_splits)
  from assms obtain s where s: "subregister (if_registers I ! i) sub = Some s" "msk = sub_mask s"
    "lo = sr_lsb s" "sub_mask s \<noteq> 0"
    by (auto simp: iface_field_def rbind_Inr_iff Let_def split: option.splits if_splits)
  have "valid_range s"
    using s(4) by (auto simp: sub_mask_def valid_range_def not_less split: if_splits)
  with s show "\<exists>s. subregister (if_registers I ! i) sub = Some s \<and> msk = sub_mask s \<and> lo = sr_lsb s \<and> valid_range s"
    by blast
qed

lemma map_reg_shape_update:
  "i < length rs \<Longrightarrow> reg_shape r = reg_shape (rs ! i) \<Longrightarrow> map reg_shape (rs[i := r]) = map reg_shape rs"
  by (simp add: map_update list_update_same_conv)

text \<open>The state after the operation: the device and the register put back, then unmapped if it was transient.\<close>

lemma installed_ok:
  assumes "iface_ok E okay win hs (M1, I1)" "if_device I1 = Some d"
    and "dev_mapped E okay win (M2, d2)" "world_ok hs (M2, d2)" "same_window d d2"
    and "map reg_shape rs = map reg_shape (if_registers I1)"
  shows "iface_ok E okay win hs (M2, I1\<lparr>if_device := Some d2, if_registers := rs\<rparr>)
    \<and> same_layout I1 (I1\<lparr>if_device := Some d2, if_registers := rs\<rparr>)"
proof -
  let ?J = "I1\<lparr>if_device := Some d2, if_registers := rs\<rparr>"
  have "same_layout I1 ?J"
    using assms(6) by (simp add: same_layout_def)
  with validate_layout_same [of I1 ?J] show ?thesis
    using assms(1-5) by (simp add: iface_ok_def iface_handles_def world_ok_def same_window_def)
qed

definition access_finish :: "('h, 'm) env \<Rightarrow> 'm iface \<Rightarrow> ('h, 'm) istate \<Rightarrow> ('h, 'm) istate" where
  "access_finish E I s = (if iface_is_mapped I then s else iface_unmap E s)"

lemma access_finish_ok:
  assumes "memory_mapper okay win (ev_vt E)" "iface_ok E okay win hs (M', I')" "same_layout I I'"
    and "holdings (mc_locks M') = holdings (mc_locks M)"
  shows "iface_post E okay win hs (M, I) (Done (x, access_finish E I (M', I')))"
  using unmap_ok [OF assms(1,2)] assms same_layout_trans [OF assms(3)]
  by (simp add: access_finish_def iface_post_def split: prod.split)

lemma access_after_map:
  assumes "iface_map E me (M, I) = Done (Inr (), (M1, I1))" "if_device I1 = Some d"
    and "i < length (if_registers I1)"
  shows "iface_access E me i act (M, I) = (case act (if_registers I1 ! i) (M1, d) of
      Done (Inl e, (M2, d2)) \<Rightarrow> Done (Inl e, access_finish E I (M2, I1\<lparr>if_device := Some d2\<rparr>))
    | Done (Inr (x, r), (M2, d2)) \<Rightarrow> Done (Inr x, access_finish E I (M2, I1\<lparr>if_device := Some d2,
        if_registers := (if_registers I1)[i := r]\<rparr>))
    | Blocks \<Rightarrow> Blocks
    | Panics \<Rightarrow> Panics)"
  unfolding iface_access_def Let_def access_finish_def by (simp add: assms)

context register_op
begin

lemma mapped_access_post:
  assumes mm: "memory_mapper okay win (ev_vt E)" and ok: "iface_ok E okay win hs (M1, I1)"
    and m: "iface_map E me (M, I) = Done (Inr (), (M1, I1))" "if_device I1 = Some d"
    and k: "same_layout I I1" "holdings (mc_locks M1) = holdings (mc_locks M)"
    and i: "i < length (if_registers I1)"
  shows "iface_post E okay win hs (M, I) (iface_access E me i act (M, I))"
proof -
  have w: "dev_mapped E okay win (M1, d)" "world_ok hs (M1, d)"
    using ok m(2) by (simp_all add: iface_ok_def world_ok_def iface_handles_def)
  note post = act_post [OF mm w, of "if_registers I1 ! i"]
  show ?thesis
  proof (cases "act (if_registers I1 ! i) (M1, d)")
    case (Done z)
    then obtain x M2 d2 where x: "act (if_registers I1 ! i) (M1, d) = Done (x, (M2, d2))" by (cases z) auto
    have p: "dev_mapped E okay win (M2, d2)" "world_ok hs (M2, d2)" "same_window d d2"
      "holdings (mc_locks M2) = holdings (mc_locks M)"
      using post x k(2) by (simp_all add: reg_post_def balanced_def holders_def)
    note inst = installed_ok [OF ok m(2) p(1-3)]
    show ?thesis
    proof (cases x)
      case (Inl e)
      have "I1\<lparr>if_device := Some d2, if_registers := if_registers I1\<rparr> = I1\<lparr>if_device := Some d2\<rparr>"
        by simp
      with inst [of "if_registers I1"] show ?thesis
        using access_finish_ok [OF mm _ _ p(4)] same_layout_trans [OF k(1)]
        by (simp add: access_after_map [OF m i] x Inl) blast
    next
      case (Inr vr)
      obtain v r where vr: "vr = (v, r)" by (cases vr)
      have "reg_shape r = reg_shape (if_registers I1 ! i)"
        using post x Inr vr by (simp add: reg_post_def)
      then have "map reg_shape ((if_registers I1)[i := r]) = map reg_shape (if_registers I1)"
        by (rule map_reg_shape_update [OF i])
      from inst [OF this] show ?thesis
        using access_finish_ok [OF mm _ _ p(4)] same_layout_trans [OF k(1)]
        by (simp add: access_after_map [OF m i] x Inr vr) blast
    qed
  next
    case Blocks
    then show ?thesis by (simp add: access_after_map [OF m i] iface_post_def)
  next
    case Panics
    with post show ?thesis by (simp add: reg_post_def balanced_def)
  qed
qed

lemma access_post:
  assumes mm: "memory_mapper okay win (ev_vt E)" and pg: "is_page_size (page_size (ev_kernel E))"
    and ok: "iface_ok E okay win hs (M, I)" and i: "i < length (if_registers I)"
  shows "iface_post E okay win hs (M, I) (iface_access E me i act (M, I))"
proof -
  note map = map_post [OF mm pg ok, where me = me]
  show ?thesis
  proof (cases "iface_map E me (M, I)")
    case (Done y)
    then obtain q M1 I1 where q: "iface_map E me (M, I) = Done (q, (M1, I1))" by (cases y) auto
    show ?thesis
    proof (cases q)
      case (Inl e)
      then show ?thesis
        using map(1) q by (simp add: iface_access_def iface_post_def)
    next
      case (Inr u)
      then have q1: "iface_map E me (M, I) = Done (Inr (), (M1, I1))"
        using q by simp
      then obtain d where d: "if_device I1 = Some d" "if_registers I1 = if_registers I"
        using map(2) [of M1 I1] by auto
      have "iface_ok E okay win hs (M1, I1)" "same_layout I I1"
        "holdings (mc_locks M1) = holdings (mc_locks M)"
        using map(1) q1 by (simp_all add: iface_post_def)
      then show ?thesis
        using d i by (intro mapped_access_post [OF mm _ q1 d(1)]) simp_all
    qed
  next
    case Panics
    with map(1) show ?thesis by (simp add: iface_post_def)
  qed (simp add: iface_access_def iface_post_def)
qed

end

lemma iface_post_fail:
  "iface_ok E okay win hs s \<Longrightarrow> iface_post E okay win hs s (pfail e s)"
  by (simp add: iface_post_def pfail_def split: prod.split)

text \<open>
  C16: every operation of an interface keeps it well formed: none panics (neither the \<open>expect\<close> on the
  device nor an index, a mapping or a lock can), the register layout stays, and when an operation
  returns, with a value or an error, the locks are held exactly as before and a device it mapped for
  itself is gone with its handles.
\<close>

theorem interface_operations_keep:
  assumes "memory_mapper okay win (ev_vt E)" "is_page_size (page_size (ev_kernel E))"
    and "iface_ok E okay win hs s"
  shows "iface_post E okay win hs s (iface_map E me s)
    \<and> iface_ok E okay win hs (iface_unmap E s)
    \<and> iface_post E okay win hs s (read_register E me reg s)
    \<and> iface_post E okay win hs s (write_register E me reg v s)
    \<and> iface_post E okay win hs s (read_subregister E me reg sub s)
    \<and> iface_post E okay win hs s (write_subregister E me reg sub v s)"
proof -
  obtain M I where s: "s = (M, I)" by (cases s)
  note a = assms(1,2) assms(3) [unfolded s]
  have f: "i < length (if_registers I)" if "iface_field I reg sub = Inr (i, msk, lo)" for i msk lo
    using iface_field_Inr(1) [OF that] by (rule register_index_Inr)
  show ?thesis
    unfolding s read_register_def write_register_def read_subregister_def write_subregister_def
      with_lookup_def snd_conv
    using map_post(1) [OF a] unmap_ok [OF a(1,3)] iface_post_fail [OF a(3)]
      register_read.access_post [OF a register_index_Inr] register_write.access_post [OF a register_index_Inr]
      field_read.access_post [OF a f] field_write.access_post [OF a f]
    by (simp add: iface_post_fail a(3) split: sum.split prod.split)
qed

section \<open>Fields\<close>

lemma map_registers:
  "iface_map E me (M, I) = Done (r, (M', I')) \<Longrightarrow> if_registers I' = if_registers I"
  by (auto simp: iface_map_def split: if_splits sum.splits run.splits prod.splits)

lemma unmap_registers: "if_registers (snd (iface_unmap E (M, I))) = if_registers I"
  by (simp add: iface_unmap_def split: option.split prod.split)

lemma iface_access_Inr:
  assumes "iface_access E me i act (M, I) = Done (Inr x, (M', I'))"
  obtains M1 d r M2 d2 where "i < length (if_registers I)"
    "act (if_registers I ! i) (M1, d) = Done (Inr (x, r), (M2, d2))" "if_registers I' = (if_registers I)[i := r]"
proof -
  from assms obtain M1 I1 where m: "iface_map E me (M, I) = Done (Inr (), (M1, I1))"
    by (auto simp: iface_access_def split: run.splits sum.splits prod.splits)
  then obtain d where d: "if_device I1 = Some d" and i: "i < length (if_registers I1)"
    using assms by (auto simp: iface_access_def split: option.splits if_splits)
  from assms obtain r M2 d2 where r: "act (if_registers I1 ! i) (M1, d) = Done (Inr (x, r), (M2, d2))"
    "(M', I') = access_finish E I (M2, I1\<lparr>if_device := Some d2, if_registers := (if_registers I1)[i := r]\<rparr>)"
    unfolding access_after_map [OF m d i] by (auto split: run.splits sum.splits prod.splits)
  have "I' = snd (access_finish E I (M2, I1\<lparr>if_device := Some d2, if_registers := (if_registers I1)[i := r]\<rparr>))"
    using r(2) by (metis snd_conv)
  then have "if_registers I' = (if_registers I1)[i := r]"
    by (simp add: access_finish_def unmap_registers)
  with map_registers [OF m] r(1) i show ?thesis
    by (intro that) auto
qed

lemma update_u32_merges:
  assumes "update_u32 E me off msk v s = Done (Inr u, s')"
  shows "\<exists>c. u = replace_bits c msk v"
proof -
  obtain M d where s: "s = (M, d)" by (cases s)
  obtain M' d' where s': "s' = (M', d')" by (cases s')
  have "device_access E me off WU32 True (update_body E off msk v) (M, d) = Done (Inr u, (M', d'))"
    using assms by (simp add: s s' update_u32_def)
  then show ?thesis
    by (cases rule: device_access_frame)
      (auto simp: update_body_def Let_def split: run.splits)
qed

lemma parse_subregister_at:
  assumes "register_index I reg = Inr i" "subregister (if_registers I ! i) sub = Some f" "sub_mask f \<noteq> 0"
    and "if_registers I' = (if_registers I)[i := r]" "reg_shape r = reg_shape (if_registers I ! i)"
  shows "parse_subregister I' reg sub = Inr (field_of (rg_raw r) (sub_mask f) (sr_lsb f))"
proof -
  have i: "i < length (if_registers I)"
    by (rule register_index_Inr [OF assms(1)])
  have shapes: "map reg_shape (if_registers I') = map reg_shape (if_registers I)"
    unfolding assms(4) by (rule map_reg_shape_update [OF i assms(5)])
  have pos: "position (\<lambda>r. rg_name r = reg) rs = position (\<lambda>r. rg_name r = reg) rs'"
    if "map reg_shape rs = map reg_shape rs'" for rs rs'
    using that by (induction rs rs' rule: list_induct2') (auto simp: reg_shape_def)
  have "register_index I' reg = Inr i"
    using assms(1) pos [OF shapes] by (auto simp: register_index_def split: option.splits)
  moreover have "if_registers I' ! i = r"
    using i by (simp add: assms(4))
  moreover have "subregister r sub = Some f"
    using assms(2,5) by (simp add: subregister_def reg_shape_def)
  ultimately show ?thesis
    using assms(3) by (simp add: parse_subregister_def iface_field_def Let_def)
qed

lemma valid_mask: "valid_range f \<Longrightarrow> sub_mask f \<noteq> 0"
  using bit_sub_mask [of f "unat (sr_lsb f)"] valid_range_bounds [of f] by auto

text \<open>
  C18: after \<open>write_subregister\<close> succeeds, \<open>parse_subregister\<close> of the field gives the value written, cut
  to the width of the field (whatever the hardware held before), and after \<open>read_subregister\<close>
  succeeds it gives the value just read.
\<close>

theorem field_access_parses:
  assumes "register_index I reg = Inr i" "subregister (if_registers I ! i) sub = Some f" "valid_range f"
  shows "(case write_subregister E me reg sub v (M, I) of
        Done (Inr _, (_, I')) \<Rightarrow>
          parse_subregister I' reg sub = Inr (take_bit (Suc (unat (sr_msb f) - unat (sr_lsb f))) v)
      | _ \<Rightarrow> True)
    \<and> (case read_subregister E me reg sub (M, I) of
        Done (Inr x, (_, I')) \<Rightarrow> parse_subregister I' reg sub = Inr x
      | _ \<Rightarrow> True)"
proof -
  note m = valid_mask [OF assms(3)]
  have fld: "iface_field I reg sub = Inr (i, sub_mask f, sr_lsb f)"
    using assms(1,2) m by (simp add: iface_field_def Let_def)
  have "parse_subregister I' reg sub = Inr (take_bit (Suc (unat (sr_msb f) - unat (sr_lsb f))) v)"
    if "write_subregister E me reg sub v (M, I) = Done (Inr x, (M', I'))" for x M' I'
  proof -
    have "iface_access E me i (field_write E me (sub_mask f) (sr_lsb f) v) (M, I) = Done (Inr x, (M', I'))"
      using that by (simp add: write_subregister_def with_lookup_def fld)
    then obtain M1 d r M2 d2 where w: "field_write E me (sub_mask f) (sr_lsb f) v (if_registers I ! i) (M1, d)
        = Done (Inr (x, r), (M2, d2))" and r: "if_registers I' = (if_registers I)[i := r]"
      by (rule iface_access_Inr)
    from w obtain u where "update_u32 E me (rg_offset (if_registers I ! i)) (sub_mask f)
        (push_bit (unat (sr_lsb f)) v) (M1, d) = Done (Inr u, (M2, d2))"
      and ru: "r = (if_registers I ! i)\<lparr>rg_raw := u\<rparr>"
      by (auto simp: field_write_def pbind_Inr_iff pret_def)
    from update_u32_merges [OF this(1)] obtain c where
      "u = replace_bits c (sub_mask f) (push_bit (unat (sr_lsb f)) v)" ..
    with parse_subregister_at [OF assms(1,2) m r] ru field_roundtrip [OF assms(3)] show ?thesis
      by simp
  qed
  moreover have "parse_subregister I' reg sub = Inr x"
    if "read_subregister E me reg sub (M, I) = Done (Inr x, (M', I'))" for x M' I'
  proof -
    have "iface_access E me i (field_read E me (sub_mask f) (sr_lsb f)) (M, I) = Done (Inr x, (M', I'))"
      using that by (simp add: read_subregister_def with_lookup_def fld)
    then obtain M1 d r M2 d2 where w: "field_read E me (sub_mask f) (sr_lsb f) (if_registers I ! i) (M1, d)
        = Done (Inr (x, r), (M2, d2))" and r: "if_registers I' = (if_registers I)[i := r]"
      by (rule iface_access_Inr)
    from w obtain y where "r = (if_registers I ! i)\<lparr>rg_raw := y\<rparr>" "x = field_of y (sub_mask f) (sr_lsb f)"
      by (auto simp: field_read_eq pbind_Inr_iff pret_def)
    with parse_subregister_at [OF assms(1,2) m r] show ?thesis
      by simp
  qed
  ultimately show ?thesis
    by (simp split: run.split prod.split sum.split)
qed

section \<open>The custom mapper\<close>

lemma opened_custom:
  assumes "open_window E b M = Done (Inr d, M')" "bd_custom b = Some m"
  shows "\<exists>m'. dv_backend d = BCustom m'"
proof -
  have "\<exists>(t :: target) F. open_backend E F b (tg_mapper t) (dv_base d) (dv_size d) = Inr (dv_backend d)"
    by (rule open_window_InrE [OF assms(1)]) blast
  with assms(2) show ?thesis
    by (auto elim: open_backend_Inr)
qed

lemma unmap_returns_custom:
  "if_device I = Some d \<Longrightarrow> dv_backend d = BCustom m \<Longrightarrow>
    if_custom (snd (iface_unmap E (M, I))) = Some (vt_unmap (ev_vt E) m)"
  by (simp add: iface_unmap_def take_custom_mapper_def backend_take_custom_def backend_unmap_def)


section \<open>Concrete interfaces\<close>

definition sample_iface :: "unit iface" where
  "sample_iface = iface_with_mapper_type DevMem (iface_with_force True (iface_new ''gpio'' 0xA0000010 0x20
     [register_new ''data'' 0 [], register_new ''ctrl'' 4 [sub_register_new ''mode'' 7 4]]))"

text \<open>The environment of a custom mapper that refuses to map.\<close>

definition refusing_env :: "(u64 \<Rightarrow> nat, unit) env" where
  "refusing_env = devmem_env\<lparr>ev_vt := \<lparr>vt_map = (\<lambda>a _ _. (Inl (DebugDisabled a), ())),
     vt_unmap = (\<lambda>_. ()), vt_is_mapped = (\<lambda>_. False), vt_read = (\<lambda>_ _ _. Panics), vt_write = (\<lambda>_ _ _ _. Panics)\<rparr>\<rparr>"

lemmas sample_iface_simps = sample_iface_def iface_with_mapper_type_def iface_with_force_def iface_new_def
  register_new_def sub_register_new_def

theorem layout_accesses_allowed_witness:
  "validate_layout sample_iface = Inr ()
    \<and> check_access devmem_device 4 WU32 True = Inr (if_base sample_iface + ucast (4 :: u32))"
proof -
  have v: "validate_layout sample_iface = Inr ()"
    by (simp add: sample_iface_simps validate_layout_def checked_add_def)
  have "register_new ''ctrl'' 4 [sub_register_new ''mode'' 7 4] \<in> set (if_registers sample_iface)"
    by (simp add: sample_iface_simps)
  then show ?thesis
    using layout_accesses_allowed [of devmem_device sample_iface] v
    by (force simp: devmem_device_def sample_iface_simps)
qed

theorem interface_operations_keep_witness:
  "iface_post devmem_env (\<lambda>_. False) (\<lambda>_ _. False) [0, 1] (sample_machine, sample_iface)
    (write_subregister devmem_env 7 ''ctrl'' ''mode'' 5 (sample_machine, sample_iface))"
proof -
  have "iface_ok devmem_env (\<lambda>_. False) (\<lambda>_ _. False) [0, 1] (sample_machine, sample_iface)"
    using two_locks_ok two_locks_reg
    by (simp add: iface_ok_def sample_iface_simps iface_handles_def locks_ok_def sample_machine_def)
  from interface_operations_keep [OF no_mapper devmem_page_ok this] show ?thesis
    by blast
qed

theorem field_access_parses_witness:
  "case write_subregister devmem_env 7 ''ctrl'' ''mode'' 0x15 (sample_machine, sample_iface) of
      Done (Inr _, (_, I')) \<Rightarrow> parse_subregister I' ''ctrl'' ''mode'' = Inr 5
    | _ \<Rightarrow> True"
proof -
  have "register_index sample_iface ''ctrl'' = Inr 1"
    "subregister (if_registers sample_iface ! 1) ''mode'' = Some (sub_register_new ''mode'' 7 4)"
    "valid_range (sub_register_new ''mode'' 7 4)"
    by (simp_all add: sample_iface_simps register_index_def subregister_def valid_range_def)
  from field_access_parses [where E = devmem_env and me = 7 and v = "0x15" and M = sample_machine,
      OF this, THEN conjunct1]
  moreover have "take_bit (Suc (unat (sr_msb (sub_register_new ''mode'' 7 4))
      - unat (sr_lsb (sub_register_new ''mode'' 7 4)))) (0x15 :: u32) = 5"
    by (simp add: sub_register_new_def take_bit_eq_mod)
  ultimately show ?thesis
    by (simp only:)
qed


end
