(* ===== verification/Json.thy ===== *)
theory Json
  imports Profile Files
begin

text \<open>
  The JSON reader of \<open>src/validation.rs\<close>. The parser is the text with a position, which every
  operation takes and returns with its result. \<open>None\<close> is an operation that does not return: it
  panicked on a slice that cuts a character, or loops for ever; a \<open>String\<close> error is \<open>Inl\<close>.
\<close>

section \<open>Bytes\<close>

type_synonym 'a jres = "(string + 'a \<times> nat) option"

definition is_json_ws :: "char \<Rightarrow> bool" where
  "is_json_ws c \<longleftrightarrow> c \<in> {CHR '' '', CHR 0x09, CHR 0x0A, CHR 0x0D}"

definition src_get :: "string \<Rightarrow> nat \<Rightarrow> char option" where
  "src_get src pos = (if pos < length src then Some (src ! pos) else None)"

text \<open>A loop that passes the bytes satisfying \<open>P\<close>.\<close>

definition skip_while :: "(char \<Rightarrow> bool) \<Rightarrow> string \<Rightarrow> nat \<Rightarrow> nat" where
  "skip_while P src pos = pos + length (takeWhile P (drop pos src))"

definition skip_ws :: "string \<Rightarrow> nat \<Rightarrow> nat" where
  "skip_ws src pos = skip_while is_json_ws src pos"

definition peek :: "string \<Rightarrow> nat \<Rightarrow> char option \<times> nat" where
  "peek src pos = (let q = skip_ws src pos in (src_get src q, q))"

definition as_char :: "char \<Rightarrow> string" where
  "as_char b = utf8_encode (byte b)"

definition expect :: "string \<Rightarrow> char \<Rightarrow> nat \<Rightarrow> unit jres" where
  "expect src want pos = (case peek src pos of
       (Some b, q) \<Rightarrow>
         if b = want then Some (Inr ((), q + 1))
         else Some (Inl (''expected '' @ sq (as_char want) @ '' at byte '' @ fmt_dec q @ '', found '' @ sq (as_char b)))
     | (None, _) \<Rightarrow> Some (Inl (''unexpected end of JSON, expected '' @ sq (as_char want))))"

section \<open>Strings\<close>

definition is_ascii_hexdigit :: "char \<Rightarrow> bool" where
  "is_ascii_hexdigit c \<longleftrightarrow> to_digit c 16 \<noteq> None"

definition parse_hex4 :: "string \<Rightarrow> nat \<Rightarrow> string + nat \<times> nat" where
  "parse_hex4 src pos =
     (if length src < pos + 4 then Inl (''short '' @ [CHR 0x5C] @ ''u escape'')
      else
        (let hex = take 4 (drop pos src) in
         if \<not> list_all is_ascii_hexdigit hex then Inl (''invalid '' @ [CHR 0x5C] @ ''u escape'')
         else case from_str_radix 16 (2 ^ 32) hex of
             None \<Rightarrow> Inl (''invalid '' @ [CHR 0x5C] @ ''u'' @ hex @ '' escape'')
           | Some n \<Rightarrow> Inr (n, pos + 4)))"

text \<open>\<open>char::from_u32\<close>.\<close>

definition is_scalar :: "nat \<Rightarrow> bool" where
  "is_scalar n \<longleftrightarrow> n < 0xD800 \<or> (0xE000 \<le> n \<and> n < 0x110000)"

text \<open>The character of a \<open>\\u\<close> escape, from its hex digits on.\<close>

definition parse_unicode :: "string \<Rightarrow> nat \<Rightarrow> string jres" where
  "parse_unicode src pos = (case parse_hex4 src pos of
       Inl e \<Rightarrow> Some (Inl e)
     | Inr (code, p) \<Rightarrow>
         if 0xD800 \<le> code \<and> code \<le> 0xDBFF then
           (if take 2 (drop p src) \<noteq> [CHR 0x5C, CHR ''u''] then Some (Inl ''unpaired UTF-16 high surrogate'')
            else case parse_hex4 src (p + 2) of
                Inl e \<Rightarrow> Some (Inl e)
              | Inr (low, q) \<Rightarrow>
                  if \<not> (0xDC00 \<le> low \<and> low \<le> 0xDFFF) then Some (Inl ''invalid UTF-16 low surrogate'')
                  else
                    (let combined = 0x10000 + (code - 0xD800) * 1024 + (low - 0xDC00) in
                     if is_scalar combined then Some (Inr (utf8_encode combined, q)) else None))
         else if is_scalar code then Some (Inr (utf8_encode code, p))
         else Some (Inl (''invalid unicode scalar '' @ [CHR 0x5C] @ ''u'' @ fmt_hex0 4 code)))"

text \<open>An escape, from the byte after the backslash on.\<close>

definition parse_escape :: "string \<Rightarrow> nat \<Rightarrow> string jres" where
  "parse_escape src pos = (case src_get src pos of
       None \<Rightarrow> Some (Inl ''unterminated escape'')
     | Some esc \<Rightarrow>
         if esc = CHR 0x22 then Some (Inr ([CHR 0x22], pos + 1))
         else if esc = CHR 0x5C then Some (Inr ([CHR 0x5C], pos + 1))
         else if esc = CHR ''/'' then Some (Inr (''/'', pos + 1))
         else if esc = CHR ''b'' then Some (Inr ([CHR 0x08], pos + 1))
         else if esc = CHR ''f'' then Some (Inr ([CHR 0x0C], pos + 1))
         else if esc = CHR ''n'' then Some (Inr ([CHR 0x0A], pos + 1))
         else if esc = CHR ''r'' then Some (Inr ([CHR 0x0D], pos + 1))
         else if esc = CHR ''t'' then Some (Inr ([CHR 0x09], pos + 1))
         else if esc = CHR ''u'' then parse_unicode src (pos + 1)
         else Some (Inl (''invalid escape '' @ sq ([CHR 0x5C] @ as_char esc))))"

lemma parse_hex4_pos: "parse_hex4 src pos = Inr (n, p) \<Longrightarrow> p = pos + 4 \<and> p \<le> length src"
  by (auto simp: parse_hex4_def Let_def split: if_splits option.splits)

lemma parse_unicode_pos: "parse_unicode src pos = Some (Inr (s, p)) \<Longrightarrow> pos < p"
  by (auto simp: parse_unicode_def Let_def dest!: parse_hex4_pos split: if_splits sum.splits)

lemma parse_escape_pos: "parse_escape src pos = Some (Inr (s, p)) \<Longrightarrow> pos < p"
  by (auto simp: parse_escape_def dest: parse_unicode_pos split: if_splits option.splits)

text \<open>
  The loop of \<open>parse_string\<close>. \<open>self.text[pos - 1..]\<close> panics inside a character; its first \<open>char\<close> is
  as long as its first byte says.
\<close>

function string_loop :: "string \<Rightarrow> nat \<Rightarrow> string \<Rightarrow> string jres" where
  "string_loop src pos out = (case src_get src pos of
       None \<Rightarrow> Some (Inl ''unterminated string'')
     | Some b \<Rightarrow>
         if b = CHR 0x22 then Some (Inr (out, pos + 1))
         else if b = CHR 0x5C then
           (case parse_escape src (pos + 1) of
              None \<Rightarrow> None
            | Some (Inl e) \<Rightarrow> Some (Inl e)
            | Some (Inr (ch, p)) \<Rightarrow> string_loop src p (out @ ch))
         else if byte b \<le> 0x1F then Some (Inl ''unescaped control character in string'')
         else if is_cont b then None
         else string_loop src (pos + char_len b) (out @ take (char_len b) (drop pos src)))"
  by pat_completeness auto
termination
  by (relation "measure (\<lambda>(src, pos, _). length src - pos)")
    (auto simp: src_get_def char_len_def split: if_splits dest!: parse_escape_pos)

declare string_loop.simps [simp del]

definition parse_string :: "string \<Rightarrow> nat \<Rightarrow> string jres" where
  "parse_string src pos = Option.bind (expect src (CHR 0x22) pos) (\<lambda>r. case r of
       Inl e \<Rightarrow> Some (Inl e)
     | Inr (_, p) \<Rightarrow> string_loop src p [])"

section \<open>Numbers\<close>

definition is_ascii_digit :: "char \<Rightarrow> bool" where
  "is_ascii_digit c \<longleftrightarrow> 48 \<le> byte c \<and> byte c \<le> 57"

definition is_ascii_alphanumeric :: "char \<Rightarrow> bool" where
  "is_ascii_alphanumeric c \<longleftrightarrow> is_ascii_digit c \<or> (65 \<le> byte c \<and> byte c \<le> 90) \<or> (97 \<le> byte c \<and> byte c \<le> 122)"

definition is_number_char :: "char \<Rightarrow> bool" where
  "is_number_char c \<longleftrightarrow> is_ascii_alphanumeric c \<or> c \<in> {CHR ''.'', CHR ''_'', CHR ''+'', CHR ''-''}"

definition number_token :: "string \<Rightarrow> string + u64" where
  "number_token token =
     (if length token > 1 \<and> starts_with token ''0'' then
        Inl (''invalid JSON number '' @ sq token @ '' (quote hex strings)'')
      else case from_str_radix 10 (2 ^ 64) token of
          None \<Rightarrow> Inl (''invalid integer '' @ sq token)
        | Some n \<Rightarrow> Inr (of_nat n))"

definition parse_u64 :: "string \<Rightarrow> nat \<Rightarrow> u64 jres" where
  "parse_u64 src pos = (case peek src pos of
       (c, q) \<Rightarrow>
         if c = Some (CHR 0x22) then
           Option.bind (parse_string src q) (\<lambda>r. case r of
               Inl e \<Rightarrow> Some (Inl e)
             | Inr (s, p) \<Rightarrow> (case parse_u64_radix s 10 of Inl e \<Rightarrow> Some (Inl e) | Inr v \<Rightarrow> Some (Inr (v, p))))
         else if (case c of Some b \<Rightarrow> is_ascii_digit b | None \<Rightarrow> False) then
           (let p = skip_while is_number_char src q in
            case number_token (take (p - q) (drop q src)) of
              Inl e \<Rightarrow> Some (Inl e)
            | Inr v \<Rightarrow> Some (Inr (v, p)))
         else Some (Inl (''expected integer or number string at byte '' @ fmt_dec q)))"

definition parse_u32 :: "string \<Rightarrow> nat \<Rightarrow> u32 jres" where
  "parse_u32 src pos = Option.bind (parse_u64 src pos) (\<lambda>r. case r of
       Inl e \<Rightarrow> Some (Inl e)
     | Inr (v, p) \<Rightarrow>
         if unat v < 2 ^ 32 then Some (Inr (ucast v, p))
         else Some (Inl (''0x'' @ fmt_hex (unat v) @ '' does not fit in 32 bits'')))"

text \<open>One optional part of a number: nothing, or a mark and at least one digit.\<close>

definition skip_digits1 :: "string \<Rightarrow> string \<Rightarrow> nat \<Rightarrow> string + nat" where
  "skip_digits1 err src pos =
     (if (case src_get src pos of Some b \<Rightarrow> is_ascii_digit b | None \<Rightarrow> False)
      then Inr (skip_while is_ascii_digit src pos) else Inl err)"

definition skip_number :: "string \<Rightarrow> nat \<Rightarrow> unit jres" where
  "skip_number src pos =
     (let p0 = (if src_get src pos = Some (CHR ''-'') then pos + 1 else pos);
          int = (case src_get src p0 of
              Some b \<Rightarrow> if b = CHR ''0'' then Inr (p0 + 1)
                else if is_ascii_digit b then Inr (skip_while is_ascii_digit src p0)
                else Inl ''invalid number in ignored field''
            | None \<Rightarrow> Inl ''invalid number in ignored field'')
      in case rbind int (\<lambda>p1.
           rbind (if src_get src p1 = Some (CHR ''.'')
             then skip_digits1 ''invalid fraction in ignored number'' src (p1 + 1) else Inr p1) (\<lambda>p2.
           if src_get src p2 \<in> {Some (CHR ''e''), Some (CHR ''E'')} then
             (let p3 = (if src_get src (p2 + 1) \<in> {Some (CHR ''+''), Some (CHR ''-'')} then p2 + 2 else p2 + 1)
              in skip_digits1 ''invalid exponent in ignored number'' src p3)
           else Inr p2)) of
         Inl e \<Rightarrow> Some (Inl e)
       | Inr p \<Rightarrow> Some (Inr ((), p)))"

section \<open>Objects and arrays\<close>

partial_function (option) object_loop ::
  "string \<Rightarrow> (string \<Rightarrow> 's \<Rightarrow> nat \<Rightarrow> 's jres) \<Rightarrow> 's \<Rightarrow> nat \<Rightarrow> 's jres"
where
  "object_loop src on_field s pos =
     Option.bind (parse_string src pos) (\<lambda>r. case r of Inl e \<Rightarrow> Some (Inl e) | Inr (key, p1) \<Rightarrow>
     Option.bind (expect src (CHR '':'') p1) (\<lambda>r. case r of Inl e \<Rightarrow> Some (Inl e) | Inr (_, p2) \<Rightarrow>
     Option.bind (on_field key s p2) (\<lambda>r. case r of Inl e \<Rightarrow> Some (Inl e) | Inr (s', p3) \<Rightarrow>
       (case peek src p3 of (c, q) \<Rightarrow>
          if c = Some (CHR '','') then object_loop src on_field s' (q + 1)
          else if c = Some (CHR 0x7D) then Some (Inr (s', q + 1))
          else Some (Inl (''expected '' @ sq '','' @ '' or '' @ sq [CHR 0x7D] @ '' at byte '' @ fmt_dec q))))))"

definition parse_object ::
  "string \<Rightarrow> (string \<Rightarrow> 's \<Rightarrow> nat \<Rightarrow> 's jres) \<Rightarrow> 's \<Rightarrow> nat \<Rightarrow> 's jres"
where
  "parse_object src on_field s pos =
     Option.bind (expect src (CHR 0x7B) pos) (\<lambda>r. case r of Inl e \<Rightarrow> Some (Inl e) | Inr (_, p) \<Rightarrow>
       (case peek src p of (c, q) \<Rightarrow>
          if c = Some (CHR 0x7D) then Some (Inr (s, q + 1)) else object_loop src on_field s q))"

text \<open>The loop over the elements of an array, with an accumulator and the message for a missing comma.\<close>

partial_function (option) array_loop ::
  "string \<Rightarrow> string \<Rightarrow> ('s \<Rightarrow> nat \<Rightarrow> 's jres) \<Rightarrow> 's \<Rightarrow> nat \<Rightarrow> 's jres"
where
  "array_loop err src element s pos =
     Option.bind (element s pos) (\<lambda>r. case r of Inl e \<Rightarrow> Some (Inl e) | Inr (s', p) \<Rightarrow>
       (case peek src p of (c, q) \<Rightarrow>
          if c = Some (CHR '','') then array_loop err src element s' (q + 1)
          else if c = Some (CHR '']'') then Some (Inr (s', q + 1))
          else Some (Inl err)))"

definition array_error :: "string \<Rightarrow> string" where
  "array_error what = ''expected '' @ sq '','' @ '' or '' @ sq '']'' @ '' in '' @ what"

definition parse_array ::
  "string \<Rightarrow> string \<Rightarrow> ('s \<Rightarrow> nat \<Rightarrow> 's jres) \<Rightarrow> 's \<Rightarrow> nat \<Rightarrow> 's jres"
where
  "parse_array err src element s pos =
     Option.bind (expect src (CHR ''['') pos) (\<lambda>r. case r of Inl e \<Rightarrow> Some (Inl e) | Inr (_, p) \<Rightarrow>
       (case peek src p of (c, q) \<Rightarrow>
          if c = Some (CHR '']'') then Some (Inr (s, q + 1)) else array_loop err src element s q))"

text \<open>\<open>skip_value\<close>: a value of an \<open>x-\<close> key, at most 32 levels deep.\<close>

function skip_value :: "string \<Rightarrow> nat \<Rightarrow> nat \<Rightarrow> unit jres" where
  "skip_value src depth pos =
     (if depth > 32 then Some (Inl ''JSON nesting too deep'')
      else case peek src pos of
          (None, _) \<Rightarrow> Some (Inl ''unexpected end of JSON'')
        | (Some b, q) \<Rightarrow>
            if b = CHR 0x22 then
              Option.bind (parse_string src q) (\<lambda>r. case r of
                Inl e \<Rightarrow> Some (Inl e) | Inr (_, p) \<Rightarrow> Some (Inr ((), p)))
            else if b = CHR 0x7B then parse_object src (\<lambda>_ _ p. skip_value src (depth + 1) p) () q
            else if b = CHR ''['' then
              parse_array (array_error ''array'') src (\<lambda>_ p. skip_value src (depth + 1) p) () q
            else if b = CHR ''t'' \<and> starts_with (drop q src) ''true'' then Some (Inr ((), q + 4))
            else if b = CHR ''f'' \<and> starts_with (drop q src) ''false'' then Some (Inr ((), q + 5))
            else if b = CHR ''n'' \<and> starts_with (drop q src) ''null'' then Some (Inr ((), q + 4))
            else if b = CHR ''-'' \<or> is_ascii_digit b then skip_number src q
            else Some (Inl (''unexpected '' @ sq (as_char b) @ '' at byte '' @ fmt_dec q)))"
  by pat_completeness auto
termination
  by (relation "measure (\<lambda>(_, depth, _). 33 - depth)") auto

declare skip_value.simps [simp del]

section \<open>Profiles\<close>

record check_fields =
  cf_name :: "string option"
  cf_addr :: "u64 option"
  cf_mask :: "u32 option"
  cf_expected :: "u32 option"

text \<open>\<open>Some(parse?)\<close> into a field.\<close>

definition into :: "'a jres \<Rightarrow> ('a \<Rightarrow> 's) \<Rightarrow> 's jres" where
  "into m put = Option.bind m (\<lambda>r. case r of Inl e \<Rightarrow> Some (Inl e) | Inr (x, p) \<Rightarrow> Some (Inr (put x, p)))"

definition check_field :: "string \<Rightarrow> string \<Rightarrow> check_fields \<Rightarrow> nat \<Rightarrow> check_fields jres" where
  "check_field src key s p =
     (if key = ''name'' \<and> cf_name s = None then into (parse_string src p) (\<lambda>v. s\<lparr>cf_name := Some v\<rparr>)
      else if key = ''addr'' \<and> cf_addr s = None then into (parse_u64 src p) (\<lambda>v. s\<lparr>cf_addr := Some v\<rparr>)
      else if key = ''mask'' \<and> cf_mask s = None then into (parse_u32 src p) (\<lambda>v. s\<lparr>cf_mask := Some v\<rparr>)
      else if key = ''expected'' \<and> cf_expected s = None
        then into (parse_u32 src p) (\<lambda>v. s\<lparr>cf_expected := Some v\<rparr>)
      else if starts_with key ''x-'' then into (skip_value src 0 p) (\<lambda>_. s)
      else if key \<in> {''name'', ''addr'', ''mask'', ''expected''}
        then Some (Inl (''duplicate key '' @ sq key @ '' in check''))
      else Some (Inl (''unknown key '' @ sq key @ '' in check'')))"

definition missing :: "string \<Rightarrow> string \<Rightarrow> string" where
  "missing what suffix = ''missing '' @ sq what @ suffix"

definition build_check :: "check_fields \<Rightarrow> string + validation_check" where
  "build_check s = (case cf_name s of None \<Rightarrow> Inl (missing ''name'' '' in check'') | Some nm \<Rightarrow>
     (case cf_addr s of None \<Rightarrow> Inl (missing ''addr'' '' in check'') | Some a \<Rightarrow>
     (case cf_mask s of None \<Rightarrow> Inl (missing ''mask'' '' in check'') | Some m \<Rightarrow>
     (case cf_expected s of None \<Rightarrow> Inl (missing ''expected'' '' in check'') | Some x \<Rightarrow>
        Inr \<lparr>vc_name = nm, vc_addr = a, vc_mask = m, vc_expected = x\<rparr>))))"

definition parse_check :: "string \<Rightarrow> nat \<Rightarrow> validation_check jres" where
  "parse_check src pos =
     Option.bind (parse_object src (check_field src)
       \<lparr>cf_name = None, cf_addr = None, cf_mask = None, cf_expected = None\<rparr> pos) (\<lambda>r. case r of
         Inl e \<Rightarrow> Some (Inl e)
       | Inr (s, p) \<Rightarrow> (case build_check s of Inl e \<Rightarrow> Some (Inl e) | Inr c \<Rightarrow> Some (Inr (c, p))))"

record profile_fields =
  pf_name :: "string option"
  pf_checks :: "validation_check list option"

definition profile_field :: "string \<Rightarrow> string \<Rightarrow> profile_fields \<Rightarrow> nat \<Rightarrow> profile_fields jres" where
  "profile_field src key s p =
     (if key = ''name'' \<and> pf_name s = None then into (parse_string src p) (\<lambda>v. s\<lparr>pf_name := Some v\<rparr>)
      else if key = ''checks'' \<and> pf_checks s = None then
        into (parse_array (array_error (sq ''checks'')) src
          (\<lambda>cs q. into (parse_check src q) (\<lambda>c. cs @ [c])) [] p) (\<lambda>v. s\<lparr>pf_checks := Some v\<rparr>)
      else if starts_with key ''x-'' then into (skip_value src 0 p) (\<lambda>_. s)
      else if key \<in> {''name'', ''checks''} then Some (Inl (''duplicate key '' @ sq key))
      else Some (Inl (''unknown key '' @ sq key)))"

text \<open>A byte order mark is dropped.\<close>

definition parser_new :: "string \<Rightarrow> string" where
  "parser_new input = (case strip_prefix input [CHR 0xEF, CHR 0xBB, CHR 0xBF] of Some t \<Rightarrow> t | None \<Rightarrow> input)"

definition build_profile :: "profile_fields \<Rightarrow> string + safety_profile" where
  "build_profile s = (case pf_checks s of
       None \<Rightarrow> Inl (missing ''checks'' '' array'')
     | Some cs \<Rightarrow>
         if cs = [] then Inl (''no '' @ sq ''checks'' @ '' entries'')
         else (case pf_name s of
             None \<Rightarrow> Inl (missing ''name'' '''')
           | Some nm \<Rightarrow> Inr \<lparr>sp_name = nm, sp_checks = cs\<rparr>))"

definition parse_profile :: "string \<Rightarrow> (string + safety_profile) option" where
  "parse_profile input =
     (let src = parser_new input in
      Option.bind (parse_object src (profile_field src) \<lparr>pf_name = None, pf_checks = None\<rparr> 0) (\<lambda>r. case r of
          Inl e \<Rightarrow> Some (Inl e)
        | Inr (s, p) \<Rightarrow> (case peek src p of
            (Some _, q) \<Rightarrow> Some (Inl (''trailing characters at byte '' @ fmt_dec q))
          | (None, _) \<Rightarrow> Some (build_profile s))))"

text \<open>\<open>SafetyProfile::parse\<close> and \<open>SafetyProfile::from_file\<close>; \<open>read_err\<close> is the text of a read error.\<close>

definition profile_parse :: "string \<Rightarrow> (mmreg_error + safety_profile) option" where
  "profile_parse input = map_option (\<lambda>r. case r of
       Inl e \<Rightarrow> Inl (ValidationProfileParse e) | Inr p \<Rightarrow> Inr p) (parse_profile input)"

definition profile_from_file :: "path \<Rightarrow> (string + string) \<Rightarrow> (mmreg_error + safety_profile) option" where
  "profile_from_file p content = (case content of
       Inl read_err \<Rightarrow> Some (Inl (ValidationProfileParse (''failed to read '' @ sq p @ '': '' @ read_err)))
     | Inr text \<Rightarrow> profile_parse text)"

end
