(* ===== verification/JsonSpec.thy ===== *)
theory JsonSpec
  imports Json
begin

text \<open>
  The properties of \<open>Json\<close>: on UTF-8 text the reader returns (it neither panics nor loops), and it
  reads back every profile that is printed as JSON.
\<close>

section \<open>Positions\<close>

text \<open>A position that the parser can be at: inside the text, on a character boundary.\<close>

definition at_char :: "string \<Rightarrow> nat \<Rightarrow> bool" where
  "at_char src p \<longleftrightarrow> p \<le> length src \<and> utf8_valid (drop p src)"

lemma utf8_valid_first:
  assumes "utf8_valid (c # cs)"
  shows "\<not> is_cont c" "char_len c \<le> length (c # cs)" "utf8_valid (drop (char_len c) (c # cs))"
    and "0x80 \<le> byte c \<Longrightarrow> \<forall>x\<in>set (take (char_len c) (c # cs)). 0x80 \<le> byte x"
  using assms
  by (auto simp: is_cont_def char_len_def Let_def split: if_splits list.splits)

lemma src_get_drop: "src_get src p = Some b \<Longrightarrow> drop p src = b # drop (Suc p) src"
  by (auto simp: src_get_def Cons_nth_drop_Suc split: if_splits)

lemma src_get_bound: "src_get src p = Some b \<Longrightarrow> p < length src"
  by (auto simp: src_get_def split: if_splits)

lemma at_char_step:
  "at_char src p \<Longrightarrow> src_get src p = Some b \<Longrightarrow> at_char src (p + char_len b) \<and> p < p + char_len b \<and> \<not> is_cont b"
  using src_get_bound [of src p b] utf8_valid_first [of b "drop (Suc p) src"]
  by (auto simp: at_char_def src_get_drop add.commute [of p] simp flip: drop_drop)
    (auto simp: char_len_def)

lemma char_len_ascii: "byte b < 0x80 \<Longrightarrow> char_len b = 1"
  by (simp add: char_len_def)

lemma at_char_ascii: "at_char src p \<Longrightarrow> src_get src p = Some b \<Longrightarrow> byte b < 0x80 \<Longrightarrow> at_char src (p + 1)"
  using at_char_step [of src p b] by (simp add: char_len_ascii)

lemma utf8_valid_ascii_prefix: "\<forall>c\<in>set a. byte c < 0x80 \<Longrightarrow> utf8_valid (a @ b) = utf8_valid b"
  by (induction a) (auto simp: Let_def)

lemma drop_append_eq: "drop p src = a @ r \<Longrightarrow> drop (p + length a) src = r"
  by (simp add: add.commute [of p] flip: drop_drop)

lemma at_char_prefix:
  assumes "at_char src p" "drop p src = a @ r" "\<forall>c\<in>set a. byte c < 0x80"
  shows "at_char src (p + length a)"
proof -
  have "length src - p = length a + length r"
    using assms(2) by (metis length_append length_drop)
  moreover have "utf8_valid r"
    using assms by (simp add: at_char_def utf8_valid_ascii_prefix)
  moreover have "p \<le> length src"
    using assms(1) by (simp add: at_char_def)
  ultimately have "p + length a \<le> length src" "utf8_valid r"
    by linarith+
  then show ?thesis
    using drop_append_eq [OF assms(2)] by (simp add: at_char_def)
qed

lemma at_char_skip_while:
  assumes "at_char src p" "\<And>c. P c \<Longrightarrow> byte c < 0x80"
  shows "at_char src (skip_while P src p)" "p \<le> skip_while P src p"
proof -
  have "drop p src = takeWhile P (drop p src) @ dropWhile P (drop p src)" by simp
  from at_char_prefix [OF assms(1) this] show "at_char src (skip_while P src p)"
    using assms(2) by (auto simp: skip_while_def dest: set_takeWhileD)
qed (simp add: skip_while_def)

section \<open>The reader returns\<close>

text \<open>An operation started at \<open>pos\<close> returns, and on success has moved on to a character boundary.\<close>

definition returns :: "string \<Rightarrow> nat \<Rightarrow> 'a jres \<Rightarrow> bool" where
  "returns src pos m \<longleftrightarrow> (case m of
       None \<Rightarrow> False
     | Some (Inl _) \<Rightarrow> True
     | Some (Inr (_, p)) \<Rightarrow> pos < p \<and> at_char src p)"

lemma returns_Inl [simp]: "returns src pos (Some (Inl e))"
  by (simp add: returns_def)

lemma returns_Inr [simp]: "returns src pos (Some (Inr (x, p))) \<longleftrightarrow> pos < p \<and> at_char src p"
  by (simp add: returns_def)

lemma returns_later: "returns src p m \<Longrightarrow> q \<le> p \<Longrightarrow> returns src q m"
  by (auto simp: returns_def split: option.splits sum.splits)

lemma returns_bind:
  assumes "returns src pos m" "\<And>x p. m = Some (Inr (x, p)) \<Longrightarrow> pos < p \<Longrightarrow> at_char src p \<Longrightarrow> returns src p (f x p)"
  shows "returns src pos (Option.bind m (\<lambda>r. case r of Inl e \<Rightarrow> Some (Inl e) | Inr (x, p) \<Rightarrow> f x p))"
proof (cases m)
  case (Some r)
  show ?thesis
  proof (cases r)
    case (Inr y)
    then obtain x p where y: "m = Some (Inr (x, p))" by (cases y) (use Some in auto)
    with assms(1) have "pos < p" "at_char src p" by simp_all
    with assms(2) [OF y] y returns_later [of src p "f x p" pos] show ?thesis by simp
  qed (simp add: Some)
qed (use assms(1) in \<open>simp add: returns_def\<close>)

lemma json_ws_ascii: "is_json_ws c \<Longrightarrow> byte c < 0x80"
  by (auto simp: is_json_ws_def byte_def)

lemma number_char_ascii: "is_number_char c \<Longrightarrow> byte c < 0x80" "is_ascii_digit c \<Longrightarrow> byte c < 0x80"
  by (auto simp: is_number_char_def is_ascii_alphanumeric_def is_ascii_digit_def byte_def)

lemma peek_at_char:
  assumes "at_char src pos" "peek src pos = (c, q)"
  shows "at_char src q" "pos \<le> q" "c = src_get src q"
  using assms at_char_skip_while [OF assms(1) json_ws_ascii] by (auto simp: peek_def skip_ws_def Let_def)

lemma expect_returns:
  assumes "at_char src pos" "byte want < 0x80"
  shows "returns src pos (expect src want pos)"
proof -
  obtain c q where p: "peek src pos = (c, q)" by (cases "peek src pos")
  note k = peek_at_char [OF assms(1) p]
  have "at_char src (q + 1)" if "c = Some want"
    using at_char_ascii [OF k(1) _ assms(2)] k(3) that by simp
  with p k(2) show ?thesis
    by (auto simp: expect_def split: option.split)
qed

lemma byte_less: "byte c < 256"
  by (simp add: byte_def)

lemma parse_hex4_at: 
  assumes "at_char src pos" "parse_hex4 src pos = Inr (n, p)"
  shows "at_char src p"
proof -
  have h: "list_all is_ascii_hexdigit (take 4 (drop pos src))" "p = pos + 4" "pos + 4 \<le> length src"
    using assms(2) by (auto simp: parse_hex4_def Let_def split: if_splits option.splits)
  have "byte c < 0x80" if "is_ascii_hexdigit c" for c
    using that by (auto simp: is_ascii_hexdigit_def to_digit_def Let_def split: if_splits)
  then have "\<forall>c\<in>set (take 4 (drop pos src)). byte c < 0x80"
    using h(1) by (auto simp: list_all_iff)
  from at_char_prefix [OF assms(1) append_take_drop_id [symmetric] this] h(3)
  show ?thesis
    by (simp add: h(2))
qed

lemma parse_unicode_returns:
  assumes "at_char src pos"
  shows "returns src pos (parse_unicode src pos)"
proof (cases "parse_hex4 src pos")
  case (Inr x)
  then obtain code p where h: "parse_hex4 src pos = Inr (code, p)" by (cases x) auto
  have p: "at_char src p" "pos < p"
    using parse_hex4_at [OF assms h] parse_hex4_pos [OF h] by auto
  have q: "at_char src q \<and> p < q" if t: "take 2 (drop p src) = [CHR 0x5C, CHR ''u'']"
      and l: "parse_hex4 src (p + 2) = Inr (low, q)" for low q
  proof -
    have "drop p src = [CHR 0x5C, CHR ''u''] @ drop 2 (drop p src)"
      using t by (metis append_take_drop_id)
    from at_char_prefix [OF p(1) this] have "at_char src (p + 2)"
      by (simp add: byte_def)
    with parse_hex4_at [OF this l] parse_hex4_pos [OF l] show ?thesis by auto
  qed
  have "is_scalar (0x10000 + (code - 0xD800) * 1024 + (low - 0xDC00))"
    if "code \<le> 0xDBFF" "low \<le> 0xDFFF" for low
    using that by (auto simp: is_scalar_def)
  with p q h show ?thesis
    by (fastforce simp: parse_unicode_def Let_def split: sum.split)
qed (simp add: parse_unicode_def)

lemma parse_escape_returns:
  assumes "at_char src pos"
  shows "returns src pos (parse_escape src pos)"
proof (cases "src_get src pos")
  case (Some b)
  have "at_char src (pos + 1)" if "byte b < 0x80"
    using at_char_ascii [OF assms Some that] .
  moreover have "returns src pos (parse_unicode src (pos + 1))" if "at_char src (pos + 1)"
    using parse_unicode_returns [OF that] returns_later by fastforce
  ultimately show ?thesis
    by (auto simp: parse_escape_def Some byte_def)
qed (simp add: parse_escape_def)

text \<open>An escape in a string: an error, or its characters and the rest of the string.\<close>

lemma string_loop_escape:
  assumes "at_char src pos" "src_get src pos = Some b" "b = CHR 0x5C"
  obtains (err) m where "parse_escape src (pos + 1) = Some (Inl m)" "string_loop src pos out = Some (Inl m)"
    | (chars) chs p where "parse_escape src (pos + 1) = Some (Inr (chs, p))" "at_char src p" "pos + 1 < p"
        "string_loop src pos out = string_loop src p (out @ chs)"
proof -
  have "at_char src (pos + 1)"
    by (rule at_char_ascii [OF assms(1,2)]) (simp add: assms(3) byte_def)
  note r = parse_escape_returns [OF this]
  show ?thesis
  proof (cases "parse_escape src (pos + 1)")
    case None
    with r show ?thesis by (simp add: returns_def)
  next
    case e: (Some q)
    show ?thesis
    proof (cases q)
      case (Inl m)
      with e assms(2,3) show ?thesis
        by (intro err [of m]; (subst string_loop.simps)?; simp)
    next
      case (Inr y)
      obtain chs p where y: "y = (chs, p)" by (cases y)
      have "at_char src p" "pos + 1 < p"
        using r unfolding e Inr y by simp_all
      with e Inr y assms(2,3) show ?thesis
        by (intro chars [of chs p]; (subst string_loop.simps)?; simp)
    qed
  qed
qed

lemma string_loop_returns:
  "at_char src pos \<Longrightarrow> returns src pos (string_loop src pos out)"
proof (induction src pos out rule: string_loop.induct)
  case (1 src pos out)
  show ?case
  proof (cases "src_get src pos")
    case (Some b)
    note s = at_char_step [OF "1.prems" Some]
    have a: "at_char src (pos + 1)" if "byte b < 0x80"
      using at_char_ascii [OF "1.prems" Some that] .
    consider "b = CHR 0x22" | (esc) "b = CHR 0x5C" | "byte b \<le> 0x1F" "b \<noteq> CHR 0x22" "b \<noteq> CHR 0x5C"
      | (ch) "b \<noteq> CHR 0x22" "b \<noteq> CHR 0x5C" "\<not> byte b \<le> 0x1F"
      by blast
    then show ?thesis
    proof cases
      case esc
      from "1.prems" Some esc show ?thesis
      proof (cases rule: string_loop_escape [where out = out])
        case (chars chs p)
        have "returns src p (string_loop src p (out @ chs))"
          using "1.IH"(1) [OF Some _ esc chars(1) refl refl chars(2)] esc by simp
        then have "returns src pos (string_loop src p (out @ chs))"
          by (rule returns_later) (use chars(3) in simp)
        then show ?thesis by (simp only: chars(4))
      qed simp
    next
      case ch
      from "1.IH"(2) [OF Some ch] s have "returns src (pos + char_len b)
          (string_loop src (pos + char_len b) (out @ take (char_len b) (drop pos src)))" by blast
      then have "returns src pos (string_loop src (pos + char_len b) (out @ take (char_len b) (drop pos src)))"
        by (rule returns_later) simp
      with s ch show ?thesis
        by (subst string_loop.simps) (simp add: Some)
    qed (subst string_loop.simps; use Some a in \<open>simp add: byte_def\<close>)+
  qed (subst string_loop.simps; simp)
qed

lemma parse_string_returns: "at_char src pos \<Longrightarrow> returns src pos (parse_string src pos)"
  unfolding parse_string_def
  by (intro returns_bind expect_returns string_loop_returns) (simp_all add: byte_def)

lemma parse_u64_returns:
  assumes "at_char src pos"
  shows "returns src pos (parse_u64 src pos)"
proof -
  obtain c q where p: "peek src pos = (c, q)" by (cases "peek src pos")
  note k = peek_at_char [OF assms p]
  have str: "returns src q (Option.bind (parse_string src q) (\<lambda>r. case r of
      Inl e \<Rightarrow> Some (Inl e)
    | Inr (s, p) \<Rightarrow> (case parse_u64_radix s 10 of Inl e \<Rightarrow> Some (Inl e) | Inr v \<Rightarrow> Some (Inr (v, p)))))"
    using parse_string_returns [OF k(1)]
    by (cases "parse_string src q") (auto simp: returns_def split: sum.splits)
  have num: "at_char src (skip_while is_number_char src q) \<and> q < skip_while is_number_char src q"
    if "c = Some b" "is_ascii_digit b" for b
  proof -
    have "drop q src = b # drop (Suc q) src"
      using k(3) that(1) by (intro src_get_drop) simp
    then have "q < skip_while is_number_char src q"
      using that(2) by (simp add: skip_while_def is_number_char_def is_ascii_alphanumeric_def)
    with at_char_skip_while [OF k(1) number_char_ascii(1)] show ?thesis by blast
  qed
  show ?thesis
    using returns_later [OF str k(2)] num k(2)
    by (fastforce simp: parse_u64_def p Let_def split: sum.split option.splits)
qed

lemma parse_u32_returns: "at_char src pos \<Longrightarrow> returns src pos (parse_u32 src pos)"
  unfolding parse_u32_def using parse_u64_returns [of src pos]
  by (cases "parse_u64 src pos") (auto simp: returns_def split: sum.splits)

lemma into_returns: "returns src pos m \<Longrightarrow> returns src pos (into m f)"
  by (cases m) (auto simp: into_def returns_def split: sum.splits)

text \<open>The loops return when their element does.\<close>

lemma object_loop_returns:
  assumes "\<And>key s p. at_char src p \<Longrightarrow> returns src p (f key s p)" "at_char src pos"
  shows "returns src pos (object_loop src f s pos)"
  using assms(2)
proof (induction "length src - pos" arbitrary: pos s rule: less_induct)
  case less
  have tail: "returns src p3 (case peek src p3 of (c, q) \<Rightarrow>
          if c = Some (CHR '','') then object_loop src f s' (q + 1)
          else if c = Some (CHR 0x7D) then Some (Inr (s', q + 1))
          else Some (Inl (''expected '' @ sq '','' @ '' or '' @ sq [CHR 0x7D] @ '' at byte '' @ fmt_dec q)))"
    if p3: "pos < p3" "at_char src p3" for p3 s'
  proof -
    obtain c q where p: "peek src p3 = (c, q)" by (cases "peek src p3")
    note k = peek_at_char [OF p3(2) p]
    have step: "at_char src (q + 1) \<and> q < length src" if "c = Some b" "byte b < 0x80" for b
      using at_char_ascii [OF k(1) _ that(2)] src_get_bound [of src q b] k(3) that(1) by simp
    have "returns src (q + 1) (object_loop src f s' (q + 1))" if "c = Some (CHR '','')"
      using step [OF that] p3(1) k(2) by (intro less.hyps) (auto simp: byte_def)
    then show ?thesis
      using step k(2) returns_later by (fastforce simp: p byte_def)
  qed
  show ?case
    by (subst object_loop.simps, intro returns_bind parse_string_returns expect_returns assms(1) tail)
      (auto simp: byte_def less.prems)
qed

lemma array_loop_returns:
  assumes "\<And>s p. at_char src p \<Longrightarrow> returns src p (f s p)" "at_char src pos"
  shows "returns src pos (array_loop err src f s pos)"
  using assms(2)
proof (induction "length src - pos" arbitrary: pos s rule: less_induct)
  case less
  have tail: "returns src p3 (case peek src p3 of (c, q) \<Rightarrow>
          if c = Some (CHR '','') then array_loop err src f s' (q + 1)
          else if c = Some (CHR '']'') then Some (Inr (s', q + 1)) else Some (Inl err))"
    if p3: "pos < p3" "at_char src p3" for p3 s'
  proof -
    obtain c q where p: "peek src p3 = (c, q)" by (cases "peek src p3")
    note k = peek_at_char [OF p3(2) p]
    have step: "at_char src (q + 1) \<and> q < length src" if "c = Some b" "byte b < 0x80" for b
      using at_char_ascii [OF k(1) _ that(2)] src_get_bound [of src q b] k(3) that(1) by simp
    have "returns src (q + 1) (array_loop err src f s' (q + 1))" if "c = Some (CHR '','')"
      using step [OF that] p3(1) k(2) by (intro less.hyps) (auto simp: byte_def)
    then show ?thesis
      using step k(2) returns_later by (fastforce simp: p byte_def)
  qed
  show ?case
    by (subst array_loop.simps, intro returns_bind assms(1) tail) (auto simp: less.prems)
qed

lemma parse_object_returns:
  assumes "\<And>key s p. at_char src p \<Longrightarrow> returns src p (f key s p)" "at_char src pos"
  shows "returns src pos (parse_object src f s pos)"
  unfolding parse_object_def
proof (intro returns_bind expect_returns assms(2))
  fix p
  assume at: "at_char src p"
  obtain c q where p: "peek src p = (c, q)" by (cases "peek src p")
  note k = peek_at_char [OF at p]
  have "at_char src (q + 1)" if "c = Some (CHR 0x7D)"
    using at_char_ascii [OF k(1), of "CHR 0x7D"] k(3) that by (simp add: byte_def)
  then show "returns src p (case peek src p of (c, q) \<Rightarrow>
      if c = Some (CHR 0x7D) then Some (Inr (s, q + 1)) else object_loop src f s q)"
    using returns_later [OF object_loop_returns [OF assms(1) k(1)] k(2)] k(2) by (auto simp: p)
qed (simp add: byte_def)

lemma parse_array_returns:
  assumes "\<And>s p. at_char src p \<Longrightarrow> returns src p (f s p)" "at_char src pos"
  shows "returns src pos (parse_array err src f s pos)"
  unfolding parse_array_def
proof (intro returns_bind expect_returns assms(2))
  fix p
  assume at: "at_char src p"
  obtain c q where p: "peek src p = (c, q)" by (cases "peek src p")
  note k = peek_at_char [OF at p]
  have "at_char src (q + 1)" if "c = Some (CHR '']'')"
    using at_char_ascii [OF k(1), of "CHR '']''"] k(3) that by (simp add: byte_def)
  then show "returns src p (case peek src p of (c, q) \<Rightarrow>
      if c = Some (CHR '']'') then Some (Inr (s, q + 1)) else array_loop err src f s q)"
    using returns_later [OF array_loop_returns [OF assms(1) k(1)] k(2)] k(2) by (auto simp: p)
qed (simp add: byte_def)

lemma skip_digits1_at:
  assumes "at_char src p" "skip_digits1 err src p = Inr q"
  shows "at_char src q \<and> p < q"
proof -
  obtain b where b: "src_get src p = Some b" "is_ascii_digit b" "q = skip_while is_ascii_digit src p"
    using assms(2) by (auto simp: skip_digits1_def split: if_splits option.splits)
  have "p < q"
    using src_get_drop [OF b(1)] b(2,3) by (simp add: skip_while_def)
  with at_char_skip_while(1) [OF assms(1) number_char_ascii(2)] b(3) show ?thesis by simp
qed

lemma at_char_mark:
  assumes "at_char src p" "src_get src p \<in> {Some b, Some c}" "byte b < 0x80" "byte c < 0x80"
  shows "at_char src (p + 1)"
  using at_char_ascii [OF assms(1)] assms(2-4) by auto

text \<open>The three parts of a number: the digits before the point, the fraction, the exponent.\<close>

lemma int_part_at:
  assumes "at_char src p" and i: "(case src_get src p of
      Some b \<Rightarrow> if b = CHR ''0'' then Inr (p + 1)
        else if is_ascii_digit b then Inr (skip_while is_ascii_digit src p) else Inl err
    | None \<Rightarrow> Inl err) = Inr q"
  shows "at_char src q \<and> p < q"
proof -
  obtain b where b: "src_get src p = Some b" "b = CHR ''0'' \<and> q = p + 1
      \<or> is_ascii_digit b \<and> q = skip_while is_ascii_digit src p"
    using i by (auto split: option.splits if_splits)
  have "p < skip_while is_ascii_digit src p" if "is_ascii_digit b"
    using src_get_drop [OF b(1)] that by (simp add: skip_while_def)
  then show ?thesis
    using b(2) at_char_ascii [OF assms(1) b(1)] at_char_skip_while(1) [OF assms(1) number_char_ascii(2)]
    by (auto simp: byte_def)
qed

lemma fraction_at:
  assumes "at_char src p" "(if src_get src p = Some (CHR ''.'') then skip_digits1 err src (p + 1) else Inr p) = Inr q"
  shows "at_char src q \<and> p \<le> q"
  using assms(2) assms(1) at_char_ascii [OF assms(1), of "CHR ''.''"] skip_digits1_at [of src "p + 1" err q]
  by (fastforce simp: byte_def split: if_splits)

lemma exponent_at:
  assumes "at_char src p" "(if src_get src p \<in> {Some (CHR ''e''), Some (CHR ''E'')} then
      skip_digits1 err src (if src_get src (p + 1) \<in> {Some (CHR ''+''), Some (CHR ''-'')} then p + 2 else p + 1)
    else Inr p) = Inr q"
  shows "at_char src q \<and> p \<le> q"
proof (cases "src_get src p \<in> {Some (CHR ''e''), Some (CHR ''E'')}")
  case True
  have a: "at_char src (p + 1)"
    by (rule at_char_mark [OF assms(1) True]) (simp_all add: byte_def)
  have "at_char src (p + 2)" if "src_get src (p + 1) \<in> {Some (CHR ''+''), Some (CHR ''-'')}"
    using at_char_mark [OF a that] by (simp add: byte_def)
  with a assms(2) True skip_digits1_at [of src "p + 1" err q] skip_digits1_at [of src "p + 2" err q] show ?thesis
    by (auto split: if_splits)
next
  case False
  with assms show ?thesis by (simp split: if_splits)
qed

lemma skip_number_returns:
  assumes "at_char src pos"
  shows "returns src pos (skip_number src pos)"
proof -
  define p0 where "p0 = (if src_get src pos = Some (CHR ''-'') then pos + 1 else pos)"
  have p0: "at_char src p0" "pos \<le> p0"
    using at_char_ascii [OF assms, of "CHR ''-''"] assms by (auto simp: p0_def byte_def)
  have val: "returns src pos (case r of Inl e \<Rightarrow> Some (Inl e) | Inr p \<Rightarrow> Some (Inr ((), p)))"
    if "\<And>p. r = Inr p \<Longrightarrow> at_char src p \<and> pos < p" for r
    using that by (simp split: sum.split)
  show ?thesis
    unfolding skip_number_def Let_def p0_def [symmetric]
  proof (rule val, unfold rbind_Inr_iff, elim exE conjE)
    fix p p1 p2
    assume "(case src_get src p0 of
        Some b \<Rightarrow> if b = CHR ''0'' then Inr (p0 + 1)
          else if is_ascii_digit b then Inr (skip_while is_ascii_digit src p0)
          else Inl ''invalid number in ignored field''
      | None \<Rightarrow> Inl ''invalid number in ignored field'') = Inr p1"
    note 1 = int_part_at [OF p0(1) this]
    assume "(if src_get src p1 = Some (CHR ''.'')
        then skip_digits1 ''invalid fraction in ignored number'' src (p1 + 1) else Inr p1) = Inr p2"
    note 2 = fraction_at [OF 1 [THEN conjunct1] this]
    assume "(if src_get src p2 \<in> {Some (CHR ''e''), Some (CHR ''E'')} then
          skip_digits1 ''invalid exponent in ignored number'' src
            (if src_get src (p2 + 1) \<in> {Some (CHR ''+''), Some (CHR ''-'')} then p2 + 2 else p2 + 1)
        else Inr p2) = Inr p"
    from exponent_at [OF 2 [THEN conjunct1] this] 1 2 p0(2) show "at_char src p \<and> pos < p"
      by simp
  qed
qed

lemma skip_value_returns: "at_char src pos \<Longrightarrow> returns src pos (skip_value src depth pos)"
proof (induction src depth pos rule: skip_value.induct)
  case (1 src depth pos)
  obtain c q where p: "peek src pos = (c, q)" by (cases "peek src pos")
  note k = peek_at_char [OF "1.prems" p]
  show ?case
  proof (cases "depth > 32 \<or> c = None")
    case False
    then obtain b where b: "c = Some b" "\<not> depth > 32" by auto
    have lit: "at_char src (q + n)" if "starts_with (drop q src) w" "\<forall>x\<in>set w. byte x < 0x80" "length w = n" for w n
      using that at_char_prefix [OF k(1)] by (auto simp: starts_with_iff)
    have nested: "returns src p' (skip_value src (depth + 1) p')" if "at_char src p'"
      "b = CHR 0x7B \<or> b = CHR ''[''" for p'
      using "1.IH" b p that by (elim disjE) auto
    have str: "returns src q (Option.bind (parse_string src q) (\<lambda>r. case r of
        Inl e \<Rightarrow> Some (Inl e) | Inr (_, p) \<Rightarrow> Some (Inr ((), p))))"
      using parse_string_returns [OF k(1)]
      by (cases "parse_string src q") (auto simp: returns_def split: sum.splits)
    have obj: "returns src q (parse_object src (\<lambda>_ _ p. skip_value src (depth + 1) p) () q)" if "b = CHR 0x7B"
      using nested that by (intro parse_object_returns k(1)) auto
    have arr: "returns src q (parse_array err src (\<lambda>_ p. skip_value src (depth + 1) p) () q)" if "b = CHR ''[''" for err
      using nested that by (intro parse_array_returns k(1)) auto
    have q4: "at_char src (q + 4)" if "starts_with (drop q src) ''true'' \<or> starts_with (drop q src) ''null''"
      using that lit [of "''true''" 4] lit [of "''null''" 4] by (auto simp: byte_def)
    have q5: "at_char src (q + 5)" if "starts_with (drop q src) ''false''"
      using lit [OF that, of 5] by (simp add: byte_def)
    note later = returns_later [OF _ k(2)]
    show ?thesis
      using later [OF str] later [OF obj] later [OF arr] q4 q5 k(2) later [OF skip_number_returns [OF k(1)]]
      by (subst skip_value.simps) (simp add: p b)
  qed (subst skip_value.simps; use p in auto)
qed

lemma check_field_returns: "at_char src p \<Longrightarrow> returns src p (check_field src key s p)"
  by (auto simp: check_field_def intro: into_returns parse_string_returns parse_u64_returns parse_u32_returns
      skip_value_returns)

lemma parse_check_returns:
  assumes "at_char src p"
  shows "returns src p (parse_check src p)"
  unfolding parse_check_def
  using parse_object_returns [where f = "check_field src" and s = "\<lparr>cf_name = None, cf_addr = None,
      cf_mask = None, cf_expected = None\<rparr>", OF check_field_returns assms]
  by (cases "parse_object src (check_field src) \<lparr>cf_name = None, cf_addr = None, cf_mask = None,
      cf_expected = None\<rparr> p") (auto simp: returns_def split: sum.splits)

lemma profile_field_returns: "at_char src p \<Longrightarrow> returns src p (profile_field src key s p)"
  by (auto simp: profile_field_def intro!: into_returns parse_string_returns parse_array_returns
      skip_value_returns parse_check_returns)

lemma parser_new_at_char:
  assumes "utf8_valid input"
  shows "at_char (parser_new input) 0"
proof -
  have "utf8_valid t" if "input = [CHR 0xEF, CHR 0xBB, CHR 0xBF] @ t" for t
    using assms that by (simp add: byte_def Let_def)
  with assms show ?thesis
    by (auto simp: at_char_def parser_new_def split: option.split)
qed

lemma profile_parse_total:
  assumes "utf8_valid input"
  shows "\<exists>r. profile_parse input = Some r"
proof -
  let ?src = "parser_new input"
  from parse_object_returns [where f = "profile_field ?src" and s = "\<lparr>pf_name = None, pf_checks = None\<rparr>",
      OF profile_field_returns parser_new_at_char [OF assms]]
  have "parse_profile input \<noteq> None"
    by (auto simp: parse_profile_def Let_def returns_def split: option.splits sum.splits prod.splits)
  then show ?thesis
    by (auto simp: profile_parse_def)
qed

text \<open>
  C20: for every text in UTF-8 the profile reader returns a profile or a \<open>String\<close> error: it never
  slices inside a character or makes a \<open>char\<close> out of a number that is none, and no loop runs for
  ever, however long the text and whatever is nested in it.
\<close>

theorem profile_parse_returns:
  assumes "utf8_valid input"
  shows "\<exists>r. profile_parse input = Some r"
  by (rule profile_parse_total [OF assms])

theorem profile_parse_returns_witness: "\<exists>r. profile_parse ''{}'' = Some r"
  by (rule profile_parse_returns) code_simp

section \<open>Printed profiles\<close>

text \<open>A printer: names escaped, numbers as quoted hexadecimal.\<close>

definition json_escape :: "char \<Rightarrow> string" where
  "json_escape c =
     (if c = CHR 0x22 then [CHR 0x5C, CHR 0x22]
      else if c = CHR 0x5C then [CHR 0x5C, CHR 0x5C]
      else if byte c \<le> 0x1F then [CHR 0x5C, CHR ''u''] @ fmt_hex0 4 (byte c)
      else [c])"

definition json_quote :: "string \<Rightarrow> string" where
  "json_quote s = [CHR 0x22] @ concat (map json_escape s) @ [CHR 0x22]"

definition json_member :: "string \<Rightarrow> string \<Rightarrow> string" where
  "json_member key text = json_quote key @ '':'' @ text"

definition json_number :: "nat \<Rightarrow> string" where
  "json_number n = json_quote (''0x'' @ fmt_hex n)"

definition check_json :: "validation_check \<Rightarrow> string" where
  "check_json c = [CHR 0x7B] @ join_with '','' [json_member ''name'' (json_quote (vc_name c)),
     json_member ''addr'' (json_number (unat (vc_addr c))),
     json_member ''mask'' (json_number (unat (vc_mask c))),
     json_member ''expected'' (json_number (unat (vc_expected c)))] @ [CHR 0x7D]"

definition profile_json :: "safety_profile \<Rightarrow> string" where
  "profile_json p = [CHR 0x7B] @ join_with '','' [json_member ''name'' (json_quote (sp_name p)),
     json_member ''checks'' (''['' @ join_with '','' (map check_json (sp_checks p)) @ '']'')] @ [CHR 0x7D]"

text \<open>\<open>m\<close> reads the text \<open>tok\<close> as \<open>v\<close>, wherever it stands.\<close>

definition reads :: "(string \<Rightarrow> nat \<Rightarrow> 'a jres) \<Rightarrow> string \<Rightarrow> 'a \<Rightarrow> bool" where
  "reads m tok v \<longleftrightarrow> (\<forall>src pos r. drop pos src = tok @ r \<longrightarrow> m src pos = Some (Inr (v, pos + length tok)))"

lemma readsD: "reads m tok v \<Longrightarrow> drop pos src = tok @ r \<Longrightarrow> m src pos = Some (Inr (v, pos + length tok))"
  unfolding reads_def by blast

lemma src_get_at: "drop pos src = c # r \<Longrightarrow> src_get src pos = Some c"
  by (metis drop_all list.discI list.sel(1) hd_drop_conv_nth not_le src_get_def)

lemma peek_at:
  assumes "drop pos src = c # r" "\<not> is_json_ws c"
  shows "peek src pos = (Some c, pos)"
  using assms src_get_at [OF assms(1)] by (simp add: peek_def skip_ws_def skip_while_def)

lemma expect_at:
  assumes "drop pos src = c # r" "\<not> is_json_ws c"
  shows "expect src c pos = Some (Inr ((), pos + 1))"
  by (simp add: expect_def peek_at [OF assms])

lemma pad0_4: "pad0 4 [a] = [CHR ''0'', CHR ''0'', CHR ''0'', a]" "pad0 4 [a, b] = [CHR ''0'', CHR ''0'', a, b]"
  by (simp_all add: pad0_def eval_nat_numeral)

lemma digit_0: "to_digit (CHR ''0'') 16 = Some 0"
  by (simp add: to_digit_def byte_def)

lemma digits_of_small: "n < b \<Longrightarrow> digits_of b n = [n]"
  by (subst digits_of.simps) simp

lemma fmt_hex0_byte:
  assumes "n \<le> 0x1F"
  shows "fmt_hex0 4 n = [CHR ''0'', CHR ''0'', hex_upper (n div 16), hex_upper (n mod 16)]"
proof (cases "n < 16")
  case True
  then have "fmt_hex n = [hex_upper n]"
    by (simp add: fmt_hex_def digits_of_small)
  with True show ?thesis
    by (simp add: fmt_hex0_def pad0_4 hex_upper_0)
next
  case False
  then have d: "n div 16 = 1"
    using assms by simp
  have "digits_of 16 n = digits_of 16 1 @ [n mod 16]"
    using False d by (subst digits_of.simps) simp
  then have "fmt_hex n = [hex_upper (n div 16), hex_upper (n mod 16)]"
    by (simp add: fmt_hex_def digits_of_small d)
  then show ?thesis
    by (simp add: fmt_hex0_def pad0_4)
qed

lemma hex4_byte:
  assumes "n \<le> 0x1F" "drop pos src = fmt_hex0 4 n @ r"
  shows "parse_hex4 src pos = Inr (n, pos + 4)"
proof -
  have d: "to_digit (hex_upper k) 16 = Some k" if "k < 16" for k
    using that by (intro to_digit_hex_upper) simp_all
  have "from_str_radix 16 (2 ^ 32) (fmt_hex0 4 n) = Some n"
  proof -
    have lt: "n div 16 < 16" "n mod 16 < 16" "n div 16 * 16 + n mod 16 = n" "n < 2 ^ 32" "n div 16 < 2 ^ 32"
      using assms(1) by auto
    show ?thesis
      using lt d [OF lt(1)] d [OF lt(2)] by (simp add: digit_0 fmt_hex0_byte [OF assms(1)] from_str_radix_def starts_with_def)
  qed
  moreover have "list_all is_ascii_hexdigit (fmt_hex0 4 n)"
    using assms(1) d by (simp add: fmt_hex0_byte is_ascii_hexdigit_def digit_0)
  moreover have len: "length (fmt_hex0 4 n) = 4"
    using assms(1) by (simp add: fmt_hex0_byte)
  moreover have "take 4 (drop pos src) = fmt_hex0 4 n"
    by (simp add: assms(2) len)
  moreover have "pos + 4 \<le> length src"
    using len arg_cong [OF assms(2), of length] by simp
  ultimately show ?thesis
    by (simp add: parse_hex4_def)
qed

lemma drop_Suc_at: "drop pos src = c # r \<Longrightarrow> drop (Suc pos) src = r"
  by (metis drop_Suc drop_drop list.sel(3) plus_1_eq_Suc tl_drop)

lemma escape_step:
  assumes "drop pos src = json_escape c @ r" "byte c < 0x80"
  shows "string_loop src pos out = string_loop src (pos + length (json_escape c)) (out @ [c])"
proof -
  consider (two) "c \<in> {CHR 0x22, CHR 0x5C}" | (ctl) "byte c \<le> 0x1F" "c \<notin> {CHR 0x22, CHR 0x5C}"
    | (plain) "\<not> byte c \<le> 0x1F" "c \<notin> {CHR 0x22, CHR 0x5C}"
    by blast
  then show ?thesis
  proof cases
    case two
    then have d: "drop pos src = CHR 0x5C # c # r" and len: "length (json_escape c) = 2"
      using assms(1) by (auto simp: json_escape_def)
    have "src_get src (Suc pos) = Some c"
      by (rule src_get_at [OF drop_Suc_at [OF d]])
    then have "parse_escape src (Suc pos) = Some (Inr ([c], Suc (Suc pos)))"
      using two by (auto simp: parse_escape_def)
    then show ?thesis
      by (subst string_loop.simps) (simp add: src_get_at [OF d] len)
  next
    case ctl
    have eq: "json_escape c = [CHR 0x5C, CHR ''u''] @ fmt_hex0 4 (byte c)"
      using ctl by (auto simp: json_escape_def)
    then have d: "drop pos src = CHR 0x5C # CHR ''u'' # fmt_hex0 4 (byte c) @ r" and len: "length (json_escape c) = 6"
      using assms(1) fmt_hex0_byte [OF ctl(1)] by simp_all
    have "src_get src (Suc pos) = Some (CHR ''u'')"
      by (rule src_get_at [OF drop_Suc_at [OF d]])
    moreover have "parse_hex4 src (Suc (Suc pos)) = Inr (byte c, Suc (Suc pos) + 4)"
      by (rule hex4_byte [OF ctl(1) drop_Suc_at [OF drop_Suc_at [OF d]]])
    moreover have "utf8_encode (byte c) = [c]" "is_scalar (byte c)"
      using assms(2) by (simp_all add: utf8_encode_def byte_def is_scalar_def)
    ultimately have "parse_escape src (Suc pos) = Some (Inr ([c], pos + 6))"
      using ctl(1) by (simp add: parse_escape_def parse_unicode_def)
    then show ?thesis
      by (subst string_loop.simps) (simp add: src_get_at [OF d] len)
  next
    case plain
    then have d: "drop pos src = c # r" and len: "length (json_escape c) = 1"
      using assms(1) by (auto simp: json_escape_def)
    have "\<not> is_cont c"
      using assms(2) by (simp add: is_cont_def)
    then show ?thesis
      using plain by (subst string_loop.simps) (simp add: src_get_at [OF d] len char_len_ascii [OF assms(2)] d)
  qed
qed

lemma chunk_step:
  assumes "utf8_valid (c # cs)" "0x80 \<le> byte c" "drop pos src = take (char_len c) (c # cs) @ r"
  shows "string_loop src pos out = string_loop src (pos + char_len c) (out @ take (char_len c) (c # cs))"
proof -
  have n: "char_len c = Suc (char_len c - 1)" "char_len c \<le> length (c # cs)"
    using utf8_valid_first(2) [OF assms(1)] by (auto simp: char_len_def)
  have "drop pos src = c # take (char_len c - 1) cs @ r"
    using assms(3) n(1) by (metis append_Cons take_Suc_Cons)
  then have "src_get src pos = Some c"
    by (rule src_get_at)
  moreover have "take (char_len c) (drop pos src) = take (char_len c) (c # cs)"
    unfolding assms(3) using n(2) by simp
  moreover have "c \<noteq> CHR 0x22" "c \<noteq> CHR 0x5C"
    using assms(2) by (auto simp: byte_def)
  ultimately show ?thesis
    using utf8_valid_first(1) [OF assms(1)] assms(2) by (subst string_loop.simps) simp
qed

lemma json_escape_high: "\<forall>x\<in>set a. 0x80 \<le> byte x \<Longrightarrow> concat (map json_escape a) = a"
  by (induction a) (auto simp: json_escape_def byte_def)

lemma string_loop_reads:
  "utf8_valid s \<Longrightarrow> drop pos src = concat (map json_escape s) @ CHR 0x22 # r \<Longrightarrow>
    string_loop src pos out = Some (Inr (out @ s, pos + length (concat (map json_escape s)) + 1))"
proof (induction s arbitrary: pos out rule: length_induct)
  case (1 s)
  show ?case
  proof (cases s)
    case Nil
    with "1.prems" have "drop pos src = CHR 0x22 # r" by simp
    from src_get_at [OF this] show ?thesis
      by (subst string_loop.simps) (simp add: Nil)
  next
    case (Cons c cs)
    show ?thesis
    proof (cases "byte c < 0x80")
      case True
      have d: "drop pos src = json_escape c @ (concat (map json_escape cs) @ CHR 0x22 # r)"
        using "1.prems"(2) Cons by simp
      have v: "utf8_valid cs"
        using "1.prems"(1) Cons True by (simp add: Let_def)
      have "string_loop src pos out = string_loop src (pos + length (json_escape c)) (out @ [c])"
        by (rule escape_step [OF d True])
      also have "\<dots> = Some (Inr ((out @ [c]) @ cs, pos + length (json_escape c) + length (concat (map json_escape cs)) + 1))"
        using "1.IH" [rule_format, of cs "pos + length (json_escape c)" "out @ [c]"] Cons v drop_append_eq [OF d] by simp
      finally show ?thesis
        by (simp add: Cons)
    next
      case False
      define a b where "a = take (char_len c) s" and "b = drop (char_len c) s"
      have s: "s = a @ b" by (simp add: a_def b_def)
      have high: "\<forall>x\<in>set a. 0x80 \<le> byte x" and len: "length a = char_len c" "length b < length s" and v: "utf8_valid b"
        using utf8_valid_first [of c cs] "1.prems"(1) False Cons
        by (auto simp: a_def b_def char_len_def)
      have d: "drop pos src = a @ (concat (map json_escape b) @ CHR 0x22 # r)"
        using "1.prems"(2) json_escape_high [OF high] by (simp add: s)
      have "string_loop src pos out = string_loop src (pos + char_len c) (out @ a)"
        using chunk_step [of c cs pos src] "1.prems"(1) False d by (simp add: Cons a_def)
      also have "\<dots> = Some (Inr ((out @ a) @ b, pos + char_len c + length (concat (map json_escape b)) + 1))"
        using "1.IH" [rule_format, of b "pos + char_len c" "out @ a"] len v drop_append_eq [OF d] by simp
      finally show ?thesis
        using json_escape_high [OF high] len(1) by (simp add: s)
    qed
  qed
qed

lemma parse_string_reads: "utf8_valid s \<Longrightarrow> reads parse_string (json_quote s) s"
proof (unfold reads_def, intro allI impI)
  fix src pos r
  assume v: "utf8_valid s" and "drop pos src = json_quote s @ r"
  then have d: "drop pos src = CHR 0x22 # concat (map json_escape s) @ CHR 0x22 # r"
    by (simp add: json_quote_def)
  have "expect src (CHR 0x22) pos = Some (Inr ((), pos + 1))"
    by (rule expect_at [OF d]) (simp add: is_json_ws_def)
  then show "parse_string src pos = Some (Inr (s, pos + length (json_quote s)))"
    using string_loop_reads [OF v drop_Suc_at [OF d], of "[]"] by (simp add: parse_string_def json_quote_def)
qed

lemma parse_u64_reads:
  assumes "n < 2 ^ 64"
  shows "reads parse_u64 (json_number n) (of_nat n)"
proof (unfold reads_def, intro allI impI)
  fix src pos r
  assume d: "drop pos src = json_number n @ r"
  then have "drop pos src = CHR 0x22 # concat (map json_escape (''0x'' @ fmt_hex n)) @ CHR 0x22 # r"
    by (simp add: json_number_def json_quote_def)
  from peek_at [OF this] have p: "peek src pos = (Some (CHR 0x22), pos)"
    by (simp add: is_json_ws_def)
  have fmt: "fmt_hex0 0 n = fmt_hex n"
    by (simp add: fmt_hex0_def pad0_def)
  have "\<forall>c\<in>set (''0x'' @ fmt_hex0 0 n). byte c < 0x80"
    using denotes_fmt(2) [of 16 0 n] by (auto simp: fmt_hex0_def fmt_hex_def is_graph_def byte_def)
  then have "utf8_valid (''0x'' @ fmt_hex n)"
    using utf8_valid_ascii_prefix [of "''0x'' @ fmt_hex n" "[]"] by (simp add: fmt)
  from readsD [OF parse_string_reads [OF this] d [unfolded json_number_def]]
  have "parse_string src pos = Some (Inr (''0x'' @ fmt_hex n, pos + length (json_number n)))"
    by (simp add: json_number_def)
  then show "parse_u64 src pos = Some (Inr (of_nat n, pos + length (json_number n)))"
    using parse_prefixed_fmt [OF assms, of 0 10] by (simp add: parse_u64_def p fmt)
qed

lemma parse_u32_reads: "reads parse_u32 (json_number (unat v)) (v :: u32)"
proof (unfold reads_def, intro allI impI)
  fix src pos r
  assume d: "drop pos src = json_number (unat v) @ r"
  have lt: "unat v < 2 ^ 32"
    using unat_bound [of v] by simp
  then have "unat v < 2 ^ 64" by simp
  moreover have "unat (of_nat (unat v) :: u64) = unat v"
    using lt by (simp add: Word.unat_of_nat)
  moreover have "ucast (of_nat (unat v) :: u64) = v"
    using lt by (simp add: word_unat_eq_iff unat_ucast_down Word.unat_of_nat)
  ultimately show "parse_u32 src pos = Some (Inr (v, pos + length (json_number (unat v))))"
    using readsD [OF parse_u64_reads d] lt by (simp add: parse_u32_def)
qed

text \<open>One member of an object, and the separator after it.\<close>

lemma object_loop_step:
  assumes "utf8_valid key" "drop pos src = json_member key tok @ c # r" "\<not> is_json_ws c"
    and "f key s (pos + length (json_quote key) + 1) = Some (Inr (s', pos + length (json_member key tok)))"
  shows "object_loop src f s pos =
    (if c = CHR '','' then object_loop src f s' (pos + length (json_member key tok) + 1)
     else if c = CHR 0x7D then Some (Inr (s', pos + length (json_member key tok) + 1))
     else Some (Inl (''expected '' @ sq '','' @ '' or '' @ sq [CHR 0x7D] @ '' at byte ''
       @ fmt_dec (pos + length (json_member key tok)))))"
proof -
  have d: "drop pos src = json_quote key @ CHR '':'' # tok @ c # r"
    using assms(2) by (simp add: json_member_def)
  note k = readsD [OF parse_string_reads [OF assms(1)] d]
  have "expect src (CHR '':'') (pos + length (json_quote key)) = Some (Inr ((), pos + length (json_quote key) + 1))"
    by (rule expect_at [OF drop_append_eq [OF d]]) (simp add: is_json_ws_def)
  moreover have "peek src (pos + length (json_member key tok)) = (Some c, pos + length (json_member key tok))"
    using peek_at [OF drop_append_eq [OF assms(2)] assms(3)] .
  ultimately show ?thesis
    using k assms(4) by (subst object_loop.simps) simp
qed

text \<open>A member whose text an operation reads into a field.\<close>

lemma into_reads:
  assumes "reads m tok v" "drop pos src = json_member key tok @ r"
  shows "into (m src (pos + length (json_quote key) + 1)) put
    = Some (Inr (put v, pos + length (json_member key tok)))"
proof -
  have "drop (pos + length (json_quote key) + 1) src = tok @ r"
    using assms(2) drop_append_eq [of pos src "json_quote key @ [CHR '':'']" "tok @ r"] by (simp add: json_member_def)
  from readsD [OF assms(1) this] show ?thesis
    by (simp add: into_def json_member_def)
qed

lemma parse_object_at:
  assumes "drop pos src = CHR 0x7B # c # r" "\<not> is_json_ws c" "c \<noteq> CHR 0x7D"
  shows "parse_object src f s pos = object_loop src f s (pos + 1)"
proof -
  have "expect src (CHR 0x7B) pos = Some (Inr ((), pos + 1))"
    by (rule expect_at [OF assms(1)]) (simp add: is_json_ws_def)
  moreover have "peek src (pos + 1) = (Some c, pos + 1)"
    using peek_at [OF drop_Suc_at [OF assms(1)] assms(2)] by simp
  ultimately show ?thesis
    using assms(3) by (simp add: parse_object_def)
qed

lemma json_quote_Cons: "json_quote s = CHR 0x22 # concat (map json_escape s) @ [CHR 0x22]"
  by (simp add: json_quote_def)

lemma key_utf8: "utf8_valid ''name''" "utf8_valid ''addr''" "utf8_valid ''mask''" "utf8_valid ''expected''"
  "utf8_valid ''checks''"
  by code_simp+

lemma separators: "\<not> is_json_ws (CHR '','')" "\<not> is_json_ws (CHR 0x7D)" "\<not> is_json_ws (CHR 0x22)"
  "\<not> is_json_ws (CHR '']'')" "\<not> is_json_ws (CHR 0x7B)" "\<not> is_json_ws (CHR ''['')"
  by (simp_all add: is_json_ws_def)

text \<open>A printed check reads back.\<close>

lemma check_fields_read:
  assumes "utf8_valid (vc_name c)" "drop pos src = check_json c @ r"
  shows "parse_object src (check_field src) \<lparr>cf_name = None, cf_addr = None, cf_mask = None, cf_expected = None\<rparr> pos
    = Some (Inr (\<lparr>cf_name = Some (vc_name c), cf_addr = Some (vc_addr c), cf_mask = Some (vc_mask c),
        cf_expected = Some (vc_expected c)\<rparr>, pos + length (check_json c)))"
proof -
  let ?n = "json_member ''name'' (json_quote (vc_name c))" and ?a = "json_member ''addr'' (json_number (unat (vc_addr c)))"
  let ?m = "json_member ''mask'' (json_number (unat (vc_mask c)))"
  let ?e = "json_member ''expected'' (json_number (unat (vc_expected c)))"
  let ?p1 = "pos + 1" let ?p2 = "?p1 + length ?n + 1" let ?p3 = "?p2 + length ?a + 1" let ?p4 = "?p3 + length ?m + 1"
  have d0: "drop pos src = CHR 0x7B # (?n @ CHR '','' # ?a @ CHR '','' # ?m @ CHR '','' # ?e @ CHR 0x7D # r)"
    using assms(2) by (simp add: check_json_def)
  have d1: "drop ?p1 src = ?n @ CHR '','' # ?a @ CHR '','' # ?m @ CHR '','' # ?e @ CHR 0x7D # r"
    using drop_Suc_at [OF d0] by simp
  have d2: "drop ?p2 src = ?a @ CHR '','' # ?m @ CHR '','' # ?e @ CHR 0x7D # r"
    using drop_Suc_at [OF drop_append_eq [OF d1]] by simp
  have d3: "drop ?p3 src = ?m @ CHR '','' # ?e @ CHR 0x7D # r"
    using drop_Suc_at [OF drop_append_eq [OF d2]] by simp
  have d4: "drop ?p4 src = ?e @ CHR 0x7D # r"
    using drop_Suc_at [OF drop_append_eq [OF d3]] by simp
  have addr: "reads parse_u64 (json_number (unat (vc_addr c))) (vc_addr c)"
    using parse_u64_reads [of "unat (vc_addr c)"] unat_bound [of "vc_addr c"] by simp
  note f = into_reads [OF parse_string_reads [OF assms(1)] d1] into_reads [OF addr d2]
    into_reads [OF parse_u32_reads d3] into_reads [OF parse_u32_reads d4]
  have "parse_object src (check_field src) \<lparr>cf_name = None, cf_addr = None, cf_mask = None, cf_expected = None\<rparr> pos
      = object_loop src (check_field src) \<lparr>cf_name = None, cf_addr = None, cf_mask = None, cf_expected = None\<rparr> ?p1"
    using d0 by (intro parse_object_at) (auto simp: json_member_def json_quote_Cons separators)
  also have "\<dots> = object_loop src (check_field src) \<lparr>cf_name = Some (vc_name c), cf_addr = None, cf_mask = None,
      cf_expected = None\<rparr> ?p2"
    using f(1) by (subst object_loop_step [OF key_utf8(1) d1 separators(1)]) (auto simp: check_field_def)
  also have "\<dots> = object_loop src (check_field src) \<lparr>cf_name = Some (vc_name c), cf_addr = Some (vc_addr c),
      cf_mask = None, cf_expected = None\<rparr> ?p3"
    using f(2) by (subst object_loop_step [OF key_utf8(2) d2 separators(1)]) (auto simp: check_field_def)
  also have "\<dots> = object_loop src (check_field src) \<lparr>cf_name = Some (vc_name c), cf_addr = Some (vc_addr c),
      cf_mask = Some (vc_mask c), cf_expected = None\<rparr> ?p4"
    using f(3) by (subst object_loop_step [OF key_utf8(3) d3 separators(1)]) (auto simp: check_field_def)
  also have "\<dots> = Some (Inr (\<lparr>cf_name = Some (vc_name c), cf_addr = Some (vc_addr c), cf_mask = Some (vc_mask c),
        cf_expected = Some (vc_expected c)\<rparr>, ?p4 + length ?e + 1))"
    using f(4) by (subst object_loop_step [OF key_utf8(4) d4 separators(2)]) (auto simp: check_field_def)
  also have "?p4 + length ?e + 1 = pos + length (check_json c)"
    by (simp add: check_json_def)
  finally show ?thesis .
qed

lemma parse_check_reads: "utf8_valid (vc_name c) \<Longrightarrow> reads parse_check (check_json c) c"
  unfolding reads_def by (simp add: parse_check_def check_fields_read build_check_def)

lemma checks_loop_reads:
  assumes "\<forall>x\<in>set (c # cs). utf8_valid (vc_name x)"
    and "drop pos src = join_with '','' (map check_json (c # cs)) @ CHR '']'' # r"
  shows "array_loop err src (\<lambda>cs q. into (parse_check src q) (\<lambda>c. cs @ [c])) acc pos
    = Some (Inr (acc @ c # cs, pos + length (join_with '','' (map check_json (c # cs))) + 1))"
  using assms
proof (induction cs arbitrary: c acc pos)
  case Nil
  then have d: "drop pos src = check_json c @ CHR '']'' # r" by simp
  have "parse_check src pos = Some (Inr (c, pos + length (check_json c)))"
    using Nil.prems(1) by (intro readsD [OF parse_check_reads d]) simp
  then show ?case
    using peek_at [OF drop_append_eq [OF d] separators(4)]
    by (subst array_loop.simps) (simp add: into_def)
next
  case (Cons c2 cs)
  let ?rest = "join_with '','' (map check_json (c2 # cs))"
  have d: "drop pos src = check_json c @ CHR '','' # ?rest @ CHR '']'' # r"
    using Cons.prems(2) by simp
  have "parse_check src pos = Some (Inr (c, pos + length (check_json c)))"
    using Cons.prems(1) by (intro readsD [OF parse_check_reads d]) simp
  then have "array_loop err src (\<lambda>cs q. into (parse_check src q) (\<lambda>c. cs @ [c])) acc pos
      = array_loop err src (\<lambda>cs q. into (parse_check src q) (\<lambda>c. cs @ [c])) (acc @ [c]) (pos + length (check_json c) + 1)"
    using peek_at [OF drop_append_eq [OF d] separators(1)]
    by (subst array_loop.simps) (simp add: into_def)
  also have "\<dots> = Some (Inr ((acc @ [c]) @ c2 # cs, pos + length (check_json c) + 1 + length ?rest + 1))"
    using Cons.prems(1) drop_Suc_at [OF drop_append_eq [OF d]] by (intro Cons.IH) simp_all
  finally show ?case by simp
qed

lemma check_json_Cons: "check_json c = CHR 0x7B # tl (check_json c)"
  by (simp add: check_json_def)

lemma checks_read:
  assumes "cs \<noteq> []" "\<forall>x\<in>set cs. utf8_valid (vc_name x)"
    and "drop pos src = (''['' @ join_with '','' (map check_json cs) @ '']'') @ r"
  shows "parse_array err src (\<lambda>cs q. into (parse_check src q) (\<lambda>c. cs @ [c])) [] pos
    = Some (Inr (cs, pos + length (''['' @ join_with '','' (map check_json cs) @ '']'')))"
proof -
  obtain c cs' where cs: "cs = c # cs'" using assms(1) by (cases cs) auto
  have d: "drop pos src = CHR ''['' # join_with '','' (map check_json (c # cs')) @ CHR '']'' # r"
    using assms(3) by (simp add: cs)
  note d1 = drop_Suc_at [OF d]
  obtain u where u: "check_json c = CHR 0x7B # u"
    using check_json_Cons by blast
  have "\<exists>t. join_with '','' (map check_json (c # cs')) = CHR 0x7B # t"
    by (cases cs') (simp_all add: u)
  then obtain t where "join_with '','' (map check_json (c # cs')) = CHR 0x7B # t" ..
  with d1 have "peek src (Suc pos) = (Some (CHR 0x7B), Suc pos)"
    by (intro peek_at [OF _ separators(5)]) simp
  moreover have "expect src (CHR ''['') pos = Some (Inr ((), pos + 1))"
    by (rule expect_at [OF d separators(6)])
  ultimately show ?thesis
    using checks_loop_reads [OF _ d1, where err = err and acc = "[]"] assms(2)
    by (simp add: parse_array_def cs)
qed

text \<open>
  C21: every profile with at least one check, and with names in UTF-8, is read back from its printed
  JSON: names whatever quotes, backslashes, control characters or characters beyond ASCII they
  contain, and addresses, masks and expected values at their full width.
\<close>

theorem profile_json_roundtrip:
  assumes "sp_checks p \<noteq> []" "utf8_valid (sp_name p)" "\<forall>c\<in>set (sp_checks p). utf8_valid (vc_name c)"
  shows "profile_parse (profile_json p) = Some (Inr p)"
proof -
  let ?src = "profile_json p" and ?arr = "''['' @ join_with '','' (map check_json (sp_checks p)) @ '']''"
  let ?n = "json_member ''name'' (json_quote (sp_name p))" and ?c = "json_member ''checks'' ?arr"
  let ?p2 = "1 + length ?n + 1"
  have src: "parser_new ?src = ?src"
    by (simp add: parser_new_def strip_prefix_def starts_with_def profile_json_def)
  have d0: "drop 0 ?src = CHR 0x7B # (?n @ CHR '','' # ?c @ CHR 0x7D # [])"
    by (simp add: profile_json_def)
  have d1: "drop 1 ?src = ?n @ CHR '','' # ?c @ CHR 0x7D # []"
    using drop_Suc_at [OF d0] by simp
  have d2: "drop ?p2 ?src = ?c @ CHR 0x7D # []"
    using drop_Suc_at [OF drop_append_eq [OF d1]] by simp
  have arr: "reads (\<lambda>src. parse_array err src (\<lambda>cs q. into (parse_check src q) (\<lambda>c. cs @ [c])) []) ?arr (sp_checks p)" for err
    using checks_read [OF assms(1,3)] by (simp add: reads_def)
  note f = into_reads [OF parse_string_reads [OF assms(2)] d1] into_reads [OF arr d2]
  have "parse_object ?src (profile_field ?src) \<lparr>pf_name = None, pf_checks = None\<rparr> 0
      = object_loop ?src (profile_field ?src) \<lparr>pf_name = None, pf_checks = None\<rparr> 1"
    using d0 by (subst parse_object_at) (auto simp: json_member_def json_quote_Cons separators)
  also have "\<dots> = object_loop ?src (profile_field ?src) \<lparr>pf_name = Some (sp_name p), pf_checks = None\<rparr> ?p2"
    using f(1) by (subst object_loop_step [OF key_utf8(1) d1 separators(1)]) (auto simp: profile_field_def)
  also have "\<dots> = Some (Inr (\<lparr>pf_name = Some (sp_name p), pf_checks = Some (sp_checks p)\<rparr>, ?p2 + length ?c + 1))"
    using f(2) by (subst object_loop_step [OF key_utf8(5) d2 separators(2)]) (auto simp: profile_field_def)
  finally have o: "parse_object ?src (profile_field ?src) \<lparr>pf_name = None, pf_checks = None\<rparr> 0
      = Some (Inr (\<lparr>pf_name = Some (sp_name p), pf_checks = Some (sp_checks p)\<rparr>, ?p2 + length ?c + 1))" .
  have len: "?p2 + length ?c + 1 = length ?src"
    by (simp add: profile_json_def)
  have "peek ?src (length ?src) = (None, length ?src)"
    by (simp add: peek_def skip_ws_def skip_while_def src_get_def)
  then show ?thesis
    using o assms(1) unfolding len
    by (simp add: profile_parse_def parse_profile_def src build_profile_def)
qed

definition sample_profile :: safety_profile where
  "sample_profile = \<lparr>sp_name = ''Zynq \"MP\"'', sp_checks = [\<lparr>vc_name = ''PCAP_DONE'', vc_addr = 0xFFCA3010,
     vc_mask = 4, vc_expected = 4\<rparr>]\<rparr>"

theorem profile_json_roundtrip_witness:
  "profile_parse (profile_json sample_profile) = Some (Inr sample_profile)"
proof -
  have "utf8_valid (sp_name sample_profile)" "utf8_valid ''PCAP_DONE''"
    unfolding sample_profile_def by code_simp+
  then show ?thesis
    by (intro profile_json_roundtrip) (simp_all add: sample_profile_def)
qed

end
