(* ===== verification/Cli.thy ===== *)
theory Cli
  imports IfaceSpec JsonSpec
begin

text \<open>
  \<open>src/main.rs\<close>: the command line. What the build and the machine put in is the record
  \<open>cli_env\<close>: the crate version, the two cargo features, and the content of a profile file (or the
  text of the error of reading it). The printed text is the result; writing it out, and the warnings
  that go to \<open>stderr\<close>, are left out.
\<close>

section \<open>Texts\<close>

record cli_env =
  cl_version :: string
  cl_has_profile :: bool
  cl_has_debug :: bool
  cl_file :: "path \<Rightarrow> string + string"

definition nl :: string where
  "nl = [CHR 0x0A]"

definition usage_text :: string where
  "usage_text = join_with nl [
     ''Usage:'',
     ''  mmreg [options] <read|write> <address> [value]'',
     ''  mmreg [options] <read|write> <uio-name> <offset> [value]'',
     ''Options:'',
     ''  -w, --width <8|16|32|64>  Access width in bits (default: 32)'',
     ''  -f, --force               Skip address blueprint and hardware pre-flight validation'',
     ''  -v, --validate <file>     Run a JSON Safety Profile'' @ [CHR 0x27] @ ''s checks before the access (may be repeated)'',
     ''  -d, --dec                 Interpret unprefixed numbers as decimal instead of hexadecimal'',
     ''  -V, --version             Print version and enabled features'',
     ''  -h, --help                Print this help message'',
     ''Commands:'',
     ''  read  <address>                   Read value at physical address'',
     ''  read  <uio-name> <offset>         Read value at byte offset in UIO device'',
     ''  write <address> <value>           Write value to physical address'',
     ''  write <uio-name> <offset> <value> Write value to byte offset in UIO device'',
     ''Examples:'',
     ''  mmreg read 0x4000_0000'',
     ''  mmreg --width 16 read axi_gpio 0x04'',
     ''  mmreg write 0x4000_0000 0xDEADBEEF'',
     ''  mmreg write axi_gpio 0x00 0x00000001'',
     ''  mmreg --validate zynqmp_safety.json read 0xA000_0000'',
     ''  mmreg --force read 0x4000_0000'']"

definition version_text :: "cli_env \<Rightarrow> string" where
  "version_text C =
     (let features = (if cl_has_profile C then [''profile''] else []) @ (if cl_has_debug C then [''debug''] else []);
          feat = (if features = [] then ''none'' else join_with '', '' features)
      in ''mmreg '' @ cl_version C @ '' (features: '' @ feat @ '')'')"

definition usage_error :: "string \<Rightarrow> string" where
  "usage_error message = message @ nl @ usage_text"

section \<open>Operands\<close>

datatype cli_target = Address u64 | UioAt string u32   \<comment> \<open>name, offset\<close>

definition looks_like_address :: "string \<Rightarrow> u32 \<Rightarrow> bool" where
  "looks_like_address arg default_radix \<longleftrightarrow>
     (case str_trim arg of [] \<Rightarrow> False | b # _ \<Rightarrow> is_ascii_digit b)
     \<and> (case parse_u64_radix arg default_radix of Inr _ \<Rightarrow> True | Inl _ \<Rightarrow> False)"

definition parse_width :: "string \<Rightarrow> string + width" where
  "parse_width raw = (case Option.bind (u32_parse (str_trim raw)) width_from_bits of
       Some w \<Rightarrow> Inr w
     | None \<Rightarrow> Inl (usage_error (''[E_CLI_INVALID_WIDTH] Invalid width '' @ sq raw @ '' (expected 8, 16, 32, or 64)'')))"

definition fits_width :: "width \<Rightarrow> u64 \<Rightarrow> bool" where
  "fits_width w v = (case w of
       WU8 \<Rightarrow> unat v < 2 ^ 8 | WU16 \<Rightarrow> unat v < 2 ^ 16 | WU32 \<Rightarrow> unat v < 2 ^ 32 | WU64 \<Rightarrow> True)"

definition parse_value :: "string \<Rightarrow> u32 \<Rightarrow> width \<Rightarrow> string + u64" where
  "parse_value raw radix w =
     (let bad = ''[E_CLI_INVALID_VAL] Invalid value '' @ sq raw @ '' (expected '' @ dec_w (width_bits w)
        @ ''-bit hex value, e.g., 0xDEADBEEF, or decimal with 0d/--dec)''
      in case parse_u64_radix raw radix of
           Inr v \<Rightarrow> if fits_width w v then Inr v else Inl bad
         | Inl _ \<Rightarrow> Inl bad)"

definition format_hex :: "u64 \<Rightarrow> width \<Rightarrow> string" where
  "format_hex v w = ''0x'' @ (case w of
       WU8 \<Rightarrow> fmt_hex0 2 (unat (ucast v :: u8))
     | WU16 \<Rightarrow> fmt_hex0 4 (unat (ucast v :: u16))
     | WU32 \<Rightarrow> fmt_hex0 8 (unat (ucast v :: u32))
     | WU64 \<Rightarrow> fmt_hex0 16 (unat v))"

section \<open>Options\<close>

record cli_opts =
  co_force :: bool
  co_radix :: u32
  co_width :: width
  co_validate :: "path list"
  co_positionals :: "string list"

text \<open>The option loop, over the arguments after the program's name.\<close>

fun cli_options :: "string list \<Rightarrow> cli_opts \<Rightarrow> string + cli_opts" where
  "cli_options [] o1 = Inr o1"
| "cli_options (a # as) o1 =
     (if a = ''-f'' \<or> a = ''--force'' then cli_options as (o1\<lparr>co_force := True\<rparr>)
      else if a = ''-d'' \<or> a = ''--dec'' then cli_options as (o1\<lparr>co_radix := 10\<rparr>)
      else if a = ''-v'' \<or> a = ''--validate'' then
        (case as of
           [] \<Rightarrow> Inl (usage_error (''[E_CLI_MISSING_PROFILE] Missing file path after '' @ a))
         | p # rest \<Rightarrow> cli_options rest (o1\<lparr>co_validate := co_validate o1 @ [p]\<rparr>))
      else if a = ''-w'' \<or> a = ''--width'' then
        (case as of
           [] \<Rightarrow> Inl (usage_error (''[E_CLI_MISSING_WIDTH] Missing bit width after '' @ a))
         | p # rest \<Rightarrow> rbind (parse_width p) (\<lambda>w. cli_options rest (o1\<lparr>co_width := w\<rparr>)))
      else if starts_with a ''-'' then Inl (usage_error (''[E_CLI_UNKNOWN_OPT] Unknown option: '' @ a))
      else cli_options as (o1\<lparr>co_positionals := co_positionals o1 @ [a]\<rparr>))"

definition cli_defaults :: cli_opts where
  "cli_defaults = \<lparr>co_force = False, co_radix = 16, co_width = WU32, co_validate = [], co_positionals = []\<rparr>"

definition parse_address :: "string \<Rightarrow> string \<Rightarrow> u32 \<Rightarrow> string + u64" where
  "parse_address hint arg radix = (case parse_u64_radix arg radix of
       Inr a \<Rightarrow> Inr a
     | Inl _ \<Rightarrow> Inl (''[E_CLI_INVALID_ADDR] Invalid address '' @ sq arg
         @ '' (expected 64-bit hex address, e.g., 0x4000_0000, or '' @ sq hint @ '')''))"

definition parse_offset :: "string \<Rightarrow> u32 \<Rightarrow> string + u32" where
  "parse_offset arg radix = (case parse_u32_radix arg radix of
       Inr off \<Rightarrow> Inr off
     | Inl _ \<Rightarrow> Inl (''[E_CLI_INVALID_OFFSET] Invalid offset '' @ sq arg
         @ '' (expected 32-bit hex offset, e.g., 0x04, or decimal with 0d/--dec)''))"

definition too_many :: string where
  "too_many = usage_error ''[E_CLI_EXTRA_ARGS] Too many arguments''"

text \<open>The target and the value to write, if any.\<close>

definition cli_operands :: "cli_opts \<Rightarrow> string + (cli_target \<times> u64 option)" where
  "cli_operands o1 = (let radix = co_radix o1; w = co_width o1 in
     case co_positionals o1 of
       [] \<Rightarrow> Inl (usage_error ''[E_CLI_MISSING_CMD] Missing command'')
     | cmd # operands \<Rightarrow>
         if cmd = ''read'' then
           (case operands of
              [] \<Rightarrow> Inl (usage_error ''[E_CLI_MISSING_ADDR] Missing address argument'')
            | [addr] \<Rightarrow> rbind (parse_address ''mmreg read <uio-name> <offset>'' addr radix) (\<lambda>a. Inr (Address a, None))
            | [nm, off] \<Rightarrow>
                if looks_like_address nm radix then Inl too_many
                else rbind (parse_offset off radix) (\<lambda>x. Inr (UioAt nm x, None))
            | _ \<Rightarrow> Inl too_many)
         else if cmd = ''write'' then
           (case operands of
              [] \<Rightarrow> Inl (usage_error ''[E_CLI_MISSING_ADDR] Missing address argument'')
            | [_] \<Rightarrow> Inl (usage_error ''[E_CLI_MISSING_VAL] Missing value argument for write'')
            | [addr, val] \<Rightarrow>
                rbind (parse_address ''mmreg write <uio-name> <offset> <value>'' addr radix) (\<lambda>a.
                rbind (parse_value val radix w) (\<lambda>v. Inr (Address a, Some v)))
            | [nm, off, val] \<Rightarrow>
                if looks_like_address nm radix then Inl too_many
                else rbind (parse_offset off radix) (\<lambda>x.
                  rbind (parse_value val radix w) (\<lambda>v. Inr (UioAt nm x, Some v)))
            | _ \<Rightarrow> Inl too_many)
         else Inl (usage_error (''[E_CLI_UNKNOWN_CMD] Unknown command: '' @ sq cmd)))"

section \<open>Running a command\<close>

text \<open>The trait \<open>CliBackend\<close>.\<close>

record 's cli_backend =
  cb_read :: "cli_target \<Rightarrow> width \<Rightarrow> bool \<Rightarrow> (mmreg_error, 's, u64) prog"
  cb_write :: "cli_target \<Rightarrow> width \<Rightarrow> u64 \<Rightarrow> bool \<Rightarrow> (mmreg_error, 's, unit) prog"

definition pmap_err :: "('e \<Rightarrow> 'f) \<Rightarrow> ('e, 's, 'a) prog \<Rightarrow> ('f, 's, 'a) prog" where
  "pmap_err f m = (\<lambda>s. case m s of
       Done (Inl e, s') \<Rightarrow> Done (Inl (f e), s') | Done (Inr x, s') \<Rightarrow> Done (Inr x, s')
     | Blocks \<Rightarrow> Blocks | Panics \<Rightarrow> Panics)"

text \<open>\<open>run_profile\<close> with and without the cargo feature. A reader that does not return is a panic here.\<close>

definition cli_run_profile :: "cli_env \<Rightarrow> 's cli_backend \<Rightarrow> path \<Rightarrow> (string, 's, unit) prog" where
  "cli_run_profile C B p =
     (if \<not> cl_has_profile C then
        pfail ''[E_CLI_NO_PROFILE] --validate needs mmreg built with the `profile` feature''
      else (\<lambda>s. case profile_from_file p (cl_file C p) of
          None \<Rightarrow> Panics
        | Some (Inl e) \<Rightarrow> pfail (display e) s
        | Some (Inr prof) \<Rightarrow> pmap_err display (execute_with prof (\<lambda>addr.
            pbind (cb_read B (Address addr) WU32 True) (\<lambda>v. pret (ucast v)))) s))"

fun cli_profiles :: "cli_env \<Rightarrow> 's cli_backend \<Rightarrow> path list \<Rightarrow> (string, 's, unit) prog" where
  "cli_profiles C B [] = pret ()"
| "cli_profiles C B (p # ps) = pbind (cli_run_profile C B p) (\<lambda>_. cli_profiles C B ps)"

definition wrote_text :: "cli_target \<Rightarrow> string \<Rightarrow> string" where
  "wrote_text t formatted = ''Wrote '' @ formatted @ '' to '' @ (case t of
       Address a \<Rightarrow> ''0x'' @ fmt_hex (unat a)
     | UioAt nm off \<Rightarrow> nm @ ''+0x'' @ fmt_hex (unat off))"

definition cli_access :: "'s cli_backend \<Rightarrow> cli_opts \<Rightarrow> cli_target \<Rightarrow> u64 option \<Rightarrow> (string, 's, string) prog" where
  "cli_access B o1 t value = (case value of
       None \<Rightarrow> pbind (pmap_err (\<lambda>e. ''Read error: '' @ display e) (cb_read B t (co_width o1) (co_force o1)))
         (\<lambda>v. pret (format_hex v (co_width o1)))
     | Some v \<Rightarrow> pbind (pmap_err (\<lambda>e. ''Write error: '' @ display e) (cb_write B t (co_width o1) v (co_force o1)))
         (\<lambda>_. pret (wrote_text t (format_hex v (co_width o1)))))"

text \<open>\<open>run_cli\<close>; \<open>args[1..]\<close> panics without a program name.\<close>

definition run_cli :: "cli_env \<Rightarrow> 's cli_backend \<Rightarrow> string list \<Rightarrow> (string, 's, string) prog" where
  "run_cli C B args = (case args of
       [] \<Rightarrow> (\<lambda>s. Panics)
     | _ # as \<Rightarrow>
         if list_ex (\<lambda>a. a = ''-h'' \<or> a = ''--help'') as then pret usage_text
         else if list_ex (\<lambda>a. a = ''-V'' \<or> a = ''--version'') as then pret (version_text C)
         else pbind (plift (cli_options as cli_defaults)) (\<lambda>o1.
           pbind (plift (cli_operands o1)) (\<lambda>(t, value).
           pbind (cli_profiles C B (co_validate o1)) (\<lambda>_. cli_access B o1 t value))))"

section \<open>\<open>HardwareBackend\<close>\<close>

text \<open>\<open>open_target\<close>, then \<open>act\<close> at the offset, on a device that is dropped at the end.\<close>

definition with_target ::
  "('h, 'm) env \<Rightarrow> cli_target \<Rightarrow> width \<Rightarrow> bool \<Rightarrow> bool \<Rightarrow> (u32 \<Rightarrow> (mmreg_error, ('h, 'm) world, 'a) prog)
    \<Rightarrow> (mmreg_error, 'h machine, 'a) prog"
where
  "with_target E t w read_only force act = (case t of
       Address a \<Rightarrow>
         if a mod width_bytes w \<noteq> 0 then pfail (UnalignedWidthAccess a 0 (width_bits w))
         else with_device E (with_force force (with_read_only read_only (builder_new (Addr a (width_bytes w))))) (act 0)
     | UioAt nm off \<Rightarrow>
         with_device E (with_force force (with_read_only read_only (builder_new (UioName nm)))) (act off))"

definition hw_read ::
  "('h, 'm) env \<Rightarrow> thread \<Rightarrow> cli_target \<Rightarrow> width \<Rightarrow> bool \<Rightarrow> (mmreg_error, 'h machine, u64) prog"
where
  "hw_read E me t w force = with_target E t w True force (\<lambda>off. device_read E me off w)"

definition hw_write ::
  "('h, 'm) env \<Rightarrow> thread \<Rightarrow> cli_target \<Rightarrow> width \<Rightarrow> u64 \<Rightarrow> bool \<Rightarrow> (mmreg_error, 'h machine, unit) prog"
where
  "hw_write E me t w v force = with_target E t w False force (\<lambda>off. device_write E me off w v)"

definition hw_backend :: "('h, 'm) env \<Rightarrow> thread \<Rightarrow> 'h machine cli_backend" where
  "hw_backend E me = \<lparr>cb_read = hw_read E me, cb_write = hw_write E me\<rparr>"

end
