(* ===== verification/CliSpec.thy ===== *)
theory CliSpec
  imports Cli
begin

text \<open>
  The properties of \<open>Cli\<close>: what a backend owes the command line (locale \<open>cli_service\<close>), that the
  hardware backend gives it, what a command does to the bus, and that printed values read back.
\<close>

section \<open>The contract of a backend\<close>

lemma keeps_pmap_err [intro]: "keeps good m \<Longrightarrow> keeps good (pmap_err g m)"
  by (auto simp: keeps_def pmap_err_def split: run.splits sum.splits)

lemma keeps_execute_with [intro]:
  assumes "\<And>a. keeps good (f a)"
  shows "keeps good (execute_with p f)"
  unfolding execute_with_def keeps_def
  by (intro allI impI run_checks_keeps) (use assms in \<open>auto simp: keeps_def\<close>)

locale cli_service =
  fixes B :: "'s cli_backend" and good :: "'s \<Rightarrow> bool"
  assumes read_keeps [intro]: "keeps good (cb_read B t w force)"
    and write_keeps [intro]: "keeps good (cb_write B t w v force)"
begin

lemma profile_keeps:
  assumes "\<And>text. cl_file C p = Inr text \<Longrightarrow> utf8_valid text"
  shows "keeps good (cli_run_profile C B p)"
proof (cases "cl_has_profile C")
  case True
  have ex: "keeps good (pmap_err display (execute_with prof
      (\<lambda>addr. pbind (cb_read B (Address addr) WU32 True) (\<lambda>v. pret (ucast v)))))" for prof
    by blast
  obtain r where "profile_from_file p (cl_file C p) = Some r"
    by (cases "cl_file C p") (use profile_parse_total assms in \<open>auto simp: profile_from_file_def\<close>)
  with True show ?thesis
    by (cases r) (use ex in \<open>auto simp: cli_run_profile_def keeps_def pfail_def\<close>)
qed (auto simp: cli_run_profile_def)

lemma profiles_keep:
  "(\<And>p text. p \<in> set ps \<Longrightarrow> cl_file C p = Inr text \<Longrightarrow> utf8_valid text) \<Longrightarrow> keeps good (cli_profiles C B ps)"
proof (induction ps)
  case (Cons p ps)
  show ?case
    using Cons by (auto intro!: profile_keeps)
qed auto

lemma access_keeps: "keeps good (cli_access B o1 t value)"
  by (cases "value") (auto simp: cli_access_def)

lemma run_keeps:
  assumes "args \<noteq> []" "\<And>p text. cl_file C p = Inr text \<Longrightarrow> utf8_valid text"
  shows "keeps good (run_cli C B args)"
proof -
  obtain prog rest where "args = prog # rest"
    using assms(1) by (cases args) auto
  moreover have "keeps good (pbind (cli_profiles C B ps) (\<lambda>_. cli_access B o1 t v))" for ps o1 t v
    by (intro keeps_pbind profiles_keep access_keeps assms(2))
  then have "keeps good (pbind (plift (cli_options rest cli_defaults)) (\<lambda>o1. pbind (plift (cli_operands o1))
      (\<lambda>(t, v). pbind (cli_profiles C B (co_validate o1)) (\<lambda>_. cli_access B o1 t v))))"
    by (intro keeps_pbind) (auto split: prod.split)
  ultimately show ?thesis
    by (auto simp: run_cli_def)
qed

end

section \<open>The hardware backend\<close>

lemma write_body_frame:
  "write_body E off w v (M, d) = Done (x, (M', d')) \<Longrightarrow> mc_fs M' = mc_fs M \<and> dv_pm_guard d' = dv_pm_guard d"
  by (auto simp: write_body_def backend_write_def split: run.splits backend.splits)

lemma device_read_frame:
  "device_read E me off w (M, d) = Done (r, (M', d')) \<Longrightarrow> mc_fs M' = mc_fs M \<and> dv_pm_guard d' = dv_pm_guard d"
  unfolding device_read_def by (erule device_access_frame) (auto dest: backend_read_frame)

lemma device_write_frame:
  "device_write E me off w v (M, d) = Done (r, (M', d')) \<Longrightarrow> mc_fs M' = mc_fs M \<and> dv_pm_guard d' = dv_pm_guard d"
  unfolding device_write_def by (erule device_access_frame) (auto dest: write_body_frame)

definition locks_kept :: "('h, 'm) env \<Rightarrow> nat list \<Rightarrow> holder_map \<Rightarrow> 'h machine \<Rightarrow> bool" where
  "locks_kept E hs V M \<longleftrightarrow> is_page_size (page_size (ev_kernel E)) \<and> locks_ok hs (mc_locks M)
     \<and> holdings (mc_locks M) = V"

lemma with_target_keeps:
  fixes act :: "u32 \<Rightarrow> (mmreg_error, ('h, 'm) world, 'a) prog"
  assumes bal: "\<And>off M d. dev_mapped E (\<lambda>_. False) (\<lambda>_ _. False) (M, d) \<Longrightarrow> world_ok hs (M, d)
      \<Longrightarrow> balanced hs (M, d) (act off (M, d))"
    and frame: "\<And>off M M' d d' r. act off (M, d) = Done (r, (M', d'))
      \<Longrightarrow> mc_fs M' = mc_fs M \<and> dv_pm_guard d' = dv_pm_guard d"
  shows "keeps (locks_kept E hs V) (with_target E t w ro force act)"
proof -
  have dev: "keeps (locks_kept E hs V) (with_device E b (act off))" if c: "bd_custom b = None" for b off
    unfolding keeps_def
  proof (intro allI impI)
    fix M
    assume "locks_kept E hs V M"
    then have M: "is_page_size (page_size (ev_kernel E))" "locks_ok hs (mc_locks M)" "holdings (mc_locks M) = V"
      by (simp_all add: locks_kept_def)
    have fr: "mc_fs M2 = mc_fs M1 \<and> dv_pm_guard d2 = dv_pm_guard d \<and> True"
      if "open_window E b M = Done (Inr d, M1)" "act off (M1, d) = Done (r, (M2, d2))" for M1 M2 d d2 r
      using frame [OF that(2)] by simp
    have "with_device E b (act off) M \<noteq> Panics"
      by (rule with_device_restores(1) [where P = "\<lambda>_ _ _. True", OF M(1) c M(2) bal fr TrueI])
    moreover have "machine_restored hs M M' \<and> True" if r: "with_device E b (act off) M = Done (r, M')" for r M'
      by (rule with_device_restores(2) [where P = "\<lambda>_ _ _. True", OF M(1) c M(2) bal fr TrueI r])
    ultimately show "with_device E b (act off) M \<noteq> Panics
        \<and> (\<forall>r M'. with_device E b (act off) M = Done (r, M') \<longrightarrow> locks_kept E hs V M')"
      using M(1,3) unfolding machine_restored_def locks_kept_def by blast
  qed
  show ?thesis
    by (auto simp: with_target_def with_force_def with_read_only_def builder_new_def
        intro!: dev split: cli_target.split)
qed

interpretation hardware: cli_service "hw_backend E me" "locks_kept E hs V" for E me hs V
proof unfold_locales
  show "keeps (locks_kept E hs V) (cb_read (hw_backend E me) t w force)" for t w force
    by (simp add: hw_backend_def hw_read_def with_target_keeps read_balanced [OF no_mapper] device_read_frame)
  show "keeps (locks_kept E hs V) (cb_write (hw_backend E me) t w v force)" for t w v force
    by (simp add: hw_backend_def hw_write_def with_target_keeps write_balanced [OF no_mapper] device_write_frame)
qed

text \<open>
  C28: a command of the tool never panics, whatever its arguments, as long as the profile files are
  in UTF-8; when it returns, with a text or an error, every lock of the process is held by whom it
  was before, also when profiles were checked and several devices opened.
\<close>

theorem cli_safe:
  assumes "is_page_size (page_size (ev_kernel E))" "locks_ok hs (mc_locks M)" "args \<noteq> []"
    and "\<And>p text. cl_file C p = Inr text \<Longrightarrow> utf8_valid text"
  shows "case run_cli C (hw_backend E me) args M of
      Done (_, M') \<Rightarrow> locks_ok hs (mc_locks M') \<and> holdings (mc_locks M') = holdings (mc_locks M)
    | Blocks \<Rightarrow> True
    | Panics \<Rightarrow> False"
proof -
  have "keeps (locks_kept E hs (holdings (mc_locks M))) (run_cli C (hw_backend E me) args)"
    by (rule hardware.run_keeps [OF assms(3,4)])
  moreover have "locks_kept E hs (holdings (mc_locks M)) M"
    using assms(1,2) by (simp add: locks_kept_def)
  ultimately have "run_cli C (hw_backend E me) args M \<noteq> Panics"
    and kept: "\<And>r M'. run_cli C (hw_backend E me) args M = Done (r, M')
      \<Longrightarrow> locks_kept E hs (holdings (mc_locks M)) M'"
    unfolding keeps_def by blast+
  then show ?thesis
    by (cases "run_cli C (hw_backend E me) args M") (auto simp only: locks_kept_def run.case prod.case
        split: prod.split dest: kept)
qed

section \<open>What a command does\<close>

text \<open>Without a profile the options that were read left no request for help.\<close>

lemma u32_parse_dash: "u32_parse (CHR ''-'' # s) = None"
  by (simp add: u32_parse_def from_str_radix_def starts_with_def to_digit_def byte_def)

lemma parse_width_help:
  assumes "parse_width p = Inr w"
  shows "p \<notin> {''-h'', ''--help'', ''-V'', ''--version''}"
proof
  assume p: "p \<in> {''-h'', ''--help'', ''-V'', ''--version''}"
  then have "\<forall>c\<in>set p. is_graph c"
    by (auto simp: is_graph_def byte_def)
  then have "str_trim p = p"
    by (rule str_trim_graph)
  moreover obtain s where "p = CHR ''-'' # s"
    using p by blast
  ultimately show False
    using assms by (simp add: parse_width_def u32_parse_dash)
qed

lemma cli_options_ConsE:
  assumes "cli_options (a # xs) o1 = Inr o2"
  obtains (force) "a = ''-f'' \<or> a = ''--force''" "cli_options xs (o1\<lparr>co_force := True\<rparr>) = Inr o2"
    | (dec) "a = ''-d'' \<or> a = ''--dec''" "cli_options xs (o1\<lparr>co_radix := 10\<rparr>) = Inr o2"
    | (profile) p ys where "xs = p # ys" "cli_options ys (o1\<lparr>co_validate := co_validate o1 @ [p]\<rparr>) = Inr o2"
    | (width) p ys w where "a = ''-w'' \<or> a = ''--width''" "xs = p # ys" "parse_width p = Inr w"
        "cli_options ys (o1\<lparr>co_width := w\<rparr>) = Inr o2"
    | (positional) "\<not> starts_with a ''-''"
        "cli_options xs (o1\<lparr>co_positionals := co_positionals o1 @ [a]\<rparr>) = Inr o2"
proof -
  let ?f = "a = ''-f'' \<or> a = ''--force''" and ?d = "a = ''-d'' \<or> a = ''--dec''"
  let ?v = "a = ''-v'' \<or> a = ''--validate''" and ?w = "a = ''-w'' \<or> a = ''--width''"
  note eq = assms [unfolded cli_options.simps]
  show ?thesis
  proof (cases ?f)
    case True
    with eq show ?thesis by (intro force) simp_all
  next
    case f: False
    show ?thesis
    proof (cases ?d)
      case True
      with eq f show ?thesis by (intro dec) (simp_all only: if_True if_False)
    next
      case d: False
      show ?thesis
      proof (cases ?v)
        case True
        with eq f d obtain p ys where "xs = p # ys"
          by (cases xs) (simp_all only: if_True if_False list.case Inl_Inr_False)
        with eq f d True show ?thesis
          by (intro profile) (simp_all only: if_True if_False list.case)
      next
        case v: False
        show ?thesis
        proof (cases ?w)
          case True
          with eq f d v obtain p ys where xs: "xs = p # ys"
            by (cases xs) (simp_all only: if_True if_False list.case Inl_Inr_False)
          with eq f d v True have "rbind (parse_width p) (\<lambda>w. cli_options ys (o1\<lparr>co_width := w\<rparr>)) = Inr o2"
            by (simp only: if_True if_False list.case)
          then obtain w where "parse_width p = Inr w" "cli_options ys (o1\<lparr>co_width := w\<rparr>) = Inr o2"
            unfolding rbind_Inr_iff by blast
          with True xs show ?thesis by (intro width)
        next
          case False
          with eq f d v have "(if starts_with a ''-'' then Inl (usage_error (''[E_CLI_UNKNOWN_OPT] Unknown option: '' @ a))
              else cli_options xs (o1\<lparr>co_positionals := co_positionals o1 @ [a]\<rparr>)) = Inr o2"
            by (simp only: if_False)
          then show ?thesis
            by (intro positional) (simp_all split: if_splits)
        qed
      qed
    qed
  qed
qed

lemma cli_options_validate: "cli_options xs o1 = Inr o2 \<Longrightarrow> length (co_validate o1) \<le> length (co_validate o2)"
proof (induction xs arbitrary: o1 rule: length_induct)
  case (1 xs)
  show ?case
  proof (cases xs)
    case (Cons a ys)
    note ih = 1(1) [rule_format]
    from 1(2) [unfolded Cons] show ?thesis
    proof (cases rule: cli_options_ConsE)
      case (profile p zs)
      with ih [OF _ profile(2)] Cons show ?thesis by simp
    next
      case (width p zs w)
      with ih [OF _ width(4)] Cons show ?thesis by simp
    qed (use ih Cons in \<open>fastforce\<close>)+
  qed (use 1(2) in simp)
qed

lemma cli_options_no_help:
  "cli_options xs o1 = Inr o2 \<Longrightarrow> co_validate o2 = []
    \<Longrightarrow> \<forall>a\<in>set xs. a \<notin> {''-h'', ''--help'', ''-V'', ''--version''}"
proof (induction xs arbitrary: o1 rule: length_induct)
  case (1 xs)
  show ?case
  proof (cases xs)
    case (Cons a ys)
    note ih = 1(1) [rule_format, OF _ _ 1(3)]
    from 1(2) [unfolded Cons] show ?thesis
    proof (cases rule: cli_options_ConsE)
      case force
      with ih [OF _ force(2)] Cons show ?thesis by auto
    next
      case dec
      with ih [OF _ dec(2)] Cons show ?thesis by auto
    next
      case (profile p zs)
      with cli_options_validate [OF profile(2)] 1(3) show ?thesis by simp
    next
      case (width p zs w)
      with ih [OF _ width(4)] parse_width_help [OF width(3)] Cons show ?thesis by auto
    next
      case positional
      then have "a \<notin> {''-h'', ''--help'', ''-V'', ''--version''}"
        by (auto simp: starts_with_def)
      with ih [OF _ positional(2)] Cons show ?thesis by auto
    qed
  qed simp
qed

lemma address_access:
  fixes act :: "u32 \<Rightarrow> (mmreg_error, ('h, 'm) world, 'a) prog"
  assumes "is_page_size (page_size (ev_kernel E))" "bus_contract (ev_kernel E) (mc_fs M)"
    and "locks_ok hs (mc_locks M)"
    and bal: "\<And>M1 d. dev_mapped E (\<lambda>_. False) (\<lambda>_ _. False) (M1, d) \<Longrightarrow> world_ok hs (M1, d)
      \<Longrightarrow> balanced hs (M1, d) (act 0 (M1, d))"
    and bus: "\<And>M1 M2 d d2 r. on_bus E d \<Longrightarrow> dv_base d = a \<Longrightarrow> act 0 (M1, d) = Done (r, (M2, d2))
      \<Longrightarrow> mc_fs M2 = mc_fs M1 \<and> dv_pm_guard d2 = dv_pm_guard d \<and> P r (mc_hw M1) (mc_hw M2)"
    and err: "\<And>e h. P (Inl e) h h"
  shows "case with_target E (Address a) w ro force act M of
      Done (r, M') \<Rightarrow> machine_restored hs M M' \<and> P r (mc_hw M) (mc_hw M')
    | Blocks \<Rightarrow> True
    | Panics \<Rightarrow> False"
proof (cases "a mod width_bytes w = 0")
  case True
  let ?b = "with_force force (with_read_only ro (builder_new (Addr a (width_bytes w)))) :: 'm builder"
  have b: "bd_custom ?b = None" "bd_spec ?b = Addr a (width_bytes w)"
    by (simp_all add: with_force_def with_read_only_def builder_new_def)
  have "with_device E ?b (act 0) M \<noteq> Panics"
    by (rule addr_device_access(1) [where P = P, OF assms(1-3) b bal bus err])
  moreover have "machine_restored hs M M' \<and> P r (mc_hw M) (mc_hw M')"
    if "with_device E ?b (act 0) M = Done (r, M')" for r M'
    by (rule addr_device_access(2) [where P = P, OF assms(1-3) b bal bus err that])
  ultimately show ?thesis
    using True by (simp add: with_target_def split: run.split prod.split)
qed (use assms(3) err in \<open>simp add: with_target_def pfail_def machine_restored_refl\<close>)

lemma hw_read_effect:
  assumes "is_page_size (page_size (ev_kernel E))" "bus_contract (ev_kernel E) (mc_fs M)"
    and "locks_ok hs (mc_locks M)"
  shows "case hw_read E me (Address a) w force M of
      Done (r, M') \<Rightarrow> machine_restored hs M M' \<and> (case r of Inl _ \<Rightarrow> mc_hw M' = mc_hw M
        | Inr x \<Rightarrow> (x, mc_hw M') = map_prod (width_cut w) id (k_rd (ev_kernel E) a w (mc_hw M)))
    | Blocks \<Rightarrow> True
    | Panics \<Rightarrow> False"
proof -
  have read: "mc_fs M2 = mc_fs M1 \<and> dv_pm_guard d2 = dv_pm_guard d \<and> (case r of Inl _ \<Rightarrow> mc_hw M2 = mc_hw M1
      | Inr x \<Rightarrow> (x, mc_hw M2) = map_prod (width_cut w) id (k_rd (ev_kernel E) a w (mc_hw M1)))"
    if "on_bus E d" "dv_base d = a" "device_read E me 0 w (M1, d) = Done (r, (M2, d2))" for M1 M2 d d2 r
    using read_on_bus [OF that(1,3)] that(2) by (simp cong: sum.case_cong)
  note e = address_access [where act = "\<lambda>off. device_read E me off w" and w = w
      and P = "\<lambda>r h h'. case r of Inl _ \<Rightarrow> h' = h
        | Inr x \<Rightarrow> (x, h') = map_prod (width_cut w) id (k_rd (ev_kernel E) a w h)", OF assms]
  show ?thesis
    unfolding hw_read_def
    by (rule e) (simp_all add: read_balanced [OF no_mapper] read)
qed

lemma hw_write_effect:
  assumes "is_page_size (page_size (ev_kernel E))" "bus_contract (ev_kernel E) (mc_fs M)"
    and "locks_ok hs (mc_locks M)"
  shows "case hw_write E me (Address a) w x force M of
      Done (r, M') \<Rightarrow> machine_restored hs M M' \<and> mc_hw M' = (case r of Inl _ \<Rightarrow> mc_hw M
        | Inr _ \<Rightarrow> k_wr (ev_kernel E) a w (width_cut w x) (mc_hw M))
    | Blocks \<Rightarrow> True
    | Panics \<Rightarrow> False"
proof -
  have wrote: "mc_fs M2 = mc_fs M1 \<and> dv_pm_guard d2 = dv_pm_guard d \<and> mc_hw M2 = (case r of Inl _ \<Rightarrow> mc_hw M1
      | Inr _ \<Rightarrow> k_wr (ev_kernel E) a w (width_cut w x) (mc_hw M1))"
    if "on_bus E d" "dv_base d = a" "device_write E me 0 w x (M1, d) = Done (r, (M2, d2))" for M1 M2 d d2 r
    using write_on_bus [OF that(1,3)] that(2) by (simp cong: sum.case_cong)
  show ?thesis
    unfolding hw_write_def
    by (rule address_access [where P = "\<lambda>r h h'. h' = (case r of Inl _ \<Rightarrow> h
        | Inr _ \<Rightarrow> k_wr (ev_kernel E) a w (width_cut w x) h)", OF assms])
      (simp_all add: write_balanced [OF no_mapper] wrote)
qed


section \<open>Printed values\<close>

text \<open>
  C29: a value printed by the tool and given back to it as the value to write, at the same width and
  whatever the radix of unprefixed numbers, is that value, cut to the width.
\<close>

theorem format_hex_roundtrip: "parse_value (format_hex v w) radix w = Inr (width_cut w v)"
proof -
  define n where "n = unat v mod 2 ^ (8 * unat (width_bytes w))"
  have "unat v < 2 ^ 64"
    using unat_bound [of v] by simp
  then have bound: "n < 2 ^ 64"
    unfolding n_def by (rule order.strict_trans1 [OF mod_less_eq_dividend])
  have cut: "(of_nat n :: u64) = width_cut w v"
  proof -
    have "n = unat (width_cut w v)"
      unfolding width_cut_def unsigned_take_bit_eq by (simp add: n_def take_bit_eq_mod)
    then show ?thesis by simp
  qed
  have n: "n < 2 ^ (8 * unat (width_bytes w))"
    by (simp add: n_def)
  obtain k where "format_hex v w = ''0x'' @ fmt_hex0 k n"
    using bound \<open>unat v < 2 ^ 64\<close>
    by (cases w) (auto simp: format_hex_def n_def unsigned_ucast_eq take_bit_eq_mod intro: that)
  moreover have "fits_width w (of_nat n)"
    using n bound by (cases w) (simp_all add: fits_width_def unat_of_nat)
  ultimately show ?thesis
    using parse_prefixed_fmt [OF bound, of k radix] cut
    by (simp add: parse_value_def Let_def)
qed

section \<open>A concrete command\<close>

definition sample_args :: "string list" where
  "sample_args = [''--force'', ''write'', ''0x14'', ''0x15'']"

definition sample_cli :: cli_env where
  "sample_cli = \<lparr>cl_version = ''1.0.0'', cl_has_profile = True, cl_has_debug = True, cl_file = (\<lambda>_. Inr ''{}'')\<rparr>"

lemma sample_locks_ok: "locks_ok [0, 1] (mc_locks sample_machine)"
  using two_locks_ok two_locks_reg by (simp add: locks_ok_def sample_machine_def)

lemma sample_options: "cli_options sample_args cli_defaults = Inr (cli_defaults\<lparr>co_force := True,
    co_positionals := [''write'', ''0x14'', ''0x15'']\<rparr>)"
  by (simp add: sample_args_def cli_defaults_def starts_with_def)

lemma sample_operands: "cli_operands (cli_defaults\<lparr>co_force := True,
    co_positionals := [''write'', ''0x14'', ''0x15'']\<rparr>) = Inr (Address 0x14, Some 0x15)"
proof -
  have "''0x14'' = ''0x'' @ fmt_hex0 0 0x14" "''0x15'' = ''0x'' @ fmt_hex0 0 0x15"
    by code_simp+
  then have "parse_u64_radix ''0x14'' 16 = Inr 0x14" "parse_u64_radix ''0x15'' 16 = Inr 0x15"
    using parse_prefixed_fmt [where n = "0x14" and w = 0 and r = 16]
      parse_prefixed_fmt [where n = "0x15" and w = 0 and r = 16] by simp_all
  then show ?thesis
    by (simp add: cli_operands_def cli_defaults_def parse_address_def parse_value_def fits_width_def)
qed

theorem cli_safe_witness:
  "case run_cli sample_cli (hw_backend devmem_env 7) (''mmreg'' # sample_args) sample_machine of
      Done (_, M') \<Rightarrow> locks_ok [0, 1] (mc_locks M') \<and> holdings (mc_locks M') = holdings (mc_locks sample_machine)
    | Blocks \<Rightarrow> True
    | Panics \<Rightarrow> False"
proof -
  have "utf8_valid ''{}''"
    by code_simp
  then show ?thesis
    by (intro cli_safe [OF devmem_page_ok sample_locks_ok])
      (simp_all add: sample_cli_def del: utf8_valid.simps)
qed


end
