(* ===== verification/Capi.thy ===== *)
theory Capi
  imports DeviceBus
begin

text \<open>
  \<open>bindings/c/src/lib.rs\<close>: the C interface. Its state is the machine, the handles given out (a
  \<open>mmreg_dev *\<close> is an index, \<open>None\<close> once closed; the null pointer is \<open>None\<close>) and the last error of
  every thread. A pointer that is no open handle breaks the callers' contract, and so does its use
  here (\<open>Panics\<close>). A C string is its bytes up to the NUL. What an entry point writes through an
  \<open>out\<close> pointer is part of its result. The release build aborts on a panic, so \<open>catch_unwind\<close>
  has nothing to catch.
\<close>

section \<open>Flags\<close>

definition mmreg_o_rdonly :: u32 where "mmreg_o_rdonly = push_bit 0 1"
definition mmreg_o_force :: u32 where "mmreg_o_force = push_bit 1 1"
definition mmreg_o_mock :: u32 where "mmreg_o_mock = push_bit 2 1"

definition known_flags_mask :: u32 where
  "known_flags_mask = mmreg_o_rdonly OR mmreg_o_force OR mmreg_o_mock OR 0x0000FF00"

definition mock_max_size :: usize where
  "mock_max_size = push_bit 20 16"

section \<open>The mock mapper\<close>

text \<open>\<open>CapiMockMapper\<close>, with the byte order of \<open>to_le_bytes\<close> and \<open>from_le_bytes\<close>.\<close>

record capi_mock =
  cm_mem :: "u8 list"
  cm_mapped :: bool

definition mock_boxed :: capi_mock where
  "mock_boxed = \<lparr>cm_mem = [], cm_mapped = False\<rparr>"

definition mock_limit_label :: string where
  "mock_limit_label = ''MMREG_O_MOCK''"

definition to_le_bytes :: "u64 \<Rightarrow> u8 list" where
  "to_le_bytes v = map (\<lambda>i. ucast (drop_bit (8 * i) v)) [0..<8]"

fun from_le_bytes :: "u8 list \<Rightarrow> u64" where
  "from_le_bytes [] = 0"
| "from_le_bytes (b # bs) = ucast b OR push_bit 8 (from_le_bytes bs)"

definition mock_map :: "u64 \<Rightarrow> usize \<Rightarrow> capi_mock \<Rightarrow> (mmreg_error + unit) \<times> capi_mock" where
  "mock_map address sz m =
     (if sz > mock_max_size then (Inl (OutOfBoundsAccess mock_limit_label 0 sz mock_max_size), m)
      else (Inr (), m\<lparr>
        cm_mem := (if length (cm_mem m) < unat sz
          then cm_mem m @ replicate (unat sz - length (cm_mem m)) 0 else cm_mem m),
        cm_mapped := True\<rparr>))"

definition mock_unmap :: "capi_mock \<Rightarrow> capi_mock" where
  "mock_unmap m = m\<lparr>cm_mapped := False\<rparr>"

text \<open>\<open>mem.get(off..off.saturating_add(width.bytes()))\<close>.\<close>

definition mock_slice :: "capi_mock \<Rightarrow> u32 \<Rightarrow> width \<Rightarrow> (nat \<times> nat) option" where
  "mock_slice m off w =
     (let first = unat off; fin = unat (saturating_add (ucast off :: usize) (width_bytes w))
      in if first \<le> fin \<and> fin \<le> length (cm_mem m) then Some (first, fin) else None)"

definition mock_read :: "u32 \<Rightarrow> width \<Rightarrow> capi_mock \<Rightarrow> u64" where
  "mock_read off w m = (case mock_slice m off w of
       None \<Rightarrow> 0
     | Some (first, fin) \<Rightarrow>
         (let slice = take (fin - first) (drop first (cm_mem m))
          in from_le_bytes (if length slice \<le> 8 then slice @ replicate (8 - length slice) 0
            else replicate 8 0)))"

definition mock_write :: "u32 \<Rightarrow> width \<Rightarrow> u64 \<Rightarrow> capi_mock \<Rightarrow> capi_mock" where
  "mock_write off w v m = (case mock_slice m off w of
       None \<Rightarrow> m
     | Some (first, fin) \<Rightarrow>
         m\<lparr>cm_mem := take first (cm_mem m) @ take (unat (width_bytes w)) (to_le_bytes v)
            @ drop fin (cm_mem m)\<rparr>)"

definition mock_vt :: "capi_mock mapper_vt" where
  "mock_vt = \<lparr>vt_map = mock_map, vt_unmap = mock_unmap, vt_is_mapped = cm_mapped,
     vt_read = (\<lambda>off w m. Done (mock_read off w m, m)),
     vt_write = (\<lambda>off w v m. Done (mock_write off w v m))\<rparr>"

section \<open>State\<close>

record thread_error =
  te_code :: string
  te_message :: string

record mmreg_dev =
  md_guards :: "held list"
  md_device :: "capi_mock device"
  md_warnings :: "string list"

record 'h capi =
  ca_machine :: "'h machine"
  ca_devs :: "mmreg_dev option list"
  ca_errors :: "thread \<Rightarrow> thread_error option"

type_synonym 'h capi_env = "('h, capi_mock) env"
type_synonym cstr = "string option"
type_synonym dev_ptr = "nat option"

text \<open>The body of an entry point; an early \<open>return\<close> is its error.\<close>

type_synonym ('h, 'r, 'a) entry = "('r, 'h capi, 'a) prog"

definition get_dev :: "'h capi \<Rightarrow> nat \<Rightarrow> mmreg_dev option" where
  "get_dev s p = (if p < length (ca_devs s) then ca_devs s ! p else None)"

definition put_dev :: "nat \<Rightarrow> mmreg_dev option \<Rightarrow> 'h capi \<Rightarrow> 'h capi" where
  "put_dev p h s = s\<lparr>ca_devs := (ca_devs s)[p := h]\<rparr>"

section \<open>Errors\<close>

text \<open>\<open>CString::new\<close> fails on a NUL and the result is then empty; none is left here.\<close>

definition sanitize_c_string :: "string \<Rightarrow> string" where
  "sanitize_c_string s =
     (let bytes = map (\<lambda>b. if b = CHR 0x00 then CHR '' '' else b) s
      in if CHR 0x00 \<in> set bytes then [] else bytes)"

definition set_error :: "thread \<Rightarrow> string \<Rightarrow> string \<Rightarrow> 'h capi \<Rightarrow> 'h capi" where
  "set_error me code message s = s\<lparr>ca_errors := (ca_errors s)(me \<mapsto>
     \<lparr>te_code = sanitize_c_string code, te_message = sanitize_c_string message\<rparr>)\<rparr>"

definition set_mmreg_error :: "thread \<Rightarrow> mmreg_error \<Rightarrow> 'h capi \<Rightarrow> 'h capi" where
  "set_mmreg_error me e = set_error me (err_code e) (display e)"

text \<open>Record an error and return \<open>r\<close>.\<close>

definition c_fail :: "thread \<Rightarrow> string \<Rightarrow> string \<Rightarrow> 'r \<Rightarrow> ('h, 'r, 'a) entry" where
  "c_fail me code message r = (\<lambda>s. Done (Inl r, set_error me code message s))"

definition invalid_arg :: "thread \<Rightarrow> string \<Rightarrow> 'r \<Rightarrow> ('h, 'r, 'a) entry" where
  "invalid_arg me message r = c_fail me ''E_INVALID_ARG'' (''[E_INVALID_ARG] '' @ message) r"

text \<open>\<open>ffi_status\<close> and \<open>ffi_ptr\<close>: the value of the body, however it returned.\<close>

definition ffi :: "('h, 'r, 'r) entry \<Rightarrow> 'h capi \<Rightarrow> ('r \<times> 'h capi) run" where
  "ffi body s = (case body s of
       Done (Inl r, s') \<Rightarrow> Done (r, s') | Done (Inr r, s') \<Rightarrow> Done (r, s')
     | Blocks \<Rightarrow> Blocks | Panics \<Rightarrow> Panics)"

definition mmreg_last_error :: "thread \<Rightarrow> 'h capi \<Rightarrow> string" where
  "mmreg_last_error me s = (case ca_errors s me of Some e \<Rightarrow> te_message e | None \<Rightarrow> [])"

definition mmreg_last_error_code :: "thread \<Rightarrow> 'h capi \<Rightarrow> string" where
  "mmreg_last_error_code me s = (case ca_errors s me of Some e \<Rightarrow> te_code e | None \<Rightarrow> [])"

definition mmreg_clear_error :: "thread \<Rightarrow> 'h capi \<Rightarrow> 'h capi" where
  "mmreg_clear_error me s = s\<lparr>ca_errors := (ca_errors s)(me := None)\<rparr>"

section \<open>Arguments\<close>

definition parse_flags :: "thread \<Rightarrow> u32 \<Rightarrow> 'r \<Rightarrow> ('h, 'r, bool \<times> bool \<times> bool \<times> usize) entry" where
  "parse_flags me flags r =
     (if flags AND NOT known_flags_mask \<noteq> 0 then
        invalid_arg me (''Unknown flag bits in 0x'' @ fmt_hex0 8 (unat flags)
          @ ''. Remediation: Use MMREG_O_RDONLY, MMREG_O_FORCE, MMREG_O_MOCK, and MMREG_REGION(n).'') r
      else
        (let read_only = flags AND mmreg_o_rdonly \<noteq> 0;
             force = flags AND mmreg_o_force \<noteq> 0;
             mock = flags AND mmreg_o_mock \<noteq> 0;
             region_index = ucast (drop_bit 8 flags AND 0xFF)
         in if mock \<and> \<not> force then invalid_arg me ''MMREG_O_MOCK requires MMREG_O_FORCE.'' r
            else pret (read_only, force, mock, region_index)))"

definition cstr_to_str :: "thread \<Rightarrow> cstr \<Rightarrow> string \<Rightarrow> 'r \<Rightarrow> ('h, 'r, string) entry" where
  "cstr_to_str me ptr label r = (case ptr of
       None \<Rightarrow> invalid_arg me (''NULL '' @ sq label @ '' pointer passed to mmreg.'') r
     | Some t \<Rightarrow> if utf8_valid t then pret t
         else invalid_arg me (''Parameter '' @ sq label @ '' is not valid UTF-8.'') r)"

definition ref_dev :: "thread \<Rightarrow> dev_ptr \<Rightarrow> 'r \<Rightarrow> ('h, 'r, nat) entry" where
  "ref_dev me dev r = (case dev of
       None \<Rightarrow> invalid_arg me ''NULL mmreg_dev pointer passed to mmreg.'' r
     | Some p \<Rightarrow> pret p)"

text \<open>A method of the device behind the handle \<open>p\<close>; an error is recorded and \<open>r\<close> returned.\<close>

definition device_call ::
  "thread \<Rightarrow> nat \<Rightarrow> (mmreg_error, ('h, capi_mock) world, 'a) prog \<Rightarrow> 'r \<Rightarrow> ('h, 'r, 'a) entry"
where
  "device_call me p act r s = (case get_dev s p of
       None \<Rightarrow> Panics
     | Some h \<Rightarrow> (case act (ca_machine s, md_device h) of
         Done (x, (M, d)) \<Rightarrow>
           (let s' = put_dev p (Some (h\<lparr>md_device := d\<rparr>)) (s\<lparr>ca_machine := M\<rparr>)
            in case x of
                 Inl e \<Rightarrow> Done (Inl r, set_mmreg_error me e s')
               | Inr v \<Rightarrow> Done (Inr v, s'))
       | Blocks \<Rightarrow> Blocks
       | Panics \<Rightarrow> Panics))"

section \<open>Opening and closing\<close>

definition mmreg_dev_new :: "capi_mock device \<Rightarrow> mmreg_dev" where
  "mmreg_dev_new d = \<lparr>md_guards = [], md_device = d, md_warnings = map sanitize_c_string (dv_warnings d)\<rparr>"

text \<open>\<open>Box::into_raw\<close>: a pointer that was never given out before.\<close>

definition into_raw :: "mmreg_dev \<Rightarrow> 'h machine \<Rightarrow> 'h capi \<Rightarrow> nat \<times> 'h capi" where
  "into_raw h M s = (length (ca_devs s), s\<lparr>ca_machine := M, ca_devs := ca_devs s @ [Some h]\<rparr>)"

definition mock_limit_message :: "usize \<Rightarrow> string" where
  "mock_limit_message access_size = ''MMREG_O_MOCK window of '' @ dec_w access_size
     @ '' bytes exceeds the '' @ dec_w mock_max_size @ ''-byte limit.''"

definition capi_builder ::
  "capi_mock builder \<Rightarrow> bool \<times> bool \<times> bool \<times> usize \<Rightarrow> capi_mock builder"
where
  "capi_builder b = (\<lambda>(read_only, force, mock, region_index).
     (let b1 = with_force force (with_read_only read_only (with_region region_index b))
      in if mock then with_custom_mapper mock_boxed b1 else b1))"

text \<open>The match on the result of \<open>open\<close>.\<close>

definition open_failed :: "thread \<Rightarrow> bool \<Rightarrow> mmreg_error \<Rightarrow> ('h, dev_ptr, dev_ptr) entry" where
  "open_failed me mock e = (case e of
       OutOfBoundsAccess label _ access_size _ \<Rightarrow>
         if mock \<and> label = mock_limit_label then invalid_arg me (mock_limit_message access_size) None
         else (\<lambda>s. Done (Inr None, set_mmreg_error me e s))
     | _ \<Rightarrow> (\<lambda>s. Done (Inr None, set_mmreg_error me e s)))"

definition open_result ::
  "thread \<Rightarrow> bool \<Rightarrow> ((mmreg_error + capi_mock device) \<times> 'h machine) run \<Rightarrow> ('h, dev_ptr, dev_ptr) entry"
where
  "open_result me mock res s = (case res of
       Done (Inr d, M) \<Rightarrow> (case into_raw (mmreg_dev_new d) M s of (p, s') \<Rightarrow> Done (Inr (Some p), s'))
     | Done (Inl e, M) \<Rightarrow> open_failed me mock e (s\<lparr>ca_machine := M\<rparr>)
     | Blocks \<Rightarrow> Blocks
     | Panics \<Rightarrow> Panics)"

definition open_with_builder ::
  "'h capi_env \<Rightarrow> thread \<Rightarrow> capi_mock builder \<Rightarrow> u32 \<Rightarrow> bool \<Rightarrow> ('h, dev_ptr, dev_ptr) entry"
where
  "open_with_builder E me b flags allow_region =
     pbind (parse_flags me flags None) (\<lambda>(read_only, force, mock, region_index).
       if \<not> allow_region \<and> region_index \<noteq> 0 then
         invalid_arg me ''MMREG_REGION(n) is only valid with mmreg_open_uio / mmreg_open_uio_path.'' None
       else (\<lambda>s. open_result me mock
         (device_open E me (capi_builder b (read_only, force, mock, region_index)) (ca_machine s)) s))"

definition mmreg_open_uio ::
  "'h capi_env \<Rightarrow> thread \<Rightarrow> cstr \<Rightarrow> u32 \<Rightarrow> 'h capi \<Rightarrow> (dev_ptr \<times> 'h capi) run"
where
  "mmreg_open_uio E me nm flags = ffi (pbind (cstr_to_str me nm ''name'' None)
     (\<lambda>n. open_with_builder E me (builder_new (UioName n)) flags True))"

definition mmreg_open_uio_path ::
  "'h capi_env \<Rightarrow> thread \<Rightarrow> cstr \<Rightarrow> u32 \<Rightarrow> 'h capi \<Rightarrow> (dev_ptr \<times> 'h capi) run"
where
  "mmreg_open_uio_path E me p flags = ffi (pbind (cstr_to_str me p ''path'' None)
     (\<lambda>n. open_with_builder E me (builder_new (UioPath n)) flags True))"

definition mmreg_open_addr ::
  "'h capi_env \<Rightarrow> thread \<Rightarrow> u64 \<Rightarrow> usize \<Rightarrow> u32 \<Rightarrow> 'h capi \<Rightarrow> (dev_ptr \<times> 'h capi) run"
where
  "mmreg_open_addr E me base sz flags = ffi (open_with_builder E me (builder_new (Addr base sz)) flags False)"

text \<open>\<open>mmreg_close\<close>: the guards go first, in their order, then the device.\<close>

fun drop_guards :: "held list \<Rightarrow> lock_heap \<Rightarrow> lock_heap run" where
  "drop_guards [] L = Done L"
| "drop_guards (g # gs) L = (case guard_drop g L of
       Done L' \<Rightarrow> drop_guards gs L' | Blocks \<Rightarrow> Blocks | Panics \<Rightarrow> Panics)"

definition mmreg_close :: "dev_ptr \<Rightarrow> 'h capi \<Rightarrow> (unit \<times> 'h capi) run" where
  "mmreg_close dev s = (case dev of
       None \<Rightarrow> Done ((), s)
     | Some p \<Rightarrow> (case get_dev s p of
         None \<Rightarrow> Panics
       | Some h \<Rightarrow> (case drop_guards (md_guards h) (mc_locks (ca_machine s)) of
           Done L \<Rightarrow> Done ((), put_dev p None
             (s\<lparr>ca_machine := device_drop ((ca_machine s)\<lparr>mc_locks := L\<rparr>, md_device h)\<rparr>))
         | Blocks \<Rightarrow> Blocks
         | Panics \<Rightarrow> Panics)))"

text \<open>The path is what is copied to the buffer, before the NUL.\<close>

definition mmreg_find_uio ::
  "thread \<Rightarrow> cstr \<Rightarrow> bool \<Rightarrow> usize \<Rightarrow> 'h capi \<Rightarrow> ((int \<times> string option) \<times> 'h capi) run"
where
  "mmreg_find_uio me nm buf_null len = ffi (pbind (cstr_to_str me nm ''name'' (-1, None)) (\<lambda>n.
     if buf_null then invalid_arg me ''NULL 'buf' pointer passed to mmreg_find_uio.'' (-1, None)
     else (\<lambda>s. case find_uio (mc_fs (ca_machine s)) n of
         Inr p \<Rightarrow>
           (let needed = saturating_add (of_nat (length p)) 1 :: usize
            in if needed > len then
                 c_fail me ''E_BUFFER_TOO_SMALL'' (''[E_BUFFER_TOO_SMALL] Buffer of '' @ dec_w len
                   @ '' bytes is too small for UIO path '' @ sq p @ '' ('' @ dec_w needed @ '' bytes needed).'')
                   (-1, None) s
               else Done (Inr (0, Some p), s))
       | Inl e \<Rightarrow> Done (Inr (-1, None), set_mmreg_error me e s))))"

section \<open>Accesses\<close>

text \<open>The macros \<open>impl_c_read\<close> and \<open>impl_c_write\<close> over the method of the device.\<close>

definition impl_c_read ::
  "thread \<Rightarrow> (u32 \<Rightarrow> (mmreg_error, ('h, capi_mock) world, 'v) prog) \<Rightarrow> dev_ptr \<Rightarrow> u32 \<Rightarrow> bool
    \<Rightarrow> 'h capi \<Rightarrow> ((int \<times> 'v option) \<times> 'h capi) run"
where
  "impl_c_read me meth dev off out_null = ffi (pbind (ref_dev me dev (-1, None)) (\<lambda>p.
     if out_null then invalid_arg me ''NULL 'out' pointer passed to mmreg_rd*.'' (-1, None)
     else pbind (device_call me p (meth off) (-1, None)) (\<lambda>v. pret (0, Some v))))"

definition impl_c_write ::
  "thread \<Rightarrow> (u32 \<Rightarrow> 'v \<Rightarrow> (mmreg_error, ('h, capi_mock) world, unit) prog) \<Rightarrow> dev_ptr \<Rightarrow> u32 \<Rightarrow> 'v
    \<Rightarrow> 'h capi \<Rightarrow> (int \<times> 'h capi) run"
where
  "impl_c_write me meth dev off v = ffi (pbind (ref_dev me dev (-1)) (\<lambda>p.
     pbind (device_call me p (meth off v) (-1)) (\<lambda>_. pret 0)))"

definition mmreg_rd8 :: "'h capi_env \<Rightarrow> thread \<Rightarrow> dev_ptr \<Rightarrow> u32 \<Rightarrow> bool \<Rightarrow> 'h capi \<Rightarrow> ((int \<times> u8 option) \<times> 'h capi) run" where
  "mmreg_rd8 E me = impl_c_read me (read_u8 E me)"

definition mmreg_rd16 :: "'h capi_env \<Rightarrow> thread \<Rightarrow> dev_ptr \<Rightarrow> u32 \<Rightarrow> bool \<Rightarrow> 'h capi \<Rightarrow> ((int \<times> u16 option) \<times> 'h capi) run" where
  "mmreg_rd16 E me = impl_c_read me (read_u16 E me)"

definition mmreg_rd32 :: "'h capi_env \<Rightarrow> thread \<Rightarrow> dev_ptr \<Rightarrow> u32 \<Rightarrow> bool \<Rightarrow> 'h capi \<Rightarrow> ((int \<times> u32 option) \<times> 'h capi) run" where
  "mmreg_rd32 E me = impl_c_read me (read_u32 E me)"

definition mmreg_rd64 :: "'h capi_env \<Rightarrow> thread \<Rightarrow> dev_ptr \<Rightarrow> u32 \<Rightarrow> bool \<Rightarrow> 'h capi \<Rightarrow> ((int \<times> u64 option) \<times> 'h capi) run" where
  "mmreg_rd64 E me = impl_c_read me (read_u64 E me)"

definition mmreg_wr8 :: "'h capi_env \<Rightarrow> thread \<Rightarrow> dev_ptr \<Rightarrow> u32 \<Rightarrow> u8 \<Rightarrow> 'h capi \<Rightarrow> (int \<times> 'h capi) run" where
  "mmreg_wr8 E me = impl_c_write me (write_u8 E me)"

definition mmreg_wr16 :: "'h capi_env \<Rightarrow> thread \<Rightarrow> dev_ptr \<Rightarrow> u32 \<Rightarrow> u16 \<Rightarrow> 'h capi \<Rightarrow> (int \<times> 'h capi) run" where
  "mmreg_wr16 E me = impl_c_write me (write_u16 E me)"

definition mmreg_wr32 :: "'h capi_env \<Rightarrow> thread \<Rightarrow> dev_ptr \<Rightarrow> u32 \<Rightarrow> u32 \<Rightarrow> 'h capi \<Rightarrow> (int \<times> 'h capi) run" where
  "mmreg_wr32 E me = impl_c_write me (write_u32 E me)"

definition mmreg_wr64 :: "'h capi_env \<Rightarrow> thread \<Rightarrow> dev_ptr \<Rightarrow> u32 \<Rightarrow> u64 \<Rightarrow> 'h capi \<Rightarrow> (int \<times> 'h capi) run" where
  "mmreg_wr64 E me = impl_c_write me (write_u64 E me)"

definition mmreg_update32 ::
  "'h capi_env \<Rightarrow> thread \<Rightarrow> dev_ptr \<Rightarrow> u32 \<Rightarrow> u32 \<Rightarrow> u32 \<Rightarrow> bool \<Rightarrow> 'h capi \<Rightarrow> ((int \<times> u32 option) \<times> 'h capi) run"
where
  "mmreg_update32 E me dev off msk v out_null = ffi (pbind (ref_dev me dev (-1, None)) (\<lambda>p.
     pbind (device_call me p (update_u32 E me off msk v) (-1, None))
       (\<lambda>updated. pret (0, if out_null then None else Some updated))))"

section \<open>Sequence locks\<close>

definition push_guard :: "nat \<Rightarrow> held \<Rightarrow> ('h, 'r, unit) entry" where
  "push_guard p g s = (case get_dev s p of
       None \<Rightarrow> Panics
     | Some h \<Rightarrow> Done (Inr (), put_dev p (Some (h\<lparr>md_guards := md_guards h @ [g]\<rparr>)) s))"

definition mmreg_lock :: "'h capi_env \<Rightarrow> thread \<Rightarrow> dev_ptr \<Rightarrow> 'h capi \<Rightarrow> (int \<times> 'h capi) run" where
  "mmreg_lock E me dev = ffi (pbind (ref_dev me dev (-1)) (\<lambda>p.
     pbind (device_call me p (device_lock E me) (-1)) (\<lambda>g.
     pbind (push_guard p g) (\<lambda>_. pret 0))))"

text \<open>The top of the stack, popped when the calling thread owns it.\<close>

definition pop_guard :: "thread \<Rightarrow> nat \<Rightarrow> ('h, int, held) entry" where
  "pop_guard me p s = (case get_dev s p of
       None \<Rightarrow> Panics
     | Some h \<Rightarrow>
         if md_guards h = [] then
           c_fail me ''E_LOCK_ACQUIRE'' ''[E_LOCK_ACQUIRE] mmreg_unlock called without a matching mmreg_lock.'' (-1) s
         else if \<not> is_owned_by_current_thread me (last (md_guards h)) (mc_locks (ca_machine s)) then
           c_fail me ''E_LOCK_ACQUIRE''
             ''[E_LOCK_ACQUIRE] mmreg_unlock called from a thread that does not hold the lock.'' (-1) s
         else Done (Inr (last (md_guards h)), put_dev p (Some (h\<lparr>md_guards := butlast (md_guards h)\<rparr>)) s))"

definition mmreg_unlock :: "thread \<Rightarrow> dev_ptr \<Rightarrow> 'h capi \<Rightarrow> (int \<times> 'h capi) run" where
  "mmreg_unlock me dev = ffi (pbind (ref_dev me dev (-1)) (\<lambda>p.
     pbind (pop_guard me p) (\<lambda>g s. case guard_drop g (mc_locks (ca_machine s)) of
         Done L \<Rightarrow> Done (Inr 0, s\<lparr>ca_machine := (ca_machine s)\<lparr>mc_locks := L\<rparr>\<rparr>)
       | Blocks \<Rightarrow> Blocks
       | Panics \<Rightarrow> Panics)))"

section \<open>Interrupts\<close>

text \<open>The answers of the kernel are arguments; a wait that does not end blocks.\<close>

definition irq_call ::
  "(capi_mock device \<Rightarrow> (mmreg_error + 'a) option) \<Rightarrow> (mmreg_error, ('h, capi_mock) world, 'a) prog"
where
  "irq_call f = (\<lambda>(M, d). case f d of Some r \<Rightarrow> Done (r, (M, d)) | None \<Rightarrow> Blocks)"

definition mmreg_irq_unmask ::
  "thread \<Rightarrow> dev_ptr \<Rightarrow> (io_error + nat) list \<Rightarrow> 'h capi \<Rightarrow> (int \<times> 'h capi) run"
where
  "mmreg_irq_unmask me dev answers = ffi (pbind (ref_dev me dev (-1)) (\<lambda>p.
     pbind (device_call me p (irq_call (\<lambda>d. device_irq_unmask d answers)) (-1)) (\<lambda>_. pret 0)))"

text \<open>Durations are in nanoseconds.\<close>

definition irq_timeout :: "u64 \<Rightarrow> nat" where
  "irq_timeout timeout_ms =
     (if timeout_ms = - 1 then (2 ^ 64 - 1) * 10 ^ 9 + 999999999 else unat timeout_ms * 10 ^ 6)"

definition mmreg_irq_wait ::
  "thread \<Rightarrow> dev_ptr \<Rightarrow> u64 \<Rightarrow> bool \<Rightarrow> nat \<Rightarrow> poll_turn list \<Rightarrow> (io_error + string) list
    \<Rightarrow> 'h capi \<Rightarrow> ((int \<times> u32 option) \<times> 'h capi) run"
where
  "mmreg_irq_wait me dev timeout_ms out_null start turns reads = ffi (pbind (ref_dev me dev (-1, None)) (\<lambda>p.
     pbind (device_call me p (irq_call (\<lambda>d. device_irq_wait d start (irq_timeout timeout_ms) turns reads)) (-1, None))
       (\<lambda>r. case r of
           Some n \<Rightarrow> pret (1, if out_null then None else Some n)
         | None \<Rightarrow> pret (0, None))))"

section \<open>Getters\<close>

definition dev_get :: "(mmreg_dev \<Rightarrow> 'a) \<Rightarrow> 'a \<Rightarrow> dev_ptr \<Rightarrow> 'h capi \<Rightarrow> ('a \<times> 'h capi) run" where
  "dev_get f none dev s = (case dev of
       None \<Rightarrow> Done (none, s)
     | Some p \<Rightarrow> (case get_dev s p of None \<Rightarrow> Panics | Some h \<Rightarrow> Done (f h, s)))"

definition mmreg_base_address :: "dev_ptr \<Rightarrow> 'h capi \<Rightarrow> (u64 \<times> 'h capi) run" where
  "mmreg_base_address = dev_get (\<lambda>h. dv_base (md_device h)) 0"

definition mmreg_size :: "dev_ptr \<Rightarrow> 'h capi \<Rightarrow> (usize \<times> 'h capi) run" where
  "mmreg_size = dev_get (\<lambda>h. dv_size (md_device h)) 0"

definition mmreg_warning_count :: "dev_ptr \<Rightarrow> 'h capi \<Rightarrow> (nat \<times> 'h capi) run" where
  "mmreg_warning_count = dev_get (\<lambda>h. length (md_warnings h)) 0"

definition mmreg_warning :: "dev_ptr \<Rightarrow> usize \<Rightarrow> 'h capi \<Rightarrow> (cstr \<times> 'h capi) run" where
  "mmreg_warning dev index = dev_get (\<lambda>h. if unat index < length (md_warnings h)
     then Some (md_warnings h ! unat index) else None) None dev"

end
