(* ===== verification/MockSpec.thy ===== *)
theory MockSpec
  imports Capi
begin

text \<open>
  The mock mapper of the C interface provides the trait \<open>MemoryMapper\<close>, and its registers behave like
  memory: little-endian, each access as wide as asked for.
\<close>

section \<open>Bytes\<close>

lemma bit_from_le_bytes:
  "bit (from_le_bytes bs) i \<longleftrightarrow> i < 64 \<and> i div 8 < length bs \<and> bit (bs ! (i div 8)) (i mod 8)"
proof (induction bs arbitrary: i)
  case (Cons b bs)
  show ?case
  proof (cases "i < 8")
    case True
    then show ?thesis
      by (simp add: bit_simps)
  next
    case False
    then obtain j where j: "i = j + 8"
      by (metis add.commute le_Suc_ex not_less)
    then have "i div 8 = Suc (j div 8)" "i mod 8 = j mod 8"
      by simp_all
    moreover have "\<not> bit b i"
      using False bit_imp_le_length [of b i] by auto
    ultimately show ?thesis
      using Cons.IH [of j] j by (auto simp: bit_simps)
  qed
qed simp

lemma length_to_le_bytes [simp]: "length (to_le_bytes v) = 8"
  by (simp add: to_le_bytes_def)

lemma bit_to_le_bytes: "j < 8 \<Longrightarrow> bit (to_le_bytes v ! j) k \<longleftrightarrow> k < 8 \<and> bit v (8 * j + k)"
  by (simp add: to_le_bytes_def bit_simps)

lemma bit_place:
  fixes i :: nat
  assumes "i < 64"
  obtains j r where "i div 8 = j" "i mod 8 = r" "i = 8 * j + r" "j < 8" "r < 8"
  using assms by (intro that [of "i div 8" "i mod 8"]) simp_all

lemma le_bytes_cut:
  assumes "n \<le> 8"
  shows "from_le_bytes (take n (to_le_bytes v) @ replicate (8 - n) 0) = take_bit (8 * n) v"
proof (rule bit_word_eqI)
  fix i
  assume "i < LENGTH(64)"
  then obtain j r where i: "i div 8 = j" "i mod 8 = r" "i = 8 * j + r" "j < 8" "r < 8"
    using bit_place [of i] by auto
  have "i < 8 * n \<longleftrightarrow> j < n"
    using i(3,5) by linarith
  then show "bit (from_le_bytes (take n (to_le_bytes v) @ replicate (8 - n) 0)) i = bit (take_bit (8 * n) v) i"
    using i assms unfolding bit_from_le_bytes i(1,2) bit_take_bit_iff
    by (auto simp: nth_append bit_to_le_bytes)
qed

lemma take_to_le_bytes_cut:
  assumes "n \<le> 8"
  shows "take n (to_le_bytes (take_bit (8 * n) v)) = take n (to_le_bytes v)"
proof (rule nth_equalityI)
  fix j
  assume "j < length (take n (to_le_bytes (take_bit (8 * n) v)))"
  then have j: "j < n" "j < 8"
    using assms by simp_all
  then have "bit (to_le_bytes (take_bit (8 * n) v) ! j) k = bit (to_le_bytes v ! j) k" for k
    by (auto simp: bit_to_le_bytes bit_take_bit_iff)
  with j show "take n (to_le_bytes (take_bit (8 * n) v)) ! j = take n (to_le_bytes v) ! j"
    by (simp add: bit_eq_iff)
qed simp

section \<open>Slices\<close>

lemma width_bytes_le: "unat (width_bytes w) \<le> 8"
  by (cases w) auto

lemma mock_slice_eq:
  "mock_slice m off w = (if unat off + unat (width_bytes w) \<le> length (cm_mem m)
     then Some (unat off, unat off + unat (width_bytes w)) else None)"
proof -
  have "unat off < 2 ^ 32"
    using unat_bound [of off] by simp
  then have "unat off + unat (width_bytes w) < 2 ^ 64"
    using width_bytes_le [of w] by simp
  then have "unat (saturating_add (ucast off :: usize) (width_bytes w)) = unat off + unat (width_bytes w)"
    by (simp add: unat_saturating_add)
  then show ?thesis
    by (simp add: mock_slice_def Let_def)
qed

lemma mock_read_eq:
  "mock_read off w m = (if unat off + unat (width_bytes w) \<le> length (cm_mem m)
     then from_le_bytes (take (unat (width_bytes w)) (drop (unat off) (cm_mem m))
       @ replicate (8 - unat (width_bytes w)) 0) else 0)"
proof (cases "unat off + unat (width_bytes w) \<le> length (cm_mem m)")
  case True
  then have "length (take (unat (width_bytes w)) (drop (unat off) (cm_mem m))) = unat (width_bytes w)"
    by simp
  with True width_bytes_le [of w] show ?thesis
    by (simp only: mock_read_def mock_slice_eq if_True option.case prod.case Let_def add_diff_cancel_left')
qed (simp add: mock_read_def mock_slice_eq)

lemma mock_write_eq:
  "mock_write off w v m = (if unat off + unat (width_bytes w) \<le> length (cm_mem m)
     then m\<lparr>cm_mem := take (unat off) (cm_mem m) @ take (unat (width_bytes w)) (to_le_bytes v)
       @ drop (unat off + unat (width_bytes w)) (cm_mem m)\<rparr> else m)"
  by (simp add: mock_write_def mock_slice_eq)

lemma mock_write_mem [simp]:
  "length (cm_mem (mock_write off w v m)) = length (cm_mem m)" "cm_mapped (mock_write off w v m) = cm_mapped m"
  using width_bytes_le [of w] by (simp_all add: mock_write_eq)

lemma mock_read_cut: "mock_read off w m = width_cut w (mock_read off w m)"
proof -
  let ?n = "unat (width_bytes w)"
  have "take_bit (8 * ?n) (from_le_bytes (bs @ replicate (8 - ?n) 0)) = from_le_bytes (bs @ replicate (8 - ?n) 0)"
    if len: "length bs = ?n" for bs
  proof (rule bit_word_eqI)
    fix i
    assume "i < LENGTH(64)"
    then obtain j r where i: "i div 8 = j" "i mod 8 = r" "i = 8 * j + r" "j < 8" "r < 8"
      using bit_place [of i] by auto
    have "i < 8 * ?n \<longleftrightarrow> j < ?n"
      using i(3,5) by linarith
    then show "bit (take_bit (8 * ?n) (from_le_bytes (bs @ replicate (8 - ?n) 0))) i
        = bit (from_le_bytes (bs @ replicate (8 - ?n) 0)) i"
      using len unfolding bit_take_bit_iff bit_from_le_bytes i(1,2) by (auto simp: nth_append)
  qed
  then show ?thesis
    by (simp add: mock_read_eq width_cut_def)
qed

section \<open>The trait\<close>

definition mock_win :: "capi_mock \<Rightarrow> u64 \<times> usize \<Rightarrow> bool" where
  "mock_win m = (\<lambda>(b, n). cm_mapped m \<and> unat n \<le> length (cm_mem m))"

interpretation mock: memory_mapper "\<lambda>_. True" mock_win mock_vt
proof unfold_locales
  fix s s' :: capi_mock and a :: u64 and n u
  assume "vt_map mock_vt a n s = (Inr u, s')"
  then have "mock_win s' (a, n)"
    by (auto simp: mock_vt_def mock_map_def mock_win_def split: if_splits)
  then show "True \<and> (\<exists>b. mock_win s' (b, n) \<and> unat b mod 8 = unat a mod 8)"
    by blast
next
  fix s :: capi_mock and off w v
  have "take (unat (width_bytes w)) (to_le_bytes (width_cut w v)) = take (unat (width_bytes w)) (to_le_bytes v)"
    unfolding width_cut_def by (rule take_to_le_bytes_cut [OF width_bytes_le])
  then show "vt_write mock_vt off w (width_cut w v) s = vt_write mock_vt off w v s"
    by (simp add: mock_vt_def mock_write_eq)
next
  fix s :: capi_mock
  have "cm_mapped s \<Longrightarrow> mock_win s (0, 0)" "mock_win s c \<Longrightarrow> cm_mapped s" for c
    by (simp_all add: mock_win_def split: prod.splits)
  then show "vt_is_mapped mock_vt s = (\<exists>c. mock_win s c)"
    unfolding mock_vt_def by (simp only: mapper_vt.simps) blast
qed (auto simp: mock_vt_def mock_win_def mock_unmap_def intro!: mock_read_cut)

lemma take_drop_write:
  assumes "o1 + n \<le> length xs" "length ys = n" "o1 + n \<le> o2 \<or> o2 + k \<le> o1"
  shows "take k (drop o2 (take o1 xs @ ys @ drop (o1 + n) xs)) = take k (drop o2 xs)"
proof -
  have n: "(take o1 xs @ ys @ drop (o1 + n) xs) ! i = xs ! i"
    if "i < length xs" "i < o1 \<or> o1 + n \<le> i" for i
    using that assms(1,2) by (auto simp: nth_append)
  show ?thesis
    using assms by (intro nth_equalityI) (auto intro!: n)
qed

lemma mock_memory_cases:
  shows "unat off + unat (width_bytes w) \<le> length (cm_mem m)
      \<Longrightarrow> mock_read off w (mock_write off w v m) = width_cut w v"
    and "unat off + unat (width_bytes w) \<le> unat off' \<or> unat off' + unat (width_bytes w') \<le> unat off
      \<Longrightarrow> mock_read off' w' (mock_write off w v m) = mock_read off' w' m"
    and "length (cm_mem m) < unat off + unat (width_bytes w)
      \<Longrightarrow> mock_write off w v m = m \<and> mock_read off w m = 0"
proof -
  let ?n = "unat (width_bytes w)" and ?k = "unat (width_bytes w')"
  have bytes: "length (take ?n (to_le_bytes v)) = ?n"
    using width_bytes_le [of w] by simp
  show "mock_read off w (mock_write off w v m) = width_cut w v"
    if fits: "unat off + ?n \<le> length (cm_mem m)"
  proof -
    have "take ?n (drop (unat off) (cm_mem (mock_write off w v m))) = take ?n (to_le_bytes v)"
      using fits bytes by (simp add: mock_write_eq)
    then show ?thesis
      using fits le_bytes_cut [OF width_bytes_le, of w v] by (simp add: mock_read_eq width_cut_def)
  qed
  show "mock_write off w v m = m \<and> mock_read off w m = 0" if "length (cm_mem m) < unat off + ?n"
    using that by (simp add: mock_write_eq mock_read_eq)
  show "mock_read off' w' (mock_write off w v m) = mock_read off' w' m"
    if apart: "unat off + ?n \<le> unat off' \<or> unat off' + ?k \<le> unat off"
  proof (cases "unat off + ?n \<le> length (cm_mem m)")
    case True
    then have "take ?k (drop (unat off') (cm_mem (mock_write off w v m))) = take ?k (drop (unat off') (cm_mem m))"
      using take_drop_write [OF True bytes apart] by (simp add: mock_write_eq)
    then show ?thesis
      by (simp add: mock_read_eq)
  qed (simp add: mock_write_eq)
qed

text \<open>
  C26: the registers of a mock device are memory. After a write inside the buffer a read of the same
  place at the same width gives the value, cut to the width; a read that does not overlap the write
  gives what it gave before; a write beyond the buffer changes nothing and a read there gives 0.
\<close>

theorem mock_memory:
  "(unat off + unat (width_bytes w) \<le> length (cm_mem m)
      \<longrightarrow> mock_read off w (mock_write off w v m) = width_cut w v)
    \<and> (unat off + unat (width_bytes w) \<le> unat off' \<or> unat off' + unat (width_bytes w') \<le> unat off
      \<longrightarrow> mock_read off' w' (mock_write off w v m) = mock_read off' w' m)
    \<and> (length (cm_mem m) < unat off + unat (width_bytes w)
      \<longrightarrow> mock_write off w v m = m \<and> mock_read off w m = 0)"
  using mock_memory_cases by blast

text \<open>A 16-byte buffer.\<close>

definition sample_mock :: capi_mock where
  "sample_mock = \<lparr>cm_mem = replicate 16 0, cm_mapped = True\<rparr>"

theorem mock_memory_witness:
  "mock_read 4 WU16 (mock_write 4 WU16 0x12345 sample_mock) = 0x2345
    \<and> mock_read 6 WU16 (mock_write 4 WU16 0x12345 sample_mock) = 0
    \<and> mock_read 16 WU8 sample_mock = 0"
proof -
  note m = mock_memory [where m = sample_mock and v = "0x12345" and w = WU16 and off = 4 and off' = 6 and w' = WU16]
  have "from_le_bytes (replicate n 0) = 0" for n
    by (induction n) simp_all
  then have "mock_read 6 WU16 sample_mock = 0"
    by (simp add: mock_read_eq sample_mock_def replicate_add [symmetric])
  with m mock_memory [where m = sample_mock and w = WU8 and off = 16] show ?thesis
    by (simp add: sample_mock_def width_cut_def take_bit_eq_mod)
qed

end
