(* ===== verification/LockTake.thy ===== *)
theory LockTake
  imports LockPost
begin

text \<open>
  Guards that outlive the call that took them, as the C interface keeps them: how taking a guard
  changes depth and owner of every lock (\<open>taken\<close>), and that guards can be given back in any order as
  long as every lock is as deep as its guards (\<open>given\<close>).
\<close>

section \<open>Depth and owner\<close>

definition depth_at :: "holder_map \<Rightarrow> nat \<Rightarrow> nat" where
  "depth_at V a = (case V a of None \<Rightarrow> 0 | Some (_, _, n) \<Rightarrow> n)"

definition owner_at :: "holder_map \<Rightarrow> nat \<Rightarrow> thread option" where
  "owner_at V a = (case V a of None \<Rightarrow> None | Some (_, t, _) \<Rightarrow> Some t)"

lemma held_lock:
  assumes "lock_ok hs st"
  shows "depth_at (holdings st) a = (case get_lock st a of Some l \<Rightarrow> sl_depth l | None \<Rightarrow> 0)"
    and "owner_at (holdings st) a = (case get_lock st a of Some l \<Rightarrow> sl_owner l | None \<Rightarrow> None)"
  using lock_okD(1) [OF assms]
  by (auto simp: depth_at_def owner_at_def holdings_def split: option.split)

lemma owner_depth:
  assumes "lock_ok hs st"
  shows "owner_at (holdings st) a = None \<longleftrightarrow> depth_at (holdings st) a = 0"
  using lock_okD(1) [OF assms] by (auto simp: held_lock [OF assms] split: option.split)

lemma depth_lock:
  assumes "lock_ok hs st" "depth_at (holdings st) a \<noteq> 0"
  obtains l where "get_lock st a = Some l" "sl_depth l = depth_at (holdings st) a"
    "sl_owner l = owner_at (holdings st) a"
  using assms(2) by (auto simp: held_lock [OF assms(1)] split: option.splits)

lemma is_owned_iff:
  assumes "lock_ok hs st"
  shows "is_owned_by st a t \<longleftrightarrow> owner_at (holdings st) a = Some t"
proof (cases "get_lock st a")
  case (Some l)
  with lock_okD(1) [OF assms this] show ?thesis
    by (auto simp: held_lock [OF assms] is_owned_by_def)
qed (simp add: held_lock [OF assms] is_owned_by_def)

lemma is_owned_list:
  assumes "lock_ok hs st"
  shows "is_owned_by_current_thread t g st \<longleftrightarrow> (\<forall>a\<in>set (held_list g). owner_at (holdings st) a = Some t)"
  by (cases g) (simp_all add: is_owned_by_current_thread_def held_list_def is_owned_iff [OF assms] list_all_iff)

section \<open>Taking and giving\<close>

definition taken :: "thread \<Rightarrow> nat list \<Rightarrow> holder_map \<Rightarrow> holder_map \<Rightarrow> bool" where
  "taken me xs V V' \<longleftrightarrow> (\<forall>a. depth_at V' a = depth_at V a + count_list xs a
     \<and> owner_at V' a = (if a \<in> set xs then Some me else owner_at V a)
     \<and> (a \<in> set xs \<longrightarrow> owner_at V a \<in> {None, Some me}))"

definition given :: "nat list \<Rightarrow> holder_map \<Rightarrow> holder_map \<Rightarrow> bool" where
  "given xs V V' \<longleftrightarrow> (\<forall>a. depth_at V' a + count_list xs a = depth_at V a
     \<and> owner_at V' a = (if depth_at V' a = 0 then None else owner_at V a))"

lemma taken_Nil [simp]: "taken me [] V V"
  by (simp add: taken_def)

lemma taken_append:
  assumes "taken me xs V V'" "taken me ys V' V''"
  shows "taken me (xs @ ys) V V''"
  unfolding taken_def
proof (intro allI)
  fix a
  show "depth_at V'' a = depth_at V a + count_list (xs @ ys) a
      \<and> owner_at V'' a = (if a \<in> set (xs @ ys) then Some me else owner_at V a)
      \<and> (a \<in> set (xs @ ys) \<longrightarrow> owner_at V a \<in> {None, Some me})"
    using assms [unfolded taken_def, THEN spec, of a] by (simp split: if_splits)
qed

lemma given_Nil: "lock_ok hs st \<Longrightarrow> given [] (holdings st) (holdings st)"
  by (simp add: given_def owner_depth)

lemma given_append:
  assumes "given xs V V'" "given ys V' V''"
  shows "given (xs @ ys) V V''"
  unfolding given_def
proof (intro allI)
  fix a
  show "depth_at V'' a + count_list (xs @ ys) a = depth_at V a
      \<and> owner_at V'' a = (if depth_at V'' a = 0 then None else owner_at V a)"
    using assms [unfolded given_def, THEN spec, of a] by (auto split: if_splits)
qed

lemma given_le: "given xs V V' \<Longrightarrow> count_list xs a \<le> depth_at V a"
  unfolding given_def by (metis le_add2)

lemma acquire_taken:
  assumes "acquire me a st = Done (Inr g, st')" "locks_ok hs st"
  shows "g = HOne a \<and> locks_ok hs st' \<and> taken me [a] (holdings st) (holdings st')"
proof -
  have ok: "lock_ok hs st" "reg_ok st"
    using assms(2) by (simp_all add: locks_ok_def)
  have ok': "lock_ok hs st'" "reg_ok st'"
    using acquire_ok [OF assms(1) ok(1)] acquire_reg_ok [OF assms(1) ok] by simp_all
  obtain l where l: "g = HOne a" "get_lock st a = Some l" "sl_owner l = None \<or> sl_owner l = Some me"
    "st' = set_lock a (Some (l\<lparr>sl_owner := Some me, sl_depth := sl_depth l + 1, sl_refs := sl_refs l + 1\<rparr>)) st"
    using acquire_Inr [OF assms(1) ok(1)] by metis
  have "taken me [a] (holdings st) (holdings st')"
    unfolding taken_def held_lock [OF ok(1)] held_lock [OF ok'(1)]
    using l(2,3) get_lock_SomeD [OF l(2)] by (auto simp: l(4))
  then show ?thesis
    using ok' l(1) by (simp add: locks_ok_def)
qed

lemma lock_all_loop_taken:
  assumes "lock_all_loop me h xs st = Done (Inr g, st')" "locks_ok (xs @ hs) st"
  shows "held_list g = held_list h @ xs \<and> locks_ok hs st' \<and> taken me xs (holdings st) (holdings st')"
  using assms
proof (induction xs arbitrary: h st)
  case (Cons a xs)
  from Cons.prems(1) obtain f st1 where a: "acquire me a st = Done (Inr f, st1)"
    "lock_all_loop me (held_push h a) xs (arc_drop a st1) = Done (Inr g, st')"
    by (auto split: run.splits sum.splits)
  have t: "locks_ok (a # xs @ hs) st1" "taken me [a] (holdings st) (holdings st1)"
    using acquire_taken [OF a(1) Cons.prems(2)] by simp_all
  note d = locks_ok_arc_drop [OF t(1)]
  show ?case
    using Cons.IH [OF a(2) d(1)] taken_append [OF t(2), of xs "holdings st'"] d(2) by simp
qed simp

lemma release_given:
  assumes "locks_ok hs st" "depth_at (holdings st) a \<noteq> 0"
  shows "\<exists>st'. release a st = Done st' \<and> locks_ok (a # hs) st' \<and> given [a] (holdings st) (holdings st')"
proof -
  have ok: "lock_ok hs st" "reg_ok st"
    using assms(1) by (simp_all add: locks_ok_def)
  obtain l where l: "get_lock st a = Some l" "sl_depth l \<noteq> 0"
    using depth_lock [OF ok(1) assms(2)] assms(2) by metis
  let ?m = "l\<lparr>sl_owner := (if sl_depth l = 1 then None else sl_owner l), sl_depth := sl_depth l - 1\<rparr>"
  have r: "release a st = Done (set_lock a (Some ?m) st)"
    using l by (simp add: release_Done)
  note b = lock_okD [OF ok(1) l(1)] and len = get_lock_SomeD [OF l(1)]
  have "lock_ok (a # hs) (set_lock a (Some ?m) st)"
    unfolding lock_ok_def
  proof
    fix c
    show "case get_lock (set_lock a (Some ?m) st) c of None \<Rightarrow> c \<notin> set (a # hs)
      | Some k \<Rightarrow> (sl_owner k = None \<longleftrightarrow> sl_depth k = 0)
          \<and> sl_depth k + count_list (a # hs) c \<le> sl_refs k \<and> 1 \<le> sl_refs k"
      using ok(1) [unfolded lock_ok_def, THEN spec, of c] b l len
      by (cases "c = a") (auto split: option.splits)
  qed
  moreover have "given [a] (holdings st) (holdings (set_lock a (Some ?m) st))"
    unfolding given_def held_lock [OF ok(1)] held_lock [OF calculation]
  proof
    fix c
    show "(case get_lock (set_lock a (Some ?m) st) c of Some k \<Rightarrow> sl_depth k | None \<Rightarrow> 0) + count_list [a] c
        = (case get_lock st c of Some k \<Rightarrow> sl_depth k | None \<Rightarrow> 0)
      \<and> (case get_lock (set_lock a (Some ?m) st) c of Some k \<Rightarrow> sl_owner k | None \<Rightarrow> None)
        = (if (case get_lock (set_lock a (Some ?m) st) c of Some k \<Rightarrow> sl_depth k | None \<Rightarrow> 0) = 0 then None
           else case get_lock st c of Some k \<Rightarrow> sl_owner k | None \<Rightarrow> None)"
      using l b len lock_okD(1) [OF ok(1), of c] by (cases "c = a") (auto split: option.split)
  qed
  ultimately show ?thesis
    using r release_reg_ok [OF r ok(2)] by (simp add: locks_ok_def)
qed

lemma release_each_given:
  assumes "locks_ok hs st" "\<And>a. count_list xs a \<le> depth_at (holdings st) a"
  shows "\<exists>st'. release_each xs st = Done st' \<and> locks_ok (xs @ hs) st' \<and> given xs (holdings st) (holdings st')"
  using assms
proof (induction xs arbitrary: st hs)
  case Nil
  then show ?case
    using given_Nil by (auto simp: locks_ok_def)
next
  case (Cons a xs)
  have "depth_at (holdings st) a \<noteq> 0"
    using Cons.prems(2) [of a] by simp
  from release_given [OF Cons.prems(1) this] obtain st1 where r: "release a st = Done st1"
    "locks_ok (a # hs) st1" "given [a] (holdings st) (holdings st1)"
    by blast
  have "count_list xs b \<le> depth_at (holdings st1) b" for b
    using r(3) Cons.prems(2) [of b] unfolding given_def by (metis add_le_cancel_right count_list.simps
        add.right_neutral add.commute add_Suc_right Suc_le_mono)
  from Cons.IH [OF r(2) this] obtain st' where "release_each xs st1 = Done st'"
    "locks_ok (xs @ a # hs) st'" "given xs (holdings st1) (holdings st')"
    by blast
  then show ?case
    using r given_append [OF r(3)] locks_ok_perm [of "xs @ a # hs" "(a # xs) @ hs" st'] by auto
qed

lemma guard_drop_given:
  assumes "locks_ok hs st" "\<And>a. count_list (held_list g) a \<le> depth_at (holdings st) a"
  shows "\<exists>st'. guard_drop g st = Done st' \<and> locks_ok hs st' \<and> given (held_list g) (holdings st) (holdings st')"
proof -
  have c: "count_list (rev (held_list g)) = count_list (held_list g)"
    by (metis count_mset ext mset_rev)
  then have "given (rev (held_list g)) = given (held_list g)"
    by (intro ext) (simp add: given_def)
  then obtain st1 where r: "release_each (rev (held_list g)) st = Done st1"
    "locks_ok (rev (held_list g) @ hs) st1" "given (held_list g) (holdings st) (holdings st1)"
    using release_each_given [OF assms(1), of "rev (held_list g)"] assms(2) c by auto
  have "locks_ok (held_list g @ hs) st1"
    using r(2) locks_ok_perm [of "rev (held_list g) @ hs" "held_list g @ hs" st1] by simp
  from locks_ok_arc_drops [OF this] r show ?thesis
    by (simp add: guard_drop_def release_all_each)
qed

end
