(* ===== verification/CapiSpec.thy ===== *)
theory CapiSpec
  imports MockSpec LockTake IfaceSpec
begin

text \<open>
  The properties of \<open>Capi\<close> over whole runs: threads of a process that calls the C interface in any
  order, beside other processes. The invariant says which locks the guard stacks of the handles
  hold; it gives that no call panics, and what \<open>mmreg_lock\<close> and \<open>mmreg_unlock\<close> promise.
\<close>

section \<open>The locks of the open handles\<close>

definition dev_refs :: "mmreg_dev option \<Rightarrow> nat list" where
  "dev_refs h = (case h of Some x \<Rightarrow> dev_handles (md_device x) | None \<Rightarrow> [])"

definition guard_locks :: "mmreg_dev option \<Rightarrow> nat list" where
  "guard_locks h = (case h of Some x \<Rightarrow> concat (map held_list (md_guards x)) | None \<Rightarrow> [])"

definition all_refs :: "'h capi \<Rightarrow> nat list" where
  "all_refs s = concat (map dev_refs (ca_devs s))"

definition all_guards :: "'h capi \<Rightarrow> nat list" where
  "all_guards s = concat (map guard_locks (ca_devs s))"

text \<open>What the handles other than \<open>p\<close> give.\<close>

definition others :: "(mmreg_dev option \<Rightarrow> nat list) \<Rightarrow> nat \<Rightarrow> 'h capi \<Rightarrow> nat list" where
  "others f p s = concat (map f (take p (ca_devs s) @ drop (Suc p) (ca_devs s)))"

abbreviation capi_heap :: "'h capi \<Rightarrow> lock_heap" where
  "capi_heap s \<equiv> mc_locks (ca_machine s)"

lemma get_put_dev [simp]:
  "get_dev (put_dev p x s) q = (if q = p \<and> p < length (ca_devs s) then x else get_dev s q)"
  by (auto simp: get_dev_def put_dev_def)

lemma get_dev_machine [simp]: "get_dev (s\<lparr>ca_machine := M\<rparr>) = get_dev s"
  by (simp add: get_dev_def fun_eq_iff)

lemma get_dev_less: "get_dev s p = Some h \<Longrightarrow> p < length (ca_devs s)"
  by (auto simp: get_dev_def split: if_splits)

lemma get_dev_set: "Some h \<in> set (ca_devs s) \<longleftrightarrow> (\<exists>p. get_dev s p = Some h)"
  by (auto simp: get_dev_def in_set_conv_nth split: if_splits)

lemma put_dev_simps [simp]:
  "ca_machine (put_dev p x s) = ca_machine s" "ca_errors (put_dev p x s) = ca_errors s"
  "length (ca_devs (put_dev p x s)) = length (ca_devs s)"
  by (simp_all add: put_dev_def)

lemma others_put [simp]: "others f p (put_dev p x s) = others f p s"
  by (cases "p < length (ca_devs s)") (simp_all add: others_def put_dev_def list_update_beyond)

lemma others_cong: "ca_devs s' = ca_devs s \<Longrightarrow> others f p s' = others f p s"
  by (simp add: others_def)

lemma concat_split:
  assumes "p < length (ca_devs s)"
  shows "mset (concat (map f (ca_devs s))) = mset (f (ca_devs s ! p) @ others f p s)"
proof -
  have "ca_devs s = take p (ca_devs s) @ ca_devs s ! p # drop (Suc p) (ca_devs s)"
    by (rule id_take_nth_drop [OF assms])
  then have "mset (concat (map f (ca_devs s))) = mset (concat (map f
      (take p (ca_devs s) @ ca_devs s ! p # drop (Suc p) (ca_devs s))))"
    by simp
  then show ?thesis
    by (simp add: others_def)
qed

lemma all_split:
  assumes "get_dev s p = Some h"
  shows "mset (all_refs s) = mset (dev_refs (Some h) @ others dev_refs p s)"
    and "mset (all_guards s) = mset (guard_locks (Some h) @ others guard_locks p s)"
proof -
  have "p < length (ca_devs s)" "ca_devs s ! p = Some h"
    using assms by (auto simp: get_dev_def split: if_splits)
  then show "mset (all_refs s) = mset (dev_refs (Some h) @ others dev_refs p s)"
    and "mset (all_guards s) = mset (guard_locks (Some h) @ others guard_locks p s)"
    using concat_split [of p s] by (simp_all add: all_refs_def all_guards_def)
qed

lemma all_put:
  assumes "p < length (ca_devs s)"
  shows "mset (all_refs (put_dev p x s)) = mset (dev_refs x @ others dev_refs p s)"
    and "mset (all_guards (put_dev p x s)) = mset (guard_locks x @ others guard_locks p s)"
  using concat_split [of p "put_dev p x s" dev_refs] concat_split [of p "put_dev p x s" guard_locks] assms
  by (simp_all add: all_refs_def all_guards_def) (simp_all add: put_dev_def)

section \<open>The invariant\<close>

text \<open>A guard on a stack holds some lock, and all its locks belong to one thread.\<close>

definition stack_ok :: "holder_map \<Rightarrow> held list \<Rightarrow> bool" where
  "stack_ok V gs \<longleftrightarrow> (\<forall>g\<in>set gs. held_list g \<noteq> []
     \<and> (\<exists>t. \<forall>a\<in>set (held_list g). owner_at V a = Some t))"

definition handle_ok :: "'h capi_env \<Rightarrow> 'h machine \<Rightarrow> mmreg_dev \<Rightarrow> bool" where
  "handle_ok E M h \<longleftrightarrow> dev_mapped E (\<lambda>_. True) mock_win (M, md_device h)
     \<and> stack_ok (holdings (mc_locks M)) (md_guards h)"

text \<open>
  The locks are in order with the handles of the open devices; every lock is as deep as the guards
  on the stacks say; the handles are well formed.
\<close>

definition capi_ok :: "'h capi_env \<Rightarrow> 'h capi \<Rightarrow> bool" where
  "capi_ok E s \<longleftrightarrow> locks_ok (all_refs s) (capi_heap s)
     \<and> (\<forall>a. depth_at (holdings (capi_heap s)) a = count_list (all_guards s) a)
     \<and> (\<forall>h. Some h \<in> set (ca_devs s) \<longrightarrow> handle_ok E (ca_machine s) h)"

lemma count_perm: "mset xs = mset ys \<Longrightarrow> count_list xs a = count_list ys a"
  by (metis count_mset)

lemma dev_mapped_machine: "dev_mapped E okay win (M, d) = dev_mapped E okay win (M', d)"
  by (simp add: dev_mapped_def os_okay_def os_win_def split: backend.split)

lemma handle_ok_machine:
  "handle_ok E M h \<Longrightarrow> holdings (mc_locks M') = holdings (mc_locks M) \<Longrightarrow> handle_ok E M' h"
  by (simp add: handle_ok_def dev_mapped_machine [of E _ _ M' _ M])

lemma capi_okD:
  assumes "capi_ok E s" "get_dev s p = Some h"
  shows "locks_ok (dev_handles (md_device h) @ others dev_refs p s) (capi_heap s)"
    "depth_at (holdings (capi_heap s)) a = count_list (concat (map held_list (md_guards h))) a
      + count_list (others guard_locks p s) a"
    "handle_ok E (ca_machine s) h"
proof -
  have h: "Some h \<in> set (ca_devs s)"
    using assms(2) get_dev_set by blast
  note sp = all_split [OF assms(2)]
  have "locks_ok (dev_refs (Some h) @ others dev_refs p s) (capi_heap s)"
    using assms(1) locks_ok_perm [OF sp(1)] by (simp add: capi_ok_def)
  then show "locks_ok (dev_handles (md_device h) @ others dev_refs p s) (capi_heap s)"
    by (simp add: dev_refs_def)
  have "depth_at (holdings (capi_heap s)) a = count_list (all_guards s) a"
    using assms(1) by (simp add: capi_ok_def)
  also have "\<dots> = count_list (guard_locks (Some h) @ others guard_locks p s) a"
    by (rule count_perm [OF sp(2)])
  finally show "depth_at (holdings (capi_heap s)) a = count_list (concat (map held_list (md_guards h))) a
      + count_list (others guard_locks p s) a"
    by (simp add: guard_locks_def)
  show "handle_ok E (ca_machine s) h"
    using assms(1) h by (simp add: capi_ok_def)
qed

text \<open>The handle \<open>p\<close> and the machine change, the other handles do not.\<close>

lemma capi_ok_put:
  assumes "capi_ok E s" "get_dev s p = Some h"
    and "locks_ok (dev_refs x @ others dev_refs p s) (mc_locks M)"
    and "\<And>a. depth_at (holdings (mc_locks M)) a = count_list (guard_locks x) a + count_list (others guard_locks p s) a"
    and "\<And>y. x = Some y \<Longrightarrow> handle_ok E M y"
    and "\<And>q y. q \<noteq> p \<Longrightarrow> get_dev s q = Some y \<Longrightarrow> stack_ok (holdings (mc_locks M)) (md_guards y)"
  shows "capi_ok E (put_dev p x (s\<lparr>ca_machine := M\<rparr>))"
proof -
  let ?s = "put_dev p x (s\<lparr>ca_machine := M\<rparr>)"
  have p: "p < length (ca_devs (s\<lparr>ca_machine := M\<rparr>))"
    using get_dev_less [OF assms(2)] by simp
  have same: "others f p (s\<lparr>ca_machine := M\<rparr>) = others f p s" for f
    by (rule others_cong) simp
  have refs: "locks_ok (all_refs ?s) (mc_locks M)"
    using assms(3) locks_ok_perm [OF all_put(1) [OF p, of x]] by (simp add: same)
  have guards: "depth_at (holdings (mc_locks M)) a = count_list (all_guards ?s) a" for a
    using assms(4) count_perm [OF all_put(2) [OF p, of x], of a] by (simp add: same)
  have handles: "handle_ok E M y" if q: "get_dev ?s q = Some y" for q y
  proof (cases "q = p")
    case True
    with q p assms(5) show ?thesis by simp
  next
    case False
    then have g: "get_dev s q = Some y"
      using q by simp
    then have "handle_ok E (ca_machine s) y"
      by (rule capi_okD(3) [OF assms(1)])
    then show ?thesis
      using assms(6) [OF False g] by (simp add: handle_ok_def dev_mapped_machine [of E _ _ M _ "ca_machine s"])
  qed
  show ?thesis
    unfolding capi_ok_def get_dev_set using refs guards handles
    by (intro conjI allI impI) (simp, simp, metis put_dev_simps(1) capi.select_convs(1) capi.surjective capi.update_convs(1))
qed

lemma capi_ok_error [simp]: "capi_ok E (set_error me c m s) = capi_ok E s"
  by (simp add: capi_ok_def all_refs_def all_guards_def set_error_def)

lemma capi_ok_mmreg_error [simp]: "capi_ok E (set_mmreg_error me e s) = capi_ok E s"
  by (simp add: set_mmreg_error_def)

lemma error_simps [simp]:
  "ca_machine (set_error me c m s) = ca_machine s" "ca_devs (set_error me c m s) = ca_devs s"
  "get_dev (set_error me c m s) = get_dev s"
  "ca_machine (set_mmreg_error me e s) = ca_machine s" "ca_devs (set_mmreg_error me e s) = ca_devs s"
  "get_dev (set_mmreg_error me e s) = get_dev s"
  by (simp_all add: set_error_def set_mmreg_error_def get_dev_def fun_eq_iff)

section \<open>The methods of a device\<close>

text \<open>
  \<open>capi_method\<close>: what the interface relies on when it calls a method of a device: with the device
  mapped and the locks in order it does not panic, gives its locks back and keeps the device mapped.
\<close>

locale capi_method =
  fixes E :: "'h capi_env" and act :: "(mmreg_error, ('h, capi_mock) world, 'a) prog"
  assumes act_balanced: "ev_vt E = mock_vt \<Longrightarrow> dev_mapped E (\<lambda>_. True) mock_win (M, d)
      \<Longrightarrow> world_ok hs (M, d) \<Longrightarrow> balanced hs (M, d) (act (M, d))"
    and act_mapped: "ev_vt E = mock_vt \<Longrightarrow> dev_mapped E (\<lambda>_. True) mock_win (M, d)
      \<Longrightarrow> act (M, d) = Done (r, (M', d')) \<Longrightarrow> dev_mapped E (\<lambda>_. True) mock_win (M', d')"
begin

lemma call_keeps:
  assumes "ev_vt E = mock_vt" "capi_ok E s" "get_dev s p = Some h"
  shows "device_call me p act r s \<noteq> Panics
    \<and> (\<forall>x s'. device_call me p act r s = Done (x, s') \<longrightarrow> capi_ok E s' \<and> get_dev s' p \<noteq> None)"
proof -
  let ?M = "ca_machine s" and ?d = "md_device h"
  note ok = capi_okD [OF assms(2,3)]
  have mapped: "dev_mapped E (\<lambda>_. True) mock_win (?M, ?d)"
    using ok(3) by (simp add: handle_ok_def)
  have "world_ok (others dev_refs p s) (?M, ?d)"
    using ok(1) by (simp add: world_ok_def)
  then have bal: "balanced (others dev_refs p s) (?M, ?d) (act (?M, ?d))"
    by (rule act_balanced [OF assms(1) mapped])
  show ?thesis
  proof (cases "act (?M, ?d)")
    case (Done y)
    then obtain x M' d' where y: "act (?M, ?d) = Done (x, (M', d'))"
      by (cases y) auto
    then have locks: "locks_ok (dev_handles d' @ others dev_refs p s) (mc_locks M')"
      "holdings (mc_locks M') = holdings (mc_locks ?M)"
      using bal by (simp_all add: balanced_def world_ok_def holders_def)
    have "capi_ok E (put_dev p (Some (h\<lparr>md_device := d'\<rparr>)) (s\<lparr>ca_machine := M'\<rparr>))"
    proof (rule capi_ok_put [OF assms(2,3)])
      show "locks_ok (dev_refs (Some (h\<lparr>md_device := d'\<rparr>)) @ others dev_refs p s) (mc_locks M')"
        using locks(1) by (simp add: dev_refs_def)
      show "depth_at (holdings (mc_locks M')) a = count_list (guard_locks (Some (h\<lparr>md_device := d'\<rparr>))) a
          + count_list (others guard_locks p s) a" for a
        using ok(2) locks(2) by (simp add: guard_locks_def)
      show "handle_ok E M' z" if "Some (h\<lparr>md_device := d'\<rparr>) = Some z" for z
        using that ok(3) locks(2) act_mapped [OF assms(1) mapped y] by (auto simp: handle_ok_def)
      show "stack_ok (holdings (mc_locks M')) (md_guards z)" if "get_dev s q = Some z" for q z
        using capi_okD(3) [OF assms(2) that] locks(2) by (simp add: handle_ok_def)
    qed
    then show ?thesis
      using assms(3) y get_dev_less [OF assms(3)] by (simp add: device_call_def Let_def split: sum.split)
  qed (use bal assms(3) in \<open>simp_all add: device_call_def balanced_def\<close>)
qed

end

text \<open>A value of the method computed from its result.\<close>

lemma capi_method_map:
  assumes "capi_method E act"
  shows "capi_method E (pbind act (\<lambda>v. pret (f v)))"
proof
  fix M d hs r M' d'
  assume e: "ev_vt E = mock_vt" "dev_mapped E (\<lambda>_. True) mock_win (M, d)"
  show "balanced hs (M, d) (pbind act (\<lambda>v. pret (f v)) (M, d))" if "world_ok hs (M, d)"
    by (rule balanced_pret) (rule capi_method.act_balanced [OF assms e that])
  show "dev_mapped E (\<lambda>_. True) mock_win (M', d')" if "pbind act (\<lambda>v. pret (f v)) (M, d) = Done (r, M', d')"
    using that capi_method.act_mapped [OF assms e] by (auto simp: pbind_Done_iff pret_def)
qed

lemma capi_method_read: "capi_method E (device_read E me off w)"
proof
  fix M d hs r M' d'
  assume e: "ev_vt E = mock_vt" and m: "dev_mapped E (\<lambda>_. True) mock_win (M, d)"
  have vt: "memory_mapper (\<lambda>_. True) mock_win (ev_vt E)"
    unfolding e by (rule mock.memory_mapper_axioms)
  show "balanced hs (M, d) (device_read E me off w (M, d))" if "world_ok hs (M, d)"
    by (rule read_balanced [OF vt m that])
  show "dev_mapped E (\<lambda>_. True) mock_win (M', d')" if "device_read E me off w (M, d) = Done (r, M', d')"
    using access_keeps_mapped [OF read_keeps_mapped [OF vt] m] that unfolding device_read_def by blast
qed

lemma capi_method_write: "capi_method E (device_write E me off w v)"
proof
  fix M d hs r M' d'
  assume e: "ev_vt E = mock_vt" and m: "dev_mapped E (\<lambda>_. True) mock_win (M, d)"
  have vt: "memory_mapper (\<lambda>_. True) mock_win (ev_vt E)"
    unfolding e by (rule mock.memory_mapper_axioms)
  show "balanced hs (M, d) (device_write E me off w v (M, d))" if "world_ok hs (M, d)"
    by (rule write_balanced [OF vt m that])
  show "dev_mapped E (\<lambda>_. True) mock_win (M', d')" if "device_write E me off w v (M, d) = Done (r, M', d')"
    using access_keeps_mapped [OF write_keeps_mapped [OF vt] m] that unfolding device_write_def by blast
qed

lemma capi_method_update: "capi_method E (update_u32 E me off msk v)"
proof
  fix M d hs r M' d'
  assume e: "ev_vt E = mock_vt" and m: "dev_mapped E (\<lambda>_. True) mock_win (M, d)"
  have vt: "memory_mapper (\<lambda>_. True) mock_win (ev_vt E)"
    unfolding e by (rule mock.memory_mapper_axioms)
  show "balanced hs (M, d) (update_u32 E me off msk v (M, d))" if "world_ok hs (M, d)"
    by (rule update_balanced [OF vt m that])
  show "dev_mapped E (\<lambda>_. True) mock_win (M', d')" if "update_u32 E me off msk v (M, d) = Done (r, M', d')"
    using access_keeps_mapped [OF update_keeps_mapped [OF vt] m] that unfolding update_u32_def by blast
qed

interpretation c_rd8: capi_method E "read_u8 E me off" for E me off
  unfolding read_u8_def by (intro capi_method_map capi_method_read)

interpretation c_rd16: capi_method E "read_u16 E me off" for E me off
  unfolding read_u16_def by (intro capi_method_map capi_method_read)

interpretation c_rd32: capi_method E "read_u32 E me off" for E me off
  unfolding read_u32_def by (intro capi_method_map capi_method_read)

interpretation c_rd64: capi_method E "read_u64 E me off" for E me off
  unfolding read_u64_def by (rule capi_method_read)

interpretation c_wr8: capi_method E "write_u8 E me off v" for E me off v
  unfolding write_u8_def by (rule capi_method_write)

interpretation c_wr16: capi_method E "write_u16 E me off v" for E me off v
  unfolding write_u16_def by (rule capi_method_write)

interpretation c_wr32: capi_method E "write_u32 E me off v" for E me off v
  unfolding write_u32_def by (rule capi_method_write)

interpretation c_wr64: capi_method E "write_u64 E me off v" for E me off v
  unfolding write_u64_def by (rule capi_method_write)

interpretation c_update: capi_method E "update_u32 E me off msk v" for E me off msk v
  by (rule capi_method_update)

interpretation c_irq: capi_method E "irq_call f" for E f
  by unfold_locales (auto simp: irq_call_def balanced_def split: option.splits)

section \<open>What taking a guard leaves\<close>

definition guard_post :: "thread \<Rightarrow> nat list \<Rightarrow> lock_heap \<Rightarrow> 'e + held \<Rightarrow> lock_heap \<Rightarrow> bool" where
  "guard_post me hs st r st' \<longleftrightarrow> locks_ok hs st' \<and> (case r of
       Inl _ \<Rightarrow> holdings st' = holdings st
     | Inr g \<Rightarrow> held_list g \<noteq> [] \<and> taken me (held_list g) (holdings st) (holdings st')
         \<and> (\<exists>L. guard_drop g st' = Done L \<and> holdings L = holdings st))"

lemma acquire_post:
  assumes "locks_ok hs st" "a \<in> set hs"
  shows "acquire me a st \<noteq> Panics
    \<and> (\<forall>r st'. acquire me a st = Done (r, st') \<longrightarrow> guard_post me hs st r st')"
proof -
  have ok: "lock_ok hs st"
    using assms(1) by (simp add: locks_ok_def)
  obtain l where l: "get_lock st a = Some l"
    using lock_ok_live [OF ok assms(2)] by blast
  have "guard_post me hs st r st'" if t: "acquire me a st = Done (r, st')" for r st'
  proof (cases r)
    case (Inl e)
    with t assms(1) show ?thesis
      by (auto simp: guard_post_def dest: acquire_Inl)
  next
    case (Inr g)
    with t have t': "acquire me a st = Done (Inr g, st')" by simp
    show ?thesis
      using acquire_taken [OF t' assms(1)] release_acquire(2) [OF t' ok] Inr
      by (auto simp: guard_post_def held_list_def)
  qed
  then show ?thesis
    using acquire_no_panic [OF l] by blast
qed

lemma lock_all_post:
  assumes "locks_ok (xs @ hs) st" "xs \<noteq> []"
  shows "lock_all me xs st \<noteq> Panics
    \<and> (\<forall>r st'. lock_all me xs st = Done (r, st') \<longrightarrow> guard_post me hs st r st')"
proof -
  have nil: "guard_drop HNone st = Done st" "held_list HNone = []"
    by (simp_all add: guard_drop_def release_all_def held_list_def)
  have ok: "lock_ok (xs @ hs) st"
    using assms(1) by (simp add: locks_ok_def)
  note spec = lock_all_loop_spec [OF ok nil(1), of me]
  note drops = locks_ok_arc_drops [OF assms(1)]
  have "guard_post me hs st r st'" if t: "lock_all_loop me HNone xs st = Done (r, st')" for r st'
  proof (cases r)
    case (Inl e)
    with spec t drops show ?thesis
      by (simp add: guard_post_def)
  next
    case (Inr g)
    with t have t': "lock_all_loop me HNone xs st = Done (Inr g, st')" by simp
    show ?thesis
      using lock_all_loop_taken [OF t' assms(1)] spec t drops assms(2) Inr nil(2)
      by (auto simp: guard_post_def)
  qed
  moreover have "lock_all_loop me HNone xs st \<noteq> Panics"
    using spec by auto
  ultimately show ?thesis
    unfolding lock_all_def by blast
qed

lemma open_pages_post:
  "locks_ok (acc @ hs) st \<Longrightarrow> \<exists>r st'. open_pages L page as acc st = Done (r, st')
    \<and> holdings st' = holdings st
    \<and> (case r of Inl _ \<Rightarrow> locks_ok hs st' | Inr xs \<Rightarrow> length xs = length acc + length as \<and> locks_ok (xs @ hs) st')"
proof (induction "as" arbitrary: acc st)
  case (Cons a bs)
  obtain r st1 where o: "open_page L page a st = Done (r, st1)" "handle_post (acc @ hs) st r st1"
    using open_page_post [OF Cons.prems, of L page a] by blast
  show ?case
  proof (cases r)
    case (Inl e)
    with o have "locks_ok (acc @ hs) st1" "holdings st1 = holdings st"
      by (simp_all add: handle_post_def)
    with locks_ok_arc_drops [of acc hs st1] o Inl show ?thesis
      by simp
  next
    case (Inr x)
    with o have "locks_ok (x # acc @ hs) st1" and hold: "holdings st1 = holdings st"
      by (simp_all add: handle_post_def)
    then have "locks_ok ((acc @ [x]) @ hs) st1"
      using locks_ok_perm [of "x # acc @ hs" "(acc @ [x]) @ hs" st1] by simp
    from Cons.IH [OF this] obtain q st' where q: "open_pages L page bs (acc @ [x]) st1 = Done (q, st')"
      "holdings st' = holdings st1"
      "case q of Inl _ \<Rightarrow> locks_ok hs st'
        | Inr xs \<Rightarrow> length xs = length (acc @ [x]) + length bs \<and> locks_ok (xs @ hs) st'"
      by blast
    have "open_pages L page (a # bs) acc st = Done (q, st')"
      using o(1) Inr q(1) by simp
    with q(2,3) hold show ?thesis
      by (intro exI [of _ q] exI [of _ st']) (simp split: sum.splits)
  qed
qed simp

lemma page_addresses_nonempty:
  assumes "is_page_size p"
  shows "page_addresses p d \<noteq> []"
proof -
  let ?x = "(page_base p (dv_base d + dv_size d - 1) - page_base p (dv_base d)) div p"
  obtain k where k: "12 \<le> k" "unat p = 2 ^ k"
    using assms by (auto elim: is_page_sizeE)
  have "unat ?x \<le> unat (page_base p (dv_base d + dv_size d - 1) - page_base p (dv_base d)) div 2 ^ 12"
    unfolding unat_div k(2) using k(1) by (intro div_le_mono2 power_increasing) simp_all
  also have "\<dots> < 2 ^ 52"
    using unat_bound [of "page_base p (dv_base d + dv_size d - 1) - page_base p (dv_base d)"]
    by (simp add: div_less_iff_less_mult)
  finally have "unat (?x + 1) = unat ?x + 1"
    by (subst unat_add_no_wrap) simp_all
  then show ?thesis
    by (simp add: page_addresses_def window_pages_def)
qed

text \<open>\<open>Device::lock\<close>: only the locks and the cached page lock change.\<close>

definition device_lock_post ::
  "thread \<Rightarrow> nat list \<Rightarrow> ('h, 'm) world \<Rightarrow> ((mmreg_error + held) \<times> ('h, 'm) world) run \<Rightarrow> bool"
where
  "device_lock_post me hs s out \<longleftrightarrow> (case out of
       Done (r, (M', d')) \<Rightarrow> M' = (fst s)\<lparr>mc_locks := mc_locks M'\<rparr> \<and> d' = (snd s)\<lparr>dv_base_page_lock := dv_base_page_lock d'\<rparr>
         \<and> guard_post me (dev_handles d' @ hs) (mc_locks (fst s)) r (mc_locks M')
     | Blocks \<Rightarrow> True
     | Panics \<Rightarrow> False)"

lemma update_same [simp]:
  "d\<lparr>dv_base_page_lock := dv_base_page_lock d\<rparr> = d" "M\<lparr>mc_locks := mc_locks M\<rparr> = M"
  by (cases d, simp) (cases M, simp)

lemma guard_post_cong:
  "holdings L = holdings st \<Longrightarrow> guard_post me hs L r st' = guard_post me hs st r st'"
  by (simp add: guard_post_def cong: sum.case_cong)

lemma on_locks_post:
  assumes "p L \<noteq> Panics \<and> (\<forall>r st'. p L = Done (r, st') \<longrightarrow> guard_post me (dev_handles d' @ hs) L r st')"
    and "holdings L = holdings (mc_locks M)" "d' = d\<lparr>dv_base_page_lock := dv_base_page_lock d'\<rparr>"
  shows "device_lock_post me hs (M, d) (on_locks p (M\<lparr>mc_locks := L\<rparr>, d'))"
proof (cases "p L")
  case (Done y)
  then obtain r st' where y: "p L = Done (r, st')"
    by (cases y) auto
  then have "guard_post me (dev_handles d' @ hs) (mc_locks M) r st'"
    using assms(1) guard_post_cong [OF assms(2)] by blast
  then show ?thesis
    using y assms(3) by (simp add: device_lock_post_def on_locks_def)
qed (use assms(1) in \<open>simp_all add: device_lock_post_def on_locks_def\<close>)

lemma handle_lock_post:
  assumes "world_ok hs (M, d)" "a \<in> set (dev_handles d)"
  shows "device_lock_post me hs (M, d) (on_locks (acquire me a) (M, d))"
  using on_locks_post [of "acquire me a" "mc_locks M" me d hs M d]
    acquire_post [of "dev_handles d @ hs" "mc_locks M" a] assms
  by (simp add: world_ok_def)

text \<open>A device without a lock of its own opens that of its first page and keeps it.\<close>

lemma page_lock_post:
  assumes "world_ok hs (M, d)" "dv_uio_lock d = None" "dv_base_page_lock d = None"
  shows "device_lock_post me hs (M, d) (lock_at E me (dv_base d) (M, d))"
proof -
  have h: "locks_ok hs (mc_locks M)" "dev_handles d = []"
    using assms by (simp_all add: dev_handles_def world_ok_def)
  obtain r L where o: "open_page (ev_lock E) (page_size (ev_kernel E)) (dv_base d) (mc_locks M) = Done (r, L)"
    "handle_post hs (mc_locks M) r L"
    using open_page_post [OF h(1)] by blast
  have eq: "lock_at E me (dv_base d) (M, d) = (case r of
      Inl e \<Rightarrow> Done (Inl e, (M\<lparr>mc_locks := L\<rparr>, d))
    | Inr a \<Rightarrow> on_locks (acquire me a) (M\<lparr>mc_locks := L\<rparr>, d\<lparr>dv_base_page_lock := Some a\<rparr>))"
    using assms(2,3) o(1) by (simp add: lock_at_def pbind_def on_locks_Done set_base_page_lock_def split: sum.split)
  show ?thesis
  proof (cases r)
    case (Inl e)
    with o(2) h show ?thesis
      by (auto simp: eq device_lock_post_def guard_post_def handle_post_def)
  next
    case (Inr a)
    let ?d = "d\<lparr>dv_base_page_lock := Some a\<rparr>"
    have l: "locks_ok (dev_handles ?d @ hs) L" "a \<in> set (dev_handles ?d @ hs)" "holdings L = holdings (mc_locks M)"
      using o(2) Inr assms(2) by (simp_all add: handle_post_def dev_handles_def)
    have "device_lock_post me hs (M, d) (on_locks (acquire me a) (M\<lparr>mc_locks := L\<rparr>, ?d))"
      using acquire_post [OF l(1,2)] l(3) by (intro on_locks_post) simp_all
    with Inr show ?thesis
      by (simp add: eq)
  qed
qed

lemma base_lock_post:
  assumes "world_ok hs (M, d)"
  shows "device_lock_post me hs (M, d) (lock_at E me (dv_base d) (M, d))"
proof (cases "dv_uio_lock d = None \<and> dv_base_page_lock d = None")
  case False
  then show ?thesis
    using handle_lock_post [OF assms] by (cases "dv_uio_lock d") (auto simp: lock_at_def dev_handles_def)
qed (use page_lock_post [OF assms] in blast)

text \<open>A window of several pages: their locks are opened and taken in order.\<close>

lemma pages_lock_post:
  assumes "is_page_size page" "world_ok hs (M, d)"
  shows "device_lock_post me hs (M, d)
    (pbind (on_locks (open_pages (ev_lock E) page (page_addresses page d) []))
      (\<lambda>locks. on_locks (lock_all me locks)) (M, d))"
proof -
  let ?hs = "dev_handles d @ hs"
  have ok: "locks_ok ?hs (mc_locks M)"
    using assms(2) by (simp add: world_ok_def)
  obtain r L where o: "open_pages (ev_lock E) page (page_addresses page d) [] (mc_locks M) = Done (r, L)"
    "holdings L = holdings (mc_locks M)"
    "case r of Inl _ \<Rightarrow> locks_ok ?hs L
      | Inr xs \<Rightarrow> length xs = length (page_addresses page d) \<and> locks_ok (xs @ ?hs) L"
    using open_pages_post [of "[]" ?hs "mc_locks M" "ev_lock E" page "page_addresses page d"] ok
    by (auto simp del: sum.case_distrib simp: add_0 cong: sum.case_cong)
  show ?thesis
  proof (cases r)
    case (Inl e)
    with o show ?thesis
      by (auto simp: pbind_def on_locks_Done device_lock_post_def guard_post_def)
  next
    case (Inr xs)
    have "xs \<noteq> []"
      using o(3) Inr page_addresses_nonempty [OF assms(1), of d] by auto
    with o(3) Inr have "device_lock_post me hs (M, d) (on_locks (lock_all me xs) (M\<lparr>mc_locks := L\<rparr>, d))"
      using lock_all_post [of xs ?hs L me] by (intro on_locks_post o(2)) simp_all
    with o(1) Inr show ?thesis
      by (simp add: pbind_def on_locks_Done)
  qed
qed

lemma device_lock_locks:
  assumes "is_page_size (page_size (ev_kernel E))" "world_ok hs (M, d)"
  shows "device_lock_post me hs (M, d) (device_lock E me (M, d))"
proof -
  have refused: "device_lock_post me hs (M, d) (Done (Inl e, (M, d)))" for e
    using assms(2) by (simp add: device_lock_post_def guard_post_def world_ok_def)
  show ?thesis
    using base_lock_post [OF assms(2)] pages_lock_post [OF assms, where E = E] refused
    by (simp add: device_lock_def Let_def)
qed

section \<open>Stacks when guards come and go\<close>

lemma stack_ok_Nil [simp]: "stack_ok V []"
  by (simp add: stack_ok_def)

lemma stack_ok_append [simp]: "stack_ok V (gs @ hs) \<longleftrightarrow> stack_ok V gs \<and> stack_ok V hs"
  by (auto simp: stack_ok_def)

lemma taken_stack:
  assumes "taken me xs V V'" "stack_ok V gs"
  shows "stack_ok V' gs"
  unfolding stack_ok_def
proof
  fix g
  assume g: "g \<in> set gs"
  then obtain t where t: "held_list g \<noteq> []" "\<forall>a\<in>set (held_list g). owner_at V a = Some t"
    using assms(2) by (auto simp: stack_ok_def)
  have "owner_at V' a = Some t" if "a \<in> set (held_list g)" for a
    using assms(1) [unfolded taken_def, THEN spec, of a] t(2) that by (auto split: if_splits)
  with t(1) show "held_list g \<noteq> [] \<and> (\<exists>t. \<forall>a\<in>set (held_list g). owner_at V' a = Some t)"
    by blast
qed

lemma given_stack:
  assumes "given xs V V'" "stack_ok V gs"
    and "\<And>a. a \<in> set (concat (map held_list gs)) \<Longrightarrow> count_list xs a < depth_at V a"
  shows "stack_ok V' gs"
  unfolding stack_ok_def
proof
  fix g
  assume g: "g \<in> set gs"
  then obtain t where t: "held_list g \<noteq> []" "\<forall>a\<in>set (held_list g). owner_at V a = Some t"
    using assms(2) by (auto simp: stack_ok_def)
  have "owner_at V' a = Some t" if a: "a \<in> set (held_list g)" for a
  proof -
    have "count_list xs a < depth_at V a"
      using a g by (intro assms(3)) auto
    with assms(1) [unfolded given_def, THEN spec, of a] t(2) a show ?thesis by auto
  qed
  with t(1) show "held_list g \<noteq> [] \<and> (\<exists>t. \<forall>a\<in>set (held_list g). owner_at V' a = Some t)"
    by blast
qed

lemma drop_guards_given:
  assumes "locks_ok hs st" "\<And>a. count_list (concat (map held_list gs)) a \<le> depth_at (holdings st) a"
  shows "\<exists>st'. drop_guards gs st = Done st' \<and> locks_ok hs st'
    \<and> given (concat (map held_list gs)) (holdings st) (holdings st')"
  using assms
proof (induction gs arbitrary: st)
  case Nil
  then show ?case
    using given_Nil by (auto simp: locks_ok_def)
next
  case (Cons g gs)
  have le: "count_list (held_list g) a \<le> depth_at (holdings st) a" for a
    using Cons.prems(2) [of a] by simp
  from guard_drop_given [OF Cons.prems(1) le] obtain st1 where d: "guard_drop g st = Done st1"
    "locks_ok hs st1" "given (held_list g) (holdings st) (holdings st1)"
    by blast
  have "count_list (concat (map held_list gs)) a \<le> depth_at (holdings st1) a" for a
    using d(3) [unfolded given_def, THEN spec, of a] Cons.prems(2) [of a] by simp
  from Cons.IH [OF d(2) this] show ?case
    using d given_append [OF d(3)] by auto
qed

lemma others_guards:
  assumes "q \<noteq> p" "get_dev s q = Some y" "a \<in> set (concat (map held_list (md_guards y)))"
  shows "a \<in> set (others guard_locks p s)"
proof -
  have q: "q < length (ca_devs s)" "ca_devs s ! q = Some y"
    using assms(2) by (auto simp: get_dev_def split: if_splits)
  have "Some y \<in> set (take p (ca_devs s) @ drop (Suc p) (ca_devs s))"
  proof (cases "q < p")
    case True
    then have "take p (ca_devs s) ! q = Some y" "q < length (take p (ca_devs s))"
      using q by simp_all
    then show ?thesis
      by (metis UnCI in_set_conv_nth set_append)
  next
    case False
    then have "drop (Suc p) (ca_devs s) ! (q - Suc p) = Some y" "q - Suc p < length (drop (Suc p) (ca_devs s))"
      using q assms(1) by simp_all
    then show ?thesis
      by (metis UnCI in_set_conv_nth set_append)
  qed
  then have "guard_locks (Some y) \<in> set (map guard_locks (take p (ca_devs s) @ drop (Suc p) (ca_devs s)))"
    unfolding set_map by (rule imageI)
  moreover have "a \<in> set (guard_locks (Some y))"
    using assms(3) by (simp add: guard_locks_def)
  ultimately show ?thesis
    unfolding others_def set_concat by blast
qed

text \<open>The guards \<open>gone\<close> of the handle \<open>p\<close> are dropped, the guards \<open>kept\<close> stay.\<close>

lemma give_back:
  assumes "capi_ok E s" "get_dev s p = Some h" "md_guards h = kept @ gone"
  shows "\<exists>L. drop_guards gone (capi_heap s) = Done L
    \<and> locks_ok (dev_handles (md_device h) @ others dev_refs p s) L
    \<and> given (concat (map held_list gone)) (holdings (capi_heap s)) (holdings L)
    \<and> (\<forall>a. depth_at (holdings L) a
        = count_list (concat (map held_list kept)) a + count_list (others guard_locks p s) a)
    \<and> stack_ok (holdings L) kept
    \<and> (\<forall>q y. q \<noteq> p \<longrightarrow> get_dev s q = Some y \<longrightarrow> stack_ok (holdings L) (md_guards y))"
proof -
  note ok = capi_okD [OF assms(1,2)]
  let ?V = "holdings (capi_heap s)" and ?gone = "concat (map held_list gone)"
  have depth: "depth_at ?V a = count_list (concat (map held_list kept)) a + count_list ?gone a
      + count_list (others guard_locks p s) a" for a
    using ok(2) assms(3) by simp
  have "count_list ?gone a \<le> depth_at ?V a" for a
    by (simp add: depth)
  from drop_guards_given [OF ok(1) this] obtain L where L: "drop_guards gone (capi_heap s) = Done L"
    "locks_ok (dev_handles (md_device h) @ others dev_refs p s) L" "given ?gone ?V (holdings L)"
    by blast
  have "depth_at (holdings L) a
      = count_list (concat (map held_list kept)) a + count_list (others guard_locks p s) a" for a
    using L(3) [unfolded given_def, THEN spec, of a] depth [of a] by simp
  moreover have "stack_ok (holdings L) kept"
  proof (rule given_stack [OF L(3)])
    show "stack_ok ?V kept"
      using ok(3) assms(3) by (simp add: handle_ok_def)
    show "count_list ?gone a < depth_at ?V a" if "a \<in> set (concat (map held_list kept))" for a
      using that count_list_0_iff [of "concat (map held_list kept)" a] by (simp add: depth)
  qed
  moreover have "stack_ok (holdings L) (md_guards y)" if y: "q \<noteq> p" "get_dev s q = Some y" for q y
  proof (rule given_stack [OF L(3)])
    show "stack_ok ?V (md_guards y)"
      using capi_okD(3) [OF assms(1) y(2)] by (simp add: handle_ok_def)
    show "count_list ?gone a < depth_at ?V a" if "a \<in> set (concat (map held_list (md_guards y)))" for a
      using others_guards [OF y that] count_list_0_iff [of "others guard_locks p s" a] by (simp add: depth)
  qed
  ultimately show ?thesis
    using L by blast
qed

section \<open>The entry points keep the invariant\<close>

text \<open>The pointer is null or an open handle.\<close>

definition live :: "dev_ptr \<Rightarrow> 'h capi \<Rightarrow> bool" where
  "live dev s \<longleftrightarrow> (case dev of None \<Rightarrow> True | Some p \<Rightarrow> get_dev s p \<noteq> None)"

definition live_ok :: "'h capi_env \<Rightarrow> dev_ptr \<Rightarrow> 'h capi \<Rightarrow> bool" where
  "live_ok E dev s \<longleftrightarrow> capi_ok E s \<and> live dev s"

lemma keeps_c_fail [intro]: "keeps (live_ok E dev) (c_fail me code msg r)"
  by (simp add: keeps_def c_fail_def live_ok_def live_def split: option.split)

lemma keeps_invalid_arg [intro]: "keeps (live_ok E dev) (invalid_arg me msg r)"
  unfolding invalid_arg_def by (rule keeps_c_fail)

lemma keeps_ref_dev [intro]:
  "(\<And>p. dev = Some p \<Longrightarrow> keeps (live_ok E dev) (f p)) \<Longrightarrow> keeps (live_ok E dev) (pbind (ref_dev me dev r) f)"
proof (cases dev)
  case None
  have "pbind (ref_dev me None r) f = invalid_arg me ''NULL mmreg_dev pointer passed to mmreg.'' r"
    by (rule ext) (simp add: ref_dev_def pbind_def invalid_arg_def c_fail_def)
  with None show ?thesis
    by (simp only: keeps_invalid_arg)
next
  case (Some p)
  assume f: "\<And>p. dev = Some p \<Longrightarrow> keeps (live_ok E dev) (f p)"
  have "pbind (ref_dev me (Some p) r) f = f p"
    by (rule ext) (simp add: ref_dev_def pbind_def pret_def)
  with Some f [OF Some] show ?thesis by simp
qed

lemma keeps_device_call:
  assumes "capi_method E act" "ev_vt E = mock_vt" "dev = Some p"
  shows "keeps (live_ok E dev) (device_call me p act r)"
  unfolding keeps_def assms(3)
proof (intro allI impI)
  fix s
  assume "live_ok E (Some p) s"
  then obtain h where h: "capi_ok E s" "get_dev s p = Some h"
    by (auto simp: live_ok_def live_def)
  show "device_call me p act r s \<noteq> Panics
      \<and> (\<forall>x s'. device_call me p act r s = Done (x, s') \<longrightarrow> live_ok E (Some p) s')"
    using capi_method.call_keeps [OF assms(1,2) h, of me r] unfolding live_ok_def live_def option.case by blast
qed

lemma ffi_keeps:
  assumes "keeps good body" "good s"
  shows "ffi body s \<noteq> Panics \<and> (\<forall>r s'. ffi body s = Done (r, s') \<longrightarrow> good s')"
  using assms by (auto simp: keeps_def ffi_def split: run.splits sum.splits)

lemma keeps_impl_read:
  assumes "\<And>off. capi_method E (meth off)" "ev_vt E = mock_vt" "live_ok E dev s"
  shows "impl_c_read me meth dev off null s \<noteq> Panics
    \<and> (\<forall>r s'. impl_c_read me meth dev off null s = Done (r, s') \<longrightarrow> live_ok E dev s')"
proof -
  have "keeps (live_ok E dev) (if null then invalid_arg me msg (-1, None)
      else pbind (device_call me p (meth off) (-1, None)) (\<lambda>v. pret (0, Some v)))" if "dev = Some p" for p msg
    using that by (cases null) (auto intro!: keeps_device_call assms(1,2))
  then show ?thesis
    unfolding impl_c_read_def by (intro ffi_keeps [where good = "live_ok E dev"] keeps_ref_dev assms(3))
qed

lemma keeps_impl_write:
  assumes "\<And>off v. capi_method E (meth off v)" "ev_vt E = mock_vt" "live_ok E dev s"
  shows "impl_c_write me meth dev off v s \<noteq> Panics
    \<and> (\<forall>r s'. impl_c_write me meth dev off v s = Done (r, s') \<longrightarrow> live_ok E dev s')"
  unfolding impl_c_write_def
  by (intro ffi_keeps [where good = "live_ok E dev"] keeps_ref_dev keeps_pbind keeps_device_call keeps_pret
      assms)

text \<open>
  \<open>mmreg_lock\<close>. The handle after \<open>Device::lock\<close> returned: the device may have cached its page lock,
  and the guard, if there is one, is on top of the stack.
\<close>

definition after_lock :: "mmreg_dev \<Rightarrow> capi_mock device \<Rightarrow> mmreg_error + held \<Rightarrow> mmreg_dev" where
  "after_lock h d r = (case r of
       Inl _ \<Rightarrow> h\<lparr>md_device := d\<rparr> | Inr g \<Rightarrow> h\<lparr>md_device := d, md_guards := md_guards h @ [g]\<rparr>)"

lemma after_lock_ok:
  assumes "capi_ok E s" "get_dev s p = Some h"
    and "device_lock E me (ca_machine s, md_device h) = Done (r, (M, d))"
    and "device_lock_post me (others dev_refs p s) (ca_machine s, md_device h)
      (device_lock E me (ca_machine s, md_device h))"
  shows "capi_ok E (put_dev p (Some (after_lock h d r)) (s\<lparr>ca_machine := M\<rparr>))"
proof -
  let ?M = "ca_machine s" and ?h = "after_lock h d r"
  note ok = capi_okD [OF assms(1,2)]
  have M: "M = ?M\<lparr>mc_locks := mc_locks M\<rparr>" and d: "d = (md_device h)\<lparr>dv_base_page_lock := dv_base_page_lock d\<rparr>"
    and g: "guard_post me (dev_handles d @ others dev_refs p s) (mc_locks ?M) r (mc_locks M)"
    using assms(3,4) by (simp_all add: device_lock_post_def)
  have "dev_mapped E (\<lambda>_. True) mock_win
      (?M\<lparr>mc_locks := mc_locks M\<rparr>, (md_device h)\<lparr>dv_base_page_lock := dv_base_page_lock d\<rparr>)"
    using ok(3) by (simp add: handle_ok_def dev_mapped_locks)
  then have mapped: "dev_mapped E (\<lambda>_. True) mock_win (M, d)"
    by (simp only: M [symmetric] d [symmetric])
  define gs where "gs = (case r of Inl _ \<Rightarrow> [] | Inr x \<Rightarrow> [x])"
  have h: "md_device ?h = d" "md_guards ?h = md_guards h @ gs"
    by (simp_all add: after_lock_def gs_def split: sum.split)
  have t: "taken me (concat (map held_list gs)) (holdings (mc_locks ?M)) (holdings (mc_locks M))"
    using g by (cases r) (simp_all add: guard_post_def gs_def)
  have top: "stack_ok (holdings (mc_locks M)) gs"
    using g by (cases r) (auto simp: guard_post_def gs_def stack_ok_def taken_def)
  have locks: "locks_ok (dev_handles d @ others dev_refs p s) (mc_locks M)"
    using g by (simp add: guard_post_def)
  show ?thesis
  proof (rule capi_ok_put [OF assms(1,2)])
    show "depth_at (holdings (mc_locks M)) a = count_list (guard_locks (Some ?h)) a
        + count_list (others guard_locks p s) a" for a
      using t [unfolded taken_def, THEN spec, of a] ok(2) [of a] by (simp add: guard_locks_def h)
    show "handle_ok E M z" if "Some ?h = Some z" for z
      using that ok(3) taken_stack [OF t] top mapped by (auto simp: handle_ok_def h)
    show "stack_ok (holdings (mc_locks M)) (md_guards z)" if "get_dev s q = Some z" for q z
      using capi_okD(3) [OF assms(1) that] taken_stack [OF t] by (simp add: handle_ok_def)
  qed (use locks in \<open>simp_all add: dev_refs_def h\<close>)
qed

lemma mmreg_lock_Done:
  assumes "get_dev s p = Some h" "device_lock E me (ca_machine s, md_device h) = Done (r, (M, d))"
  shows "mmreg_lock E me (Some p) s = Done (case r of
      Inl e \<Rightarrow> (-1, set_mmreg_error me e (put_dev p (Some (after_lock h d r)) (s\<lparr>ca_machine := M\<rparr>)))
    | Inr g \<Rightarrow> (0, put_dev p (Some (after_lock h d r)) (s\<lparr>ca_machine := M\<rparr>)))"
  using assms get_dev_less [OF assms(1)]
  by (cases r) (simp_all add: mmreg_lock_def ffi_def pbind_def ref_dev_def pret_def device_call_def Let_def
      push_guard_def after_lock_def, simp add: put_dev_def)

lemma mmreg_lock_cases:
  assumes "is_page_size (page_size (ev_kernel E))" "capi_ok E s" "get_dev s p = Some h"
  obtains (failed) s' d where "mmreg_lock E me (Some p) s = Done (-1, s')" "capi_ok E s'"
      "get_dev s' p = Some (h\<lparr>md_device := d\<rparr>)" "holdings (capi_heap s') = holdings (capi_heap s)"
    | (locked) s' d g L where "mmreg_lock E me (Some p) s = Done (0, s')" "capi_ok E s'"
      "get_dev s' p = Some (h\<lparr>md_device := d, md_guards := md_guards h @ [g]\<rparr>)"
      "held_list g \<noteq> []" "\<forall>a\<in>set (held_list g). owner_at (holdings (capi_heap s')) a = Some me"
      "guard_drop g (capi_heap s') = Done L" "holdings L = holdings (capi_heap s)"
    | (waits) "mmreg_lock E me (Some p) s = Blocks"
proof -
  let ?w = "(ca_machine s, md_device h)"
  have "world_ok (others dev_refs p s) ?w"
    using capi_okD(1) [OF assms(2,3)] by (simp add: world_ok_def)
  note post = device_lock_locks [OF assms(1) this, of me]
  show ?thesis
  proof (cases "device_lock E me ?w")
    case (Done y)
    then obtain r M d where y: "device_lock E me ?w = Done (r, (M, d))"
      by (cases y) auto
    have g: "guard_post me (dev_handles d @ others dev_refs p s) (capi_heap s) r (mc_locks M)"
      using post y by (simp add: device_lock_post_def)
    let ?s = "put_dev p (Some (after_lock h d r)) (s\<lparr>ca_machine := M\<rparr>)"
    note step = mmreg_lock_Done [OF assms(3) y] after_lock_ok [OF assms(2,3) y post] get_dev_less [OF assms(3)]
    show ?thesis
    proof (cases r)
      case (Inl e)
      with step g show ?thesis
        by (intro failed [where s' = "set_mmreg_error me e ?s" and d = d]) (simp_all add: guard_post_def after_lock_def)
    next
      case (Inr gd)
      with g obtain L where "guard_drop gd (mc_locks M) = Done L" "holdings L = holdings (capi_heap s)"
        by (auto simp: guard_post_def)
      with step g Inr show ?thesis
        by (intro locked [where s' = ?s and d = d and g = gd and L = L]) (auto simp: guard_post_def after_lock_def taken_def)
    qed
  next
    case Blocks
    with assms(3) show ?thesis
      by (intro waits) (simp add: mmreg_lock_def ffi_def pbind_def ref_dev_def pret_def device_call_def)
  qed (use post in \<open>simp add: device_lock_post_def\<close>)
qed

text \<open>\<open>mmreg_unlock\<close>.\<close>

lemma put_dev_machine: "put_dev p x (s\<lparr>ca_machine := M\<rparr>) = (put_dev p x s)\<lparr>ca_machine := M\<rparr>"
  by (simp add: put_dev_def)

lemma mmreg_unlock_cases:
  assumes "capi_ok E s" "get_dev s p = Some h"
  obtains (refused) msg where "mmreg_unlock me (Some p) s = Done (-1, set_error me ''E_LOCK_ACQUIRE'' msg s)"
      "md_guards h \<noteq> [] \<longrightarrow> (\<exists>a\<in>set (held_list (last (md_guards h))). owner_at (holdings (capi_heap s)) a \<noteq> Some me)"
    | (unlocked) gs g L where "md_guards h = gs @ [g]" "\<forall>a\<in>set (held_list g). owner_at (holdings (capi_heap s)) a = Some me"
      "guard_drop g (capi_heap s) = Done L"
      "mmreg_unlock me (Some p) s = Done (0, put_dev p (Some (h\<lparr>md_guards := gs\<rparr>))
        (s\<lparr>ca_machine := (ca_machine s)\<lparr>mc_locks := L\<rparr>\<rparr>))"
      "capi_ok E (put_dev p (Some (h\<lparr>md_guards := gs\<rparr>)) (s\<lparr>ca_machine := (ca_machine s)\<lparr>mc_locks := L\<rparr>\<rparr>))"
proof -
  note ok = capi_okD [OF assms]
  have heap: "lock_ok (dev_handles (md_device h) @ others dev_refs p s) (capi_heap s)"
    using ok(1) by (simp add: locks_ok_def)
  show ?thesis
  proof (cases "md_guards h = []")
    case True
    with assms(2) show ?thesis
      by (intro refused) (simp_all add: mmreg_unlock_def ffi_def pbind_def ref_dev_def pret_def pop_guard_def c_fail_def)
  next
    case False
    then obtain gs g where gs: "md_guards h = gs @ [g]"
      by (metis append_butlast_last_id)
    show ?thesis
    proof (cases "\<forall>a\<in>set (held_list g). owner_at (holdings (capi_heap s)) a = Some me")
      case False
      with gs assms(2) show ?thesis
        by (intro refused) (auto simp: mmreg_unlock_def ffi_def pbind_def ref_dev_def pret_def pop_guard_def c_fail_def
            is_owned_list [OF heap])
    next
      case True
      from give_back [OF assms gs] obtain L where L: "guard_drop g (capi_heap s) = Done L"
        "locks_ok (dev_handles (md_device h) @ others dev_refs p s) L"
        "\<And>a. depth_at (holdings L) a = count_list (concat (map held_list gs)) a + count_list (others guard_locks p s) a"
        "stack_ok (holdings L) gs"
        "\<And>q y. q \<noteq> p \<Longrightarrow> get_dev s q = Some y \<Longrightarrow> stack_ok (holdings L) (md_guards y)"
        by (auto split: run.splits)
      have "capi_ok E (put_dev p (Some (h\<lparr>md_guards := gs\<rparr>)) (s\<lparr>ca_machine := (ca_machine s)\<lparr>mc_locks := L\<rparr>\<rparr>))"
      proof (rule capi_ok_put [OF assms])
        show "handle_ok E ((ca_machine s)\<lparr>mc_locks := L\<rparr>) z" if "Some (h\<lparr>md_guards := gs\<rparr>) = Some z" for z
          using that ok(3) L(4) by (auto simp: handle_ok_def dev_mapped_machine [of E _ _ "(ca_machine s)\<lparr>mc_locks := L\<rparr>" _ "ca_machine s"])
      qed (use L in \<open>simp_all add: dev_refs_def guard_locks_def\<close>)
      moreover have "mmreg_unlock me (Some p) s = Done (0, put_dev p (Some (h\<lparr>md_guards := gs\<rparr>))
          (s\<lparr>ca_machine := (ca_machine s)\<lparr>mc_locks := L\<rparr>\<rparr>))"
        using True gs L(1) assms(2)
        by (simp add: mmreg_unlock_def ffi_def pbind_def ref_dev_def pret_def pop_guard_def is_owned_list [OF heap]
            put_dev_machine)
      ultimately show ?thesis
        using True gs L(1) by (intro unlocked)
    qed
  qed
qed

text \<open>\<open>mmreg_close\<close>: every lock of the handle is given back.\<close>

lemma mmreg_close_keeps:
  assumes "capi_ok E s" "live dev s"
  shows "\<exists>s'. mmreg_close dev s = Done ((), s') \<and> capi_ok E s' \<and> (\<forall>p. dev = Some p \<longrightarrow> get_dev s' p = None)"
proof (cases dev)
  case (Some p)
  with assms(2) obtain h where h: "get_dev s p = Some h"
    by (auto simp: live_def)
  have all: "md_guards h = [] @ md_guards h"
    by simp
  from give_back [OF assms(1) h all] obtain L where L: "drop_guards (md_guards h) (capi_heap s) = Done L"
    "locks_ok (dev_handles (md_device h) @ others dev_refs p s) L"
    "\<And>a. depth_at (holdings L) a = count_list (others guard_locks p s) a"
    "\<And>q y. q \<noteq> p \<Longrightarrow> get_dev s q = Some y \<Longrightarrow> stack_ok (holdings L) (md_guards y)"
    by auto
  let ?M = "device_drop ((ca_machine s)\<lparr>mc_locks := L\<rparr>, md_device h)"
  have "world_ok (others dev_refs p s) ((ca_machine s)\<lparr>mc_locks := L\<rparr>, md_device h)"
    using L(2) by (simp add: world_ok_def)
  note d = device_drop_locks [OF this]
  have "capi_ok E (put_dev p None (s\<lparr>ca_machine := ?M\<rparr>))"
    by (rule capi_ok_put [OF assms(1) h]) (use d L in \<open>simp_all add: dev_refs_def guard_locks_def\<close>)
  then show ?thesis
    using h L(1) Some get_dev_less [OF h] by (simp add: mmreg_close_def)
qed (use assms(1) in \<open>simp add: mmreg_close_def\<close>)

text \<open>Opening.\<close>

lemma live_ok_None: "live_ok E None s = capi_ok E s"
  by (simp add: live_ok_def live_def)

lemma capi_builder_simps [simp]:
  "bd_profile (capi_builder b fl) = bd_profile b"
  by (simp add: capi_builder_def with_custom_mapper_def with_force_def with_read_only_def with_region_def Let_def
      split: prod.split)

lemma capi_ok_locks:
  assumes "capi_ok E s" "locks_ok (all_refs s) (mc_locks M)" "holdings (mc_locks M) = holdings (capi_heap s)"
  shows "capi_ok E (s\<lparr>ca_machine := M\<rparr>)"
  using assms handle_ok_machine [OF _ assms(3)] by (auto simp: capi_ok_def all_refs_def all_guards_def)

lemma into_raw_ok:
  assumes "capi_ok E s" "locks_ok (dev_handles d @ all_refs s) (mc_locks M)"
    and "holdings (mc_locks M) = holdings (capi_heap s)" "dev_mapped E (\<lambda>_. True) mock_win (M, d)"
  shows "capi_ok E (snd (into_raw (mmreg_dev_new d) M s))"
proof -
  have "locks_ok (all_refs s @ dev_handles d) (mc_locks M)"
    using assms(2) locks_ok_perm [of "dev_handles d @ all_refs s" "all_refs s @ dev_handles d" "mc_locks M"] by simp
  then show ?thesis
    using assms(1,3,4) handle_ok_machine [OF _ assms(3)]
    by (auto simp: capi_ok_def into_raw_def mmreg_dev_new_def all_refs_def all_guards_def dev_refs_def
        guard_locks_def handle_ok_def)
qed

lemma open_failed_ok: "\<exists>r s'. open_failed me mock e s = Done (r, s') \<and> capi_ok E s' = capi_ok E s"
  by (cases e) (simp_all add: open_failed_def invalid_arg_def c_fail_def)

lemma open_result_ok:
  assumes "is_page_size (page_size (ev_kernel E))" "ev_vt E = mock_vt" "capi_ok E s"
  shows "\<exists>r s'. open_result me mock (open_window E b (ca_machine s)) s = Done (r, s') \<and> capi_ok E s'"
proof -
  have locks: "locks_ok (all_refs s) (capi_heap s)"
    using assms(3) by (simp add: capi_ok_def)
  have vt: "memory_mapper (\<lambda>_. True) mock_win (ev_vt E)"
    unfolding assms(2) by (rule mock.memory_mapper_axioms)
  obtain r M where o: "open_window E b (ca_machine s) = Done (r, M)"
    using open_window_runs [OF locks] by blast
  show ?thesis
  proof (cases r)
    case (Inl e)
    from open_window_failed [OF o [unfolded Inl] locks] have "capi_ok E (s\<lparr>ca_machine := M\<rparr>)"
      by (intro capi_ok_locks [OF assms(3)])
    with open_failed_ok [of me mock e "s\<lparr>ca_machine := M\<rparr>" E] o Inl show ?thesis
      by (auto simp: open_result_def)
  next
    case (Inr d)
    have "dev_mapped E (\<lambda>_. True) mock_win (M, d) \<and> world_ok (all_refs s) (M, d)
        \<and> holders (M, d) = holdings (capi_heap s)"
      using opened_device [OF vt assms(1) _ locks o [unfolded Inr]] by (simp split: option.split)
    then have "capi_ok E (snd (into_raw (mmreg_dev_new d) M s))"
      by (intro into_raw_ok [OF assms(3)]) (simp_all add: world_ok_def holders_def)
    with o Inr show ?thesis
      by (cases "into_raw (mmreg_dev_new d) M s") (simp add: open_result_def)
  qed
qed

lemma keeps_parse_flags: "keeps (live_ok E None) (parse_flags me flags r)"
  by (auto simp: parse_flags_def Let_def)

lemma keeps_open:
  assumes "is_page_size (page_size (ev_kernel E))" "ev_vt E = mock_vt" "bd_profile b = None"
  shows "keeps (live_ok E None) (open_with_builder E me b flags allow)"
  unfolding open_with_builder_def
proof (intro keeps_pbind keeps_parse_flags)
  fix fl :: "bool \<times> bool \<times> bool \<times> usize"
  obtain ro f m ix where fl: "fl = (ro, f, m, ix)"
    by (cases fl) auto
  have eq: "device_open E me (capi_builder b fl) = open_window E (capi_builder b fl)"
    by (simp add: device_open_def assms(3))
  have "keeps (live_ok E None) (\<lambda>s. open_result me m (device_open E me (capi_builder b fl) (ca_machine s)) s)"
    unfolding keeps_def live_ok_None eq
  proof (intro allI impI)
    fix s
    assume "capi_ok E s"
    from open_result_ok [OF assms(1,2) this, of me m "capi_builder b fl"]
    show "open_result me m (open_window E (capi_builder b fl) (ca_machine s)) s \<noteq> Panics
      \<and> (\<forall>r s'. open_result me m (open_window E (capi_builder b fl) (ca_machine s)) s = Done (r, s') \<longrightarrow> capi_ok E s')"
      by auto
  qed
  then show "keeps (live_ok E None) (case fl of (read_only, force, mock, region_index) \<Rightarrow>
       if \<not> allow \<and> region_index \<noteq> 0 then
         invalid_arg me ''MMREG_REGION(n) is only valid with mmreg_open_uio / mmreg_open_uio_path.'' None
       else (\<lambda>s. open_result me mock
         (device_open E me (capi_builder b (read_only, force, mock, region_index)) (ca_machine s)) s))"
    unfolding fl prod.case by (simp only: keeps_invalid_arg split: if_split) simp
qed

end
