(* ===== verification/CapiRuns.thy ===== *)
theory CapiRuns
  imports CapiSpec
begin

text \<open>
  Whole runs of a process that uses the C interface: calls of any threads in any order, with the
  hardware, the files and the locks of other processes changing in between. \<open>capi_reach\<close> are the
  states of these runs; the properties are the safety of every call and the discipline of
  \<open>mmreg_lock\<close> and \<open>mmreg_unlock\<close>.
\<close>

section \<open>Calls\<close>

text \<open>The entry points with their arguments and, for the interrupts, the answers of the kernel.\<close>

datatype capi_call =
    COpenUio cstr u32
  | COpenPath cstr u32
  | COpenAddr u64 usize u32
  | CClose dev_ptr
  | CFindUio cstr bool usize
  | CRd8 dev_ptr u32 bool
  | CRd16 dev_ptr u32 bool
  | CRd32 dev_ptr u32 bool
  | CRd64 dev_ptr u32 bool
  | CWr8 dev_ptr u32 u8
  | CWr16 dev_ptr u32 u16
  | CWr32 dev_ptr u32 u32
  | CWr64 dev_ptr u32 u64
  | CUpdate32 dev_ptr u32 u32 u32 bool
  | CLock dev_ptr
  | CUnlock dev_ptr
  | CIrqUnmask dev_ptr "(io_error + nat) list"
  | CIrqWait dev_ptr u64 bool nat "poll_turn list" "(io_error + string) list"
  | CBaseAddress dev_ptr
  | CSize dev_ptr
  | CWarningCount dev_ptr
  | CWarning dev_ptr usize
  | CClearError

text \<open>The handle that a call is given.\<close>

fun call_dev :: "capi_call \<Rightarrow> dev_ptr" where
  "call_dev (CClose d) = d"
| "call_dev (CRd8 d _ _) = d"
| "call_dev (CRd16 d _ _) = d"
| "call_dev (CRd32 d _ _) = d"
| "call_dev (CRd64 d _ _) = d"
| "call_dev (CWr8 d _ _) = d"
| "call_dev (CWr16 d _ _) = d"
| "call_dev (CWr32 d _ _) = d"
| "call_dev (CWr64 d _ _) = d"
| "call_dev (CUpdate32 d _ _ _ _) = d"
| "call_dev (CLock d) = d"
| "call_dev (CUnlock d) = d"
| "call_dev (CIrqUnmask d _) = d"
| "call_dev (CIrqWait d _ _ _ _ _) = d"
| "call_dev (CBaseAddress d) = d"
| "call_dev (CSize d) = d"
| "call_dev (CWarningCount d) = d"
| "call_dev (CWarning d _) = d"
| "call_dev _ = None"

text \<open>The state after a call.\<close>

fun after :: "('a \<times> 's) run \<Rightarrow> 's run" where
  "after (Done (_, s)) = Done s"
| "after Blocks = Blocks"
| "after Panics = Panics"

fun capi_run :: "'h capi_env \<Rightarrow> thread \<Rightarrow> capi_call \<Rightarrow> 'h capi \<Rightarrow> 'h capi run" where
  "capi_run E me (COpenUio nm fl) s = after (mmreg_open_uio E me nm fl s)"
| "capi_run E me (COpenPath p fl) s = after (mmreg_open_uio_path E me p fl s)"
| "capi_run E me (COpenAddr b sz fl) s = after (mmreg_open_addr E me b sz fl s)"
| "capi_run E me (CClose d) s = after (mmreg_close d s)"
| "capi_run E me (CFindUio nm bn n) s = after (mmreg_find_uio me nm bn n s)"
| "capi_run E me (CRd8 d off n) s = after (mmreg_rd8 E me d off n s)"
| "capi_run E me (CRd16 d off n) s = after (mmreg_rd16 E me d off n s)"
| "capi_run E me (CRd32 d off n) s = after (mmreg_rd32 E me d off n s)"
| "capi_run E me (CRd64 d off n) s = after (mmreg_rd64 E me d off n s)"
| "capi_run E me (CWr8 d off v) s = after (mmreg_wr8 E me d off v s)"
| "capi_run E me (CWr16 d off v) s = after (mmreg_wr16 E me d off v s)"
| "capi_run E me (CWr32 d off v) s = after (mmreg_wr32 E me d off v s)"
| "capi_run E me (CWr64 d off v) s = after (mmreg_wr64 E me d off v s)"
| "capi_run E me (CUpdate32 d off m v n) s = after (mmreg_update32 E me d off m v n s)"
| "capi_run E me (CLock d) s = after (mmreg_lock E me d s)"
| "capi_run E me (CUnlock d) s = after (mmreg_unlock me d s)"
| "capi_run E me (CIrqUnmask d as) s = after (mmreg_irq_unmask me d as s)"
| "capi_run E me (CIrqWait d ms n t0 turns rs) s = after (mmreg_irq_wait me d ms n t0 turns rs s)"
| "capi_run E me (CBaseAddress d) s = after (mmreg_base_address d s)"
| "capi_run E me (CSize d) s = after (mmreg_size d s)"
| "capi_run E me (CWarningCount d) s = after (mmreg_warning_count d s)"
| "capi_run E me (CWarning d i) s = after (mmreg_warning d i s)"
| "capi_run E me CClearError s = Done (mmreg_clear_error me s)"

text \<open>What a call must not do, and what it keeps.\<close>

definition call_safe :: "'h capi_env \<Rightarrow> 'h capi run \<Rightarrow> bool" where
  "call_safe E r \<longleftrightarrow> (case r of Done s \<Rightarrow> capi_ok E s | Blocks \<Rightarrow> True | Panics \<Rightarrow> False)"

lemma call_safe_after:
  "m \<noteq> Panics \<and> (\<forall>r s'. m = Done (r, s') \<longrightarrow> live_ok E dev s') \<Longrightarrow> call_safe E (after m)"
  by (cases m) (auto simp: call_safe_def live_ok_def)

lemma call_safe_ffi: "keeps (live_ok E dev) body \<Longrightarrow> live_ok E dev s \<Longrightarrow> call_safe E (after (ffi body s))"
  by (rule call_safe_after [OF ffi_keeps])

section \<open>Every call is safe\<close>

lemma keeps_cstr [intro]:
  "(\<And>n. keeps (live_ok E dev) (f n)) \<Longrightarrow> keeps (live_ok E dev) (pbind (cstr_to_str me nm l r) f)"
  by (rule keeps_pbind) (auto simp: cstr_to_str_def split: option.split)

lemma call_safe_find: "capi_ok E s \<Longrightarrow> call_safe E (after (mmreg_find_uio me nm bn n s))"
  unfolding mmreg_find_uio_def
proof (intro call_safe_ffi [where dev = None] keeps_cstr)
  have look: "keeps (live_ok E None) (\<lambda>s. case find_uio (mc_fs (ca_machine s)) x of
      Inr p \<Rightarrow> f p s | Inl e \<Rightarrow> Done (g e, set_mmreg_error me e s))"
    if "\<And>p. keeps (live_ok E None) (f p)" for x f g
    using that unfolding keeps_def live_ok_None by (auto split: sum.splits)
  show "keeps (live_ok E None) (if bn then invalid_arg me ''NULL 'buf' pointer passed to mmreg_find_uio.'' (-1, None)
      else (\<lambda>s. case find_uio (mc_fs (ca_machine s)) x of
         Inr p \<Rightarrow>
           (let needed = saturating_add (of_nat (length p)) 1 :: usize
            in if needed > n then
                 c_fail me ''E_BUFFER_TOO_SMALL'' (''[E_BUFFER_TOO_SMALL] Buffer of '' @ dec_w n
                   @ '' bytes is too small for UIO path '' @ sq p @ '' ('' @ dec_w needed @ '' bytes needed).'')
                   (-1, None) s
               else Done (Inr (0, Some p), s))
       | Inl e \<Rightarrow> Done (Inr (-1, None), set_mmreg_error me e s)))" for x
    by (cases bn; simp only: if_True if_False keeps_invalid_arg)
      (rule look, simp add: keeps_def live_ok_None c_fail_def Let_def split: if_split)
qed (simp add: live_ok_None)

lemma call_safe_open:
  assumes "is_page_size (page_size (ev_kernel E))" "ev_vt E = mock_vt" "capi_ok E s"
  shows "call_safe E (after (mmreg_open_uio E me nm fl s))"
    and "call_safe E (after (mmreg_open_uio_path E me nm fl s))"
    and "call_safe E (after (mmreg_open_addr E me b sz fl s))"
  unfolding mmreg_open_uio_def mmreg_open_uio_path_def mmreg_open_addr_def
  by (intro call_safe_ffi [where dev = None] keeps_cstr keeps_open assms(1,2);
      simp add: builder_new_def live_ok_None assms(3))+

lemma call_safe_get: "capi_ok E s \<Longrightarrow> live d s \<Longrightarrow> call_safe E (after (dev_get f x d s))"
  by (auto simp: dev_get_def call_safe_def live_def split: option.splits)

lemma call_safe_lock:
  assumes "is_page_size (page_size (ev_kernel E))" "capi_ok E s" "live d s"
  shows "call_safe E (after (mmreg_lock E me d s))"
proof (cases d)
  case None
  have "keeps (live_ok E None) (pbind (ref_dev me None (-1)) (\<lambda>p.
     pbind (device_call me p (device_lock E me) (-1)) (\<lambda>g. pbind (push_guard p g) (\<lambda>_. pret 0))))"
    by (rule keeps_ref_dev) simp
  with None assms(2) show ?thesis
    unfolding mmreg_lock_def by (intro call_safe_ffi [where dev = None]) (simp_all add: live_ok_None)
next
  case (Some p)
  with assms(3) obtain h where h: "get_dev s p = Some h"
    by (auto simp: live_def)
  from assms(1,2) h show ?thesis
    unfolding Some by (cases rule: mmreg_lock_cases [where me = me]) (simp_all add: call_safe_def)
qed

lemma call_safe_unlock:
  assumes "capi_ok E s" "live d s"
  shows "call_safe E (after (mmreg_unlock me d s))"
proof (cases d)
  case None
  with assms(1) show ?thesis
    by (simp add: mmreg_unlock_def ffi_def pbind_def ref_dev_def invalid_arg_def c_fail_def call_safe_def)
next
  case (Some p)
  with assms(2) obtain h where h: "get_dev s p = Some h"
    by (auto simp: live_def)
  from assms(1) h show ?thesis
    unfolding Some by (cases rule: mmreg_unlock_cases [where me = me]) (use assms(1) in \<open>simp_all add: call_safe_def\<close>)
qed

lemma capi_run_safe:
  assumes "is_page_size (page_size (ev_kernel E))" "ev_vt E = mock_vt" "capi_ok E s" "live (call_dev c) s"
  shows "call_safe E (capi_run E me c s)"
proof -
  have l: "live_ok E (call_dev c) s"
    using assms(3,4) by (simp add: live_ok_def)
  note io = keeps_impl_read [OF _ assms(2), THEN call_safe_after] keeps_impl_write [OF _ assms(2), THEN call_safe_after]
  note methods = c_rd8.capi_method_axioms c_rd16.capi_method_axioms c_rd32.capi_method_axioms
    c_rd64.capi_method_axioms c_wr8.capi_method_axioms c_wr16.capi_method_axioms
    c_wr32.capi_method_axioms c_wr64.capi_method_axioms
  note accesses = mmreg_rd8_def mmreg_rd16_def mmreg_rd32_def mmreg_rd64_def mmreg_wr8_def mmreg_wr16_def
    mmreg_wr32_def mmreg_wr64_def
  show ?thesis
  proof (cases c)
    case (CClose d)
    with mmreg_close_keeps [OF assms(3), of d] assms(4) show ?thesis
      by (auto simp: call_safe_def)
  next
    case (CUpdate32 d off m v n)
    with l show ?thesis
      by (auto simp: mmreg_update32_def intro!: call_safe_ffi [where dev = d] keeps_device_call
          c_update.capi_method_axioms assms(2))
  next
    case (CIrqUnmask d "as")
    with l show ?thesis
      by (auto simp: mmreg_irq_unmask_def intro!: call_safe_ffi [where dev = d] keeps_device_call
          c_irq.capi_method_axioms assms(2))
  next
    case (CIrqWait d ms n t0 turns rs)
    with l show ?thesis
      by (auto simp: mmreg_irq_wait_def intro!: call_safe_ffi [where dev = d] keeps_ref_dev keeps_pbind
          keeps_device_call c_irq.capi_method_axioms assms(2) split: option.split)
  next
    case CClearError
    with assms(3) show ?thesis
      by (simp add: call_safe_def mmreg_clear_error_def capi_ok_def all_refs_def all_guards_def)
  qed (use l assms in \<open>auto simp: accesses mmreg_base_address_def mmreg_size_def mmreg_warning_count_def
      mmreg_warning_def intro: call_safe_open call_safe_find call_safe_get call_safe_lock call_safe_unlock io methods\<close>)
qed

section \<open>Runs\<close>

text \<open>
  A process starts without handles and without locks. A thread may call any entry point with the
  null pointer or an open handle; a call that waits or aborts has no next state. Between two calls
  the hardware, the files, the files that other processes hold and the errors to come may change.
\<close>

definition world_change ::
  "'h \<Rightarrow> fs \<Rightarrow> file_key set \<Rightarrow> (file_key \<Rightarrow> io_error list) \<Rightarrow> 'h capi \<Rightarrow> 'h capi"
where
  "world_change hw F K X s = s\<lparr>ca_machine := \<lparr>mc_hw = hw, mc_fs = F,
     mc_locks = (capi_heap s)\<lparr>lh_foreign := K, lh_flock_errs := X\<rparr>\<rparr>\<rparr>"

inductive capi_reach :: "'h capi_env \<Rightarrow> 'h capi \<Rightarrow> bool" for E where
  capi_start: "ca_devs s = [] \<Longrightarrow> lh_locks (capi_heap s) = [] \<Longrightarrow> lh_registry (capi_heap s) = []
    \<Longrightarrow> capi_reach E s"
| capi_step: "capi_reach E s \<Longrightarrow> live (call_dev c) s \<Longrightarrow> capi_run E me c s = Done s' \<Longrightarrow> capi_reach E s'"
| capi_world: "capi_reach E s \<Longrightarrow> capi_reach E (world_change hw F K X s)"

lemma capi_start_ok:
  assumes "ca_devs s = []" "lh_locks (capi_heap s) = []" "lh_registry (capi_heap s) = []"
  shows "capi_ok E s"
proof -
  have "get_lock (capi_heap s) = (\<lambda>_. None)"
    using assms(2) by (auto simp: get_lock_def)
  then have "holdings (capi_heap s) = (\<lambda>_. None)" "locks_ok [] (capi_heap s)"
    using assms(3) by (simp_all add: fun_eq_iff holdings_def locks_ok_def lock_ok_def reg_ok_def)
  with assms(1) show ?thesis
    by (simp add: capi_ok_def all_refs_def all_guards_def depth_at_def)
qed

lemma capi_world_ok: "capi_ok E s \<Longrightarrow> capi_ok E (world_change hw F K X s)"
proof -
  assume ok: "capi_ok E s"
  let ?L = "(capi_heap s)\<lparr>lh_foreign := K, lh_flock_errs := X\<rparr>"
  have g: "get_lock ?L = get_lock (capi_heap s)"
    by (simp add: get_lock_def fun_eq_iff)
  then have "holdings ?L = holdings (capi_heap s)" "locks_ok (all_refs s) ?L"
    using ok by (simp_all add: fun_eq_iff holdings_def locks_ok_def lock_ok_def reg_ok_def capi_ok_def)
  with capi_ok_locks [OF ok, of "\<lparr>mc_hw = hw, mc_fs = F, mc_locks = ?L\<rparr>"] show ?thesis
    by (simp add: world_change_def)
qed

lemma capi_reach_ok:
  assumes "capi_reach E s" "is_page_size (page_size (ev_kernel E))" "ev_vt E = mock_vt"
  shows "capi_ok E s"
  using assms(1)
proof induction
  case (capi_step s c me s')
  from capi_run_safe [OF assms(2,3) capi_step.IH capi_step.hyps(2), of me] capi_step.hyps(3)
  show ?case by (simp add: call_safe_def)
qed (simp_all add: capi_start_ok capi_world_ok)

section \<open>Safety\<close>

text \<open>
  C24: a process that gives the interface only null pointers and open handles never aborts in it,
  whatever its threads call, in whatever order, and whatever the hardware, the files and the other
  processes do. In every state of such a run each lock is exactly as deep as the guards on the
  stacks of the open handles, and the locks of one guard belong to one thread.
\<close>

theorem capi_runs_safe:
  assumes "is_page_size (page_size (ev_kernel E))" "ev_vt E = mock_vt" "capi_reach E s"
  shows "(\<forall>me c. live (call_dev c) s \<longrightarrow> capi_run E me c s \<noteq> Panics)
    \<and> (\<forall>a. depth_at (holdings (capi_heap s)) a = count_list (all_guards s) a)
    \<and> (\<forall>p h g. get_dev s p = Some h \<longrightarrow> g \<in> set (md_guards h)
        \<longrightarrow> (\<exists>t. \<forall>a\<in>set (held_list g). owner_at (holdings (capi_heap s)) a = Some t))"
proof -
  have ok: "capi_ok E s"
    by (rule capi_reach_ok [OF assms(3,1,2)])
  have "capi_run E me c s \<noteq> Panics" if "live (call_dev c) s" for me c
    using capi_run_safe [OF assms(1,2) ok that, of me] by (auto simp: call_safe_def)
  moreover have "\<exists>t. \<forall>a\<in>set (held_list g). owner_at (holdings (capi_heap s)) a = Some t"
    if "get_dev s p = Some h" "g \<in> set (md_guards h)" for p h g
    using capi_okD(3) [OF ok that(1)] that(2) by (simp add: handle_ok_def stack_ok_def)
  ultimately show ?thesis
    using ok by (simp add: capi_ok_def)
qed

section \<open>Locking\<close>

text \<open>
  C25: the discipline of \<open>mmreg_lock\<close> and \<open>mmreg_unlock\<close>. When the first returns, it returned 0 and
  pushed one guard, or -1 and changed neither the stack nor a lock. After a 0 the same thread's
  unlock returns 0, takes that guard from the stack and leaves every lock as it was before the pair;
  any other thread's unlock returns -1 and changes nothing but that thread's last error.
\<close>

theorem capi_lock_discipline:
  assumes "is_page_size (page_size (ev_kernel E))" "ev_vt E = mock_vt" "capi_reach E s"
    and "get_dev s p = Some h" "mmreg_lock E me (Some p) s = Done (r, s')"
  shows "r = 0 \<and> (\<exists>h' g. get_dev s' p = Some h' \<and> md_guards h' = md_guards h @ [g])
      \<and> (\<exists>s'' h'. mmreg_unlock me (Some p) s' = Done (0, s'') \<and> get_dev s'' p = Some h'
          \<and> md_guards h' = md_guards h \<and> holdings (capi_heap s'') = holdings (capi_heap s))
      \<and> (\<forall>t. t \<noteq> me \<longrightarrow> (\<exists>msg. mmreg_unlock t (Some p) s' = Done (-1, set_error t ''E_LOCK_ACQUIRE'' msg s')))
    \<or> r = -1 \<and> (\<exists>h'. get_dev s' p = Some h' \<and> md_guards h' = md_guards h)
      \<and> holdings (capi_heap s') = holdings (capi_heap s)"
proof -
  have ok: "capi_ok E s"
    by (rule capi_reach_ok [OF assms(3,1,2)])
  show ?thesis
    using assms(1) ok assms(4)
  proof (cases rule: mmreg_lock_cases [where me = me])
    case (locked t1 d g L)
    let ?h = "h\<lparr>md_device := d, md_guards := md_guards h @ [g]\<rparr>"
    have t1: "t1 = s'" "r = 0"
      using locked(1) assms(5) by simp_all
    note at = locked(2,3) [unfolded t1]
    have me: "\<exists>s''. mmreg_unlock me (Some p) s' = Done (0, s'') \<and> get_dev s'' p = Some (?h\<lparr>md_guards := md_guards h\<rparr>)
        \<and> holdings (capi_heap s'') = holdings (capi_heap s)"
      using at
    proof (cases rule: mmreg_unlock_cases [where me = me])
      case (unlocked gs g' L')
      with locked(6,7) get_dev_less [OF at(2)] t1 show ?thesis by simp
    qed (use locked(5) t1 in auto)
    have other: "\<exists>msg. mmreg_unlock t (Some p) s' = Done (-1, set_error t ''E_LOCK_ACQUIRE'' msg s')"
      if "t \<noteq> me" for t
      using at
    proof (cases rule: mmreg_unlock_cases [where me = t])
      case (unlocked gs g' L')
      with locked(4,5) that t1 show ?thesis by (cases "held_list g") auto
    qed blast
    from at(2) me other t1(2) show ?thesis by auto
  qed (use assms(5) in auto)
qed

section \<open>A concrete run\<close>

text \<open>A process on a machine without files opens a mock window of 32 bytes at \<open>0xA0000010\<close>.\<close>

definition capi_sample_env :: "(u64 \<Rightarrow> nat) capi_env" where
  "capi_sample_env = \<lparr>ev_kernel = flat_kernel, ev_lock = sample_lock_env, ev_debug = True, ev_vt = mock_vt\<rparr>"

definition capi_sample_start :: "(u64 \<Rightarrow> nat) capi" where
  "capi_sample_start = \<lparr>ca_machine = \<lparr>mc_hw = (\<lambda>_. 0),
       mc_fs = \<lparr>fs_file = Map.empty, fs_dir = Map.empty, fs_canon = Map.empty, fs_exists = (\<lambda>_. False),
         fs_wr_err = Map.empty\<rparr>,
       mc_locks = \<lparr>lh_locks = [], lh_registry = [], lh_foreign = {}, lh_flock_errs = (\<lambda>_. [])\<rparr>\<rparr>,
     ca_devs = [], ca_errors = (\<lambda>_. None)\<rparr>"

definition capi_sample_dev :: mmreg_dev where
  "capi_sample_dev = \<lparr>md_guards = [], md_device = \<lparr>dv_name = ''mmreg'', dv_base = 0xA0000010,
     dv_size = 0x20, dv_read_only = False, dv_device_path = None, dv_warnings = [],
     dv_backend = BCustom \<lparr>cm_mem = replicate 32 0, cm_mapped = True\<rparr>,
     dv_uio_lock = None, dv_base_page_lock = None, dv_pm_guard = None\<rparr>, md_warnings = []\<rparr>"

definition capi_sample :: "(u64 \<Rightarrow> nat) capi" where
  "capi_sample = capi_sample_start\<lparr>ca_devs := [Some capi_sample_dev]\<rparr>"

lemma capi_sample_page: "is_page_size (page_size (ev_kernel capi_sample_env))"
  by (simp add: capi_sample_env_def flat_page is_page_size_4096)

lemma capi_sample_vt: "ev_vt capi_sample_env = mock_vt"
  by (simp add: capi_sample_env_def)

lemma capi_sample_opens:
  "mmreg_open_addr capi_sample_env 7 0xA0000010 0x20 6 capi_sample_start = Done (Some 0, capi_sample)"
proof -
  let ?b = "capi_builder (builder_new (Addr 0xA0000010 0x20)) (False, True, True, 0)"
  let ?F = "mc_fs (ca_machine capi_sample_start)"
  have flags: "parse_flags 7 6 None = (pret (False, True, True, 0) :: ('h, dev_ptr, bool \<times> bool \<times> bool \<times> usize) entry)"
    by (simp add: parse_flags_def known_flags_mask_def mmreg_o_rdonly_def mmreg_o_force_def mmreg_o_mock_def Let_def)
  have b: "bd_custom ?b = Some mock_boxed" "bd_force ?b" "bd_spec ?b = Addr 0xA0000010 0x20" "bd_name ?b = None"
    "bd_mapper_type ?b = Auto" "bd_profile ?b = None" "\<not> bd_read_only ?b"
    by (simp_all add: capi_builder_def builder_new_def with_custom_mapper_def with_force_def with_read_only_def
        with_region_def Let_def)
  have t: "resolve_spec capi_sample_env ?F ?b = Inr (''mmreg'', 0xA0000010, 0x20, Auto)"
    "resolve ?F 0xA0000010 0x20 Auto False = Inr \<lparr>tg_mapper = DevMem, tg_owner = None, tg_warnings = []\<rparr>"
    by (simp_all add: resolve_spec_def b checked_add_def resolve_def resolve_devmem_def find_uio_region_def
        find_owning_device_def capi_sample_start_def)
  have "mock_map 0xA0000010 0x20 mock_boxed = (Inr (), \<lparr>cm_mem = replicate 32 0, cm_mapped = True\<rparr>)"
    by (simp add: mock_map_def mock_boxed_def mock_max_size_def)
  then have "device_open capi_sample_env 7 ?b (ca_machine capi_sample_start)
      = Done (Inr (md_device capi_sample_dev), ca_machine capi_sample_start)"
    using t b by (simp add: device_open_def open_window_def open_pm_guard_def open_backend_def open_uio_lock_def
        pret_def capi_sample_env_def mock_vt_def capi_sample_dev_def)
  then show ?thesis
    unfolding mmreg_open_addr_def open_with_builder_def flags
    by (simp add: ffi_def pbind_def pret_def open_result_def into_raw_def mmreg_dev_new_def
        capi_sample_def capi_sample_dev_def capi_sample_start_def)
qed

lemma capi_sample_reach: "capi_reach capi_sample_env capi_sample"
proof (rule capi_step [where c = "COpenAddr 0xA0000010 0x20 6" and me = 7])
  show "capi_reach capi_sample_env capi_sample_start"
    by (rule capi_start) (simp_all add: capi_sample_start_def)
qed (simp_all add: live_def capi_sample_opens)

theorem capi_runs_safe_witness:
  "capi_run capi_sample_env 7 (CLock (Some 0)) capi_sample \<noteq> Panics
    \<and> depth_at (holdings (capi_heap capi_sample)) 0 = 0"
proof -
  have "live (call_dev (CLock (Some 0))) capi_sample" "all_guards capi_sample = []"
    by (simp_all add: live_def get_dev_def capi_sample_def all_guards_def guard_locks_def capi_sample_dev_def)
  with capi_runs_safe [OF capi_sample_page capi_sample_vt capi_sample_reach] show ?thesis
    by (auto simp del: capi_run.simps)
qed

lemma capi_sample_locks: "\<exists>s'. mmreg_lock capi_sample_env 7 (Some 0) capi_sample = Done (0, s')"
proof -
  have page: "page_size (ev_kernel capi_sample_env) = 4096"
    by (simp add: capi_sample_env_def flat_page)
  have d: "dv_uio_lock (md_device capi_sample_dev) = None" "dv_base_page_lock (md_device capi_sample_dev) = None"
    "dv_base (md_device capi_sample_dev) = 0xA0000010" "dv_size (md_device capi_sample_dev) = 0x20"
    by (simp_all add: capi_sample_dev_def)
  have heap: "capi_heap capi_sample = \<lparr>lh_locks = [], lh_registry = [], lh_foreign = {}, lh_flock_errs = (\<lambda>_. [])\<rparr>"
    by (simp add: capi_sample_def capi_sample_start_def)
  have "\<exists>f. open_page (ev_lock capi_sample_env) 4096 0xA0000010 (capi_heap capi_sample)
      = Done (Inr 0, \<lparr>lh_locks = [Some (shared_lock_new f)], lh_registry = [((1, 9), 0)], lh_foreign = {},
          lh_flock_errs = (\<lambda>_. [])\<rparr>)"
    unfolding heap
    by (auto simp: capi_sample_env_def sample_lock_env_def open_page_def open_page_in_def open_lock_file_def
        from_file_def file_key_of_def registered_def insert_or_get_shared_lock_def registry_retain_def
        registry_push_def Let_def)
  then obtain f L1 where o: "open_page (ev_lock capi_sample_env) 4096 0xA0000010 (capi_heap capi_sample) = Done (Inr 0, L1)"
    and L1: "L1 = \<lparr>lh_locks = [Some (shared_lock_new f)], lh_registry = [((1, 9), 0)], lh_foreign = {},
          lh_flock_errs = (\<lambda>_. [])\<rparr>"
    by blast
  have "\<exists>L2. acquire 7 0 L1 = Done (Inr (HOne 0), L2)"
    unfolding L1 by (simp add: acquire_def get_lock_def shared_lock_new_def flock_answers_def contended_def
        holds_key_def)
  then have "\<exists>M d. device_lock capi_sample_env 7 (ca_machine capi_sample, md_device capi_sample_dev)
      = Done (Inr (HOne 0), (M, d))"
    using o by (auto simp: device_lock_def lock_at_def d page page_base_def on_locks_def set_base_page_lock_def
        pbind_def Let_def)
  moreover have "get_dev capi_sample 0 = Some capi_sample_dev"
    by (simp add: get_dev_def capi_sample_def)
  ultimately show ?thesis
    by (auto simp: mmreg_lock_def ffi_def pbind_def ref_dev_def pret_def device_call_def push_guard_def
        capi_sample_def)
qed

theorem capi_lock_discipline_witness:
  "\<exists>s' s''. mmreg_lock capi_sample_env 7 (Some 0) capi_sample = Done (0, s')
    \<and> mmreg_unlock 7 (Some 0) s' = Done (0, s'')
    \<and> (\<exists>msg. mmreg_unlock 8 (Some 0) s' = Done (-1, set_error 8 ''E_LOCK_ACQUIRE'' msg s'))"
proof -
  obtain s' where s': "mmreg_lock capi_sample_env 7 (Some 0) capi_sample = Done (0, s')"
    using capi_sample_locks by blast
  have "get_dev capi_sample 0 = Some capi_sample_dev"
    by (simp add: get_dev_def capi_sample_def)
  from capi_lock_discipline [OF capi_sample_page capi_sample_vt capi_sample_reach this s'] s'
  show ?thesis by auto
qed

end
