(* ===== verification/JsonText.thy ===== *)
theory JsonText
  imports JsonSpec
begin

text \<open>
  The type \<open>String\<close>, whose values the model writes as lists of bytes: what the profile reader puts
  into a profile or an error message is well-formed UTF-8. \<open>texts\<close> is the typing of an operation:
  its error is a string, its value has the property given.
\<close>

section \<open>Well-formed strings\<close>

lemma utf8_valid_append: "utf8_valid a \<Longrightarrow> utf8_valid (a @ b) = utf8_valid b"
  by (induction a rule: utf8_valid.induct) (auto simp: Let_def split: if_splits list.splits)

lemma utf8_appendI [intro]: "utf8_valid a \<Longrightarrow> utf8_valid b \<Longrightarrow> utf8_valid (a @ b)"
  by (simp add: utf8_valid_append)

lemma utf8_ascii: "\<forall>c\<in>set a. byte c < 0x80 \<Longrightarrow> utf8_valid a"
  using utf8_valid_ascii_prefix [of a "[]"] by simp

lemma utf8_encode_valid: "is_scalar n \<Longrightarrow> utf8_valid (utf8_encode n)"
proof -
  assume s: "is_scalar n"
  then have n: "n < 0x110000"
    by (auto simp: is_scalar_def)
  have m: "byte (char_of (0x80 + k mod 64)) = 0x80 + k mod 64" for k :: nat
    by (rule byte_char_of) (simp add: trans_less_add2)
  have c: "is_cont (char_of (0x80 + k mod 64))" for k :: nat
    by (simp add: is_cont_def m)
  consider "n < 0x80" | "0x80 \<le> n" "n < 0x800" | "0x800 \<le> n" "n < 0x10000" | "0x10000 \<le> n"
    by linarith
  then show ?thesis
  proof cases
    case 1
    then show ?thesis by (simp add: utf8_encode_def byte_char_of)
  next
    case 2
    then have "0xC2 \<le> 0xC0 + n div 64" "0xC0 + n div 64 < 0xE0"
      by (simp_all add: div_le_mono [of 128 n 64, simplified] less_mult_imp_div_less)
    then show ?thesis
      using 2 by (simp add: utf8_encode_def byte_char_of c Let_def)
  next
    case 3
    have q: "n div 4096 = n div 64 div 64"
      by (simp add: div_mult2_eq [of n 64 64, simplified])
    have "n div 64 < 864 \<or> 896 \<le> n div 64"
      using s by (auto simp: is_scalar_def)
    then have d: "n div 4096 < 16" "n div 4096 = 0 \<Longrightarrow> 32 \<le> n div 64" "n div 4096 = 13 \<Longrightarrow> n div 64 mod 64 < 32"
      using 3 mult_div_mod_eq [of 64 "n div 64"] unfolding q by linarith+
    show ?thesis
      using 3 d by (simp add: utf8_encode_def byte_char_of c m Let_def)
  next
    case 4
    have q: "n div 262144 = n div 4096 div 64"
      by (simp add: div_mult2_eq [of n 4096 64, simplified])
    have "16 \<le> n div 4096" "n div 4096 < 272"
      using 4 n by simp_all
    then have d: "n div 262144 < 5" "n div 262144 = 0 \<Longrightarrow> 16 \<le> n div 4096"
      "n div 262144 = 4 \<Longrightarrow> n div 4096 mod 64 < 16"
      using mult_div_mod_eq [of 64 "n div 4096"] unfolding q by linarith+
    show ?thesis
      using 4 d by (simp add: utf8_encode_def byte_char_of c m Let_def)
  qed
qed

lemma as_char_valid: "utf8_valid (as_char b)" "utf8_valid (utf8_encode (of_char b))"
  unfolding as_char_def byte_def [symmetric] using byte_less [of b]
  by (auto intro!: utf8_encode_valid simp: is_scalar_def)

lemma hex_upper_ascii: "d < 16 \<Longrightarrow> byte (hex_upper d) < 0x80"
  by (auto simp: hex_upper_def byte_char_of)

lemma digits_valid: "utf8_valid (fmt_dec n)" "utf8_valid (fmt_hex n)" "utf8_valid (fmt_hex0 w n)"
proof -
  have "byte (hex_upper d) < 0x80" if "d \<in> set (digits_of b n)" "b = 10 \<or> b = 16" for b d
    using that digits_of_less [of b d n] by (intro hex_upper_ascii) auto
  then have d: "\<forall>c\<in>set (map hex_upper (digits_of b n)). byte c < 0x80" if "b = 10 \<or> b = 16" for b
    using that by auto
  show "utf8_valid (fmt_dec n)" "utf8_valid (fmt_hex n)"
    unfolding fmt_dec_def fmt_hex_def by (rule utf8_ascii [OF d]; simp)+
  then show "utf8_valid (fmt_hex0 w n)"
    unfolding fmt_hex0_def pad0_def by (intro utf8_appendI) (auto intro!: utf8_ascii simp: byte_def)
qed

lemma utf8_first_char: "utf8_valid (c # cs) \<Longrightarrow> utf8_valid (take (char_len c) (c # cs))"
  by (auto simp: char_len_def is_cont_def Let_def split: if_splits list.splits)

text \<open>Messages are ASCII literals and strings; a literal is checked character by character.\<close>

declare utf8_valid.simps(2) [simp del]

lemma utf8_ascii_Cons [simp]: "byte c < 0x80 \<Longrightarrow> utf8_valid (c # cs) = utf8_valid cs"
  by (simp add: utf8_valid.simps(2))

lemma sq_valid: "utf8_valid s \<Longrightarrow> utf8_valid (sq s)"
  by (simp add: sq_def utf8_valid_append byte_def)

lemmas message_valid = utf8_valid_append sq_valid digits_valid as_char_valid byte_def

section \<open>The typing of an operation\<close>

definition texts :: "('a \<Rightarrow> bool) \<Rightarrow> 'a jres \<Rightarrow> bool" where
  "texts P m \<longleftrightarrow> (case m of
       None \<Rightarrow> True | Some (Inl e) \<Rightarrow> utf8_valid e | Some (Inr (x, _)) \<Rightarrow> P x)"

lemma texts_simps [simp]:
  "texts P (Some (Inl e)) = utf8_valid e" "texts P (Some (Inr (x, p))) = P x" "texts P None"
  by (simp_all add: texts_def)

lemma texts_if: "(c \<Longrightarrow> texts P a) \<Longrightarrow> (\<not> c \<Longrightarrow> texts P b) \<Longrightarrow> texts P (if c then a else b)"
  by simp

lemma texts_bind:
  assumes "returns src pos m" "texts Q m" "\<And>x p. pos < p \<Longrightarrow> at_char src p \<Longrightarrow> Q x \<Longrightarrow> texts P (f x p)"
  shows "texts P (Option.bind m (\<lambda>r. case r of Inl e \<Rightarrow> Some (Inl e) | Inr (x, p) \<Rightarrow> f x p))"
proof (cases m)
  case (Some r)
  show ?thesis
  proof (cases r)
    case (Inr y)
    with Some assms show ?thesis by (cases y) simp
  qed (use assms(2) Some in simp)
qed simp

lemma expect_texts: "byte want < 0x80 \<Longrightarrow> texts (\<lambda>_. True) (expect src want pos)"
  by (cases "peek src pos") (simp add: expect_def message_valid split: option.split)

section \<open>Strings and numbers\<close>

lemma hex_token_valid: "list_all is_ascii_hexdigit hex \<Longrightarrow> utf8_valid hex"
  by (rule utf8_ascii)
    (auto simp: list_all_iff is_ascii_hexdigit_def to_digit_def Let_def split: if_splits)

lemma parse_hex4_texts: "parse_hex4 src pos = Inl e \<Longrightarrow> utf8_valid e"
  by (auto simp: parse_hex4_def Let_def hex_token_valid message_valid split: if_splits option.splits)

lemma parse_unicode_texts: "texts utf8_valid (parse_unicode src pos)"
  using parse_hex4_texts
  by (simp add: parse_unicode_def Let_def utf8_encode_valid message_valid split: sum.split)

lemma parse_escape_texts: "texts utf8_valid (parse_escape src pos)"
  by (simp add: parse_escape_def parse_unicode_texts message_valid split: option.split)

lemma string_loop_texts:
  "at_char src pos \<Longrightarrow> utf8_valid out \<Longrightarrow> texts utf8_valid (string_loop src pos out)"
proof (induction src pos out rule: string_loop.induct)
  case (1 src pos out)
  show ?case
  proof (cases "src_get src pos")
    case (Some b)
    note s = at_char_step [OF "1.prems"(1) Some]
    consider (fin) "b = CHR 0x22" | (esc) "b = CHR 0x5C" | (ctl) "byte b \<le> 0x1F" "b \<noteq> CHR 0x22" "b \<noteq> CHR 0x5C"
      | (ch) "b \<noteq> CHR 0x22" "b \<noteq> CHR 0x5C" "\<not> byte b \<le> 0x1F"
      by blast
    then show ?thesis
    proof cases
      case fin
      with Some "1.prems"(2) show ?thesis by (subst string_loop.simps) simp
    next
      case ctl
      with Some show ?thesis by (subst string_loop.simps) (simp add: byte_def Let_def)
    next
      case esc
      from "1.prems"(1) Some esc show ?thesis
      proof (cases rule: string_loop_escape [where out = out])
        case (err m)
        with parse_escape_texts [of src "pos + 1"] show ?thesis by simp
      next
        case (chars chs p)
        have "utf8_valid chs"
          using parse_escape_texts [of src "pos + 1"] unfolding chars(1) by simp
        then have "texts utf8_valid (string_loop src p (out @ chs))"
          using "1.IH"(1) [OF Some _ esc chars(1) refl refl chars(2)] esc "1.prems"(2) by auto
        then show ?thesis by (simp only: chars(4))
      qed
    next
      case ch
      have "utf8_valid (take (char_len b) (drop pos src))"
        using "1.prems"(1) utf8_first_char unfolding at_char_def src_get_drop [OF Some] by blast
      then have "texts utf8_valid (string_loop src (pos + char_len b) (out @ take (char_len b) (drop pos src)))"
        using "1.IH"(2) [OF Some ch] s "1.prems"(2) by auto
      with s ch show ?thesis
        by (subst string_loop.simps) (simp add: Some)
    qed
  qed (subst string_loop.simps; simp add: byte_def Let_def)
qed

lemma parse_string_texts: "at_char src pos \<Longrightarrow> texts utf8_valid (parse_string src pos)"
  unfolding parse_string_def
  by (rule texts_bind [OF expect_returns expect_texts]) (simp_all add: byte_def string_loop_texts)

lemma parse_digits_texts: "utf8_valid input \<Longrightarrow> parse_digits input radix ds acc saw = Inl e \<Longrightarrow> utf8_valid e"
  by (induction input radix ds acc saw rule: parse_digits.induct)
    (auto simp: message_valid split: if_splits option.splits)

lemma parse_u64_radix_texts: "utf8_valid s \<Longrightarrow> parse_u64_radix s radix = Inl e \<Longrightarrow> utf8_valid e"
  by (auto simp: parse_u64_radix_def Let_def message_valid split: if_splits prod.splits sum.splits
      intro: parse_digits_texts)

lemma number_token_texts: "utf8_valid t \<Longrightarrow> number_token t = Inl e \<Longrightarrow> utf8_valid e"
  by (auto simp: number_token_def message_valid split: if_splits option.splits)

lemma token_ascii:
  assumes "\<And>c. P c \<Longrightarrow> byte c < 0x80"
  shows "utf8_valid (take (skip_while P src q - q) (drop q src))"
proof (rule utf8_ascii)
  have "take (skip_while P src q - q) (drop q src) = takeWhile P (drop q src)"
    by (simp add: skip_while_def takeWhile_eq_take [symmetric])
  then show "\<forall>c\<in>set (take (skip_while P src q - q) (drop q src)). byte c < 0x80"
    using assms by (auto dest: set_takeWhileD)
qed

lemma parse_u64_texts:
  assumes "at_char src pos"
  shows "texts (\<lambda>_. True) (parse_u64 src pos)"
proof -
  obtain c q where p: "peek src pos = (c, q)" by (cases "peek src pos")
  note k = peek_at_char [OF assms p]
  have str: "texts (\<lambda>_. True) (Option.bind (parse_string src q) (\<lambda>r. case r of
      Inl e \<Rightarrow> Some (Inl e)
    | Inr (s, p) \<Rightarrow> (case parse_u64_radix s 10 of Inl e \<Rightarrow> Some (Inl e) | Inr v \<Rightarrow> Some (Inr (v, p)))))"
    by (rule texts_bind [OF parse_string_returns [OF k(1)] parse_string_texts [OF k(1)]])
      (auto split: sum.split intro: parse_u64_radix_texts)
  have tok: "utf8_valid e" if "number_token (take (skip_while is_number_char src q - q) (drop q src)) = Inl e" for e
    by (rule number_token_texts [OF token_ascii that]) (rule number_char_ascii)
  show ?thesis
    using str tok by (simp add: parse_u64_def p Let_def message_valid split: sum.split)
qed

lemma parse_u32_texts: "at_char src pos \<Longrightarrow> texts (\<lambda>_. True) (parse_u32 src pos)"
  unfolding parse_u32_def
  by (rule texts_bind [OF parse_u64_returns parse_u64_texts]) (simp_all add: message_valid)

section \<open>Objects, arrays and profiles\<close>

lemma into_texts: "texts P m \<Longrightarrow> (\<And>x. P x \<Longrightarrow> Q (f x)) \<Longrightarrow> texts Q (into m f)"
  by (cases m) (auto simp: into_def texts_def split: sum.splits)

lemma object_loop_texts:
  assumes "\<And>key s p. at_char src p \<Longrightarrow> returns src p (f key s p)"
    and "\<And>key s p. at_char src p \<Longrightarrow> utf8_valid key \<Longrightarrow> P s \<Longrightarrow> texts P (f key s p)"
    and "at_char src pos" "P s"
  shows "texts P (object_loop src f s pos)"
  using assms(3,4)
proof (induction "length src - pos" arbitrary: pos s rule: less_induct)
  case less
  have tail: "texts P (case peek src p3 of (c, q) \<Rightarrow>
          if c = Some (CHR '','') then object_loop src f s' (q + 1)
          else if c = Some (CHR 0x7D) then Some (Inr (s', q + 1))
          else Some (Inl (''expected '' @ sq '','' @ '' or '' @ sq [CHR 0x7D] @ '' at byte '' @ fmt_dec q)))"
    if p3: "pos < p3" "at_char src p3" "P s'" for p3 s'
  proof -
    obtain c q where p: "peek src p3 = (c, q)" by (cases "peek src p3")
    note k = peek_at_char [OF p3(2) p]
    have "texts P (object_loop src f s' (q + 1))" if c: "c = Some (CHR '','')"
    proof (rule less.hyps)
      show "at_char src (q + 1)"
        using at_char_ascii [OF k(1), of "CHR '',''"] k(3) c by (simp add: byte_def)
      show "length src - (q + 1) < length src - pos"
        using src_get_bound [of src q] k(2,3) c p3(1) by fastforce
    qed (rule p3(3))
    then show ?thesis
      using p3(3) by (simp add: p message_valid)
  qed
  show ?case
  proof (subst object_loop.simps, rule texts_bind [OF parse_string_returns parse_string_texts])
    fix key p1
    assume p1: "pos < p1" "at_char src p1" "utf8_valid key"
    show "texts P (Option.bind (expect src (CHR '':'') p1) (\<lambda>r. case r of Inl e \<Rightarrow> Some (Inl e) | Inr (_, p2) \<Rightarrow>
     Option.bind (f key s p2) (\<lambda>r. case r of Inl e \<Rightarrow> Some (Inl e) | Inr (s', p3) \<Rightarrow>
       (case peek src p3 of (c, q) \<Rightarrow>
          if c = Some (CHR '','') then object_loop src f s' (q + 1)
          else if c = Some (CHR 0x7D) then Some (Inr (s', q + 1))
          else Some (Inl (''expected '' @ sq '','' @ '' or '' @ sq [CHR 0x7D] @ '' at byte '' @ fmt_dec q))))))"
    proof (rule texts_bind [OF expect_returns expect_texts])
      fix u p2
      assume p2: "p1 < p2" "at_char src p2"
      show "texts P (Option.bind (f key s p2) (\<lambda>r. case r of Inl e \<Rightarrow> Some (Inl e) | Inr (s', p3) \<Rightarrow>
       (case peek src p3 of (c, q) \<Rightarrow>
          if c = Some (CHR '','') then object_loop src f s' (q + 1)
          else if c = Some (CHR 0x7D) then Some (Inr (s', q + 1))
          else Some (Inl (''expected '' @ sq '','' @ '' or '' @ sq [CHR 0x7D] @ '' at byte '' @ fmt_dec q)))))"
        by (rule texts_bind [OF assms(1) [OF p2(2)] assms(2) [OF p2(2) p1(3) less.prems(2)]])
          (rule tail, use p1(1) p2(1) in simp_all)
    qed (use p1(2) in \<open>simp_all add: byte_def\<close>)
  qed (rule less.prems)+
qed

lemma array_loop_texts:
  assumes "\<And>s p. at_char src p \<Longrightarrow> returns src p (f s p)"
    and "\<And>s p. at_char src p \<Longrightarrow> P s \<Longrightarrow> texts P (f s p)"
    and "at_char src pos" "P s" "utf8_valid err"
  shows "texts P (array_loop err src f s pos)"
  using assms(3,4)
proof (induction "length src - pos" arbitrary: pos s rule: less_induct)
  case less
  show ?case
  proof (subst array_loop.simps, rule texts_bind [OF assms(1,2)])
    fix s' p3
    assume p3: "pos < p3" "at_char src p3" "P s'"
    obtain c q where p: "peek src p3 = (c, q)" by (cases "peek src p3")
    note k = peek_at_char [OF p3(2) p]
    have "texts P (array_loop err src f s' (q + 1))" if c: "c = Some (CHR '','')"
    proof (rule less.hyps)
      show "at_char src (q + 1)"
        using at_char_ascii [OF k(1), of "CHR '',''"] k(3) c by (simp add: byte_def)
      show "length src - (q + 1) < length src - pos"
        using src_get_bound [of src q] k(2,3) c p3(1) by fastforce
    qed (rule p3(3))
    then show "texts P (case peek src p3 of (c, q) \<Rightarrow>
          if c = Some (CHR '','') then array_loop err src f s' (q + 1)
          else if c = Some (CHR '']'') then Some (Inr (s', q + 1)) else Some (Inl err))"
      using p3(3) assms(5) by (simp add: p)
  qed (use less.prems in simp_all)
qed

lemma parse_object_texts:
  assumes "\<And>key s p. at_char src p \<Longrightarrow> returns src p (f key s p)"
    and "\<And>key s p. at_char src p \<Longrightarrow> utf8_valid key \<Longrightarrow> P s \<Longrightarrow> texts P (f key s p)"
    and "at_char src pos" "P s"
  shows "texts P (parse_object src f s pos)"
  unfolding parse_object_def
proof (rule texts_bind [OF expect_returns expect_texts])
  fix u p
  assume at: "at_char src p"
  obtain c q where p: "peek src p = (c, q)" by (cases "peek src p")
  show "texts P (case peek src p of (c, q) \<Rightarrow>
      if c = Some (CHR 0x7D) then Some (Inr (s, q + 1)) else object_loop src f s q)"
    using object_loop_texts [OF assms(1,2) peek_at_char(1) [OF at p] assms(4)] assms(4) by (simp add: p)
qed (use assms(3) in \<open>simp_all add: byte_def\<close>)

lemma parse_array_texts:
  assumes "\<And>s p. at_char src p \<Longrightarrow> returns src p (f s p)"
    and "\<And>s p. at_char src p \<Longrightarrow> P s \<Longrightarrow> texts P (f s p)"
    and "at_char src pos" "P s" "utf8_valid err"
  shows "texts P (parse_array err src f s pos)"
  unfolding parse_array_def
proof (rule texts_bind [OF expect_returns expect_texts])
  fix u p
  assume at: "at_char src p"
  obtain c q where p: "peek src p = (c, q)" by (cases "peek src p")
  show "texts P (case peek src p of (c, q) \<Rightarrow>
      if c = Some (CHR '']'') then Some (Inr (s, q + 1)) else array_loop err src f s q)"
    using array_loop_texts [OF assms(1,2) peek_at_char(1) [OF at p] assms(4,5)] assms(4) by (simp add: p)
qed (use assms(3) in \<open>simp_all add: byte_def\<close>)

lemma array_error_valid: "utf8_valid what \<Longrightarrow> utf8_valid (array_error what)"
  by (simp add: array_error_def message_valid)

lemma skip_number_texts: "texts (\<lambda>_. True) (skip_number src pos)"
proof -
  have "utf8_valid e" if "skip_digits1 err src p = Inl e" "utf8_valid err" for e err p
    using that by (auto simp: skip_digits1_def split: if_splits)
  note digits = this [of "''invalid fraction in ignored number''"] this [of "''invalid exponent in ignored number''"]
  have int: "utf8_valid e" if "(case g of Some b \<Rightarrow> if P b then Inr x else if Q b then Inr y
        else Inl ''invalid number in ignored field'' | None \<Rightarrow> Inl ''invalid number in ignored field'') = Inl e"
    for g P Q x y e
    using that by (simp add: message_valid split: option.splits if_splits) (auto simp: message_valid)
  have opt: "(if c then x else Inr y) = Inl e \<Longrightarrow> x = Inl e" for c x y e
    by (simp split: if_splits)
  have val: "texts (\<lambda>_. True) (case r of Inl e \<Rightarrow> Some (Inl e) | Inr p \<Rightarrow> Some (Inr ((), p)))"
    if "\<And>e. r = Inl e \<Longrightarrow> utf8_valid e" for r
    using that by (simp split: sum.split)
  show ?thesis
    unfolding skip_number_def Let_def
  proof (rule val, unfold rbind_Inl_iff, elim disjE exE conjE)
  qed (drule opt, erule digits, simp add: message_valid | erule int)+
qed

lemma skip_value_texts: "at_char src pos \<Longrightarrow> texts (\<lambda>_. True) (skip_value src depth pos)"
proof (induction src depth pos rule: skip_value.induct)
  case (1 src depth pos)
  obtain c q where p: "peek src pos = (c, q)" by (cases "peek src pos")
  note k = peek_at_char [OF "1.prems" p]
  show ?case
  proof (cases "depth > 32 \<or> c = None")
    case False
    then obtain b where b: "c = Some b" "\<not> depth > 32" by auto
    have nested: "texts (\<lambda>_. True) (skip_value src (depth + 1) p')" if "at_char src p'"
      "b = CHR 0x7B \<or> b = CHR ''[''" for p'
      using "1.IH" b p that by (elim disjE) auto
    have str: "texts (\<lambda>_. True) (Option.bind (parse_string src q) (\<lambda>r. case r of
        Inl e \<Rightarrow> Some (Inl e) | Inr (_, p) \<Rightarrow> Some (Inr ((), p))))"
      by (rule texts_bind [OF parse_string_returns [OF k(1)] parse_string_texts [OF k(1)]]) simp
    have obj: "texts (\<lambda>_. True) (parse_object src (\<lambda>_ _ p. skip_value src (depth + 1) p) () q)" if "b = CHR 0x7B"
      using that by (intro parse_object_texts skip_value_returns nested k(1)) simp_all
    have arr: "texts (\<lambda>_. True) (parse_array err src (\<lambda>_ p. skip_value src (depth + 1) p) () q)"
      if "b = CHR ''[''" "utf8_valid err" for err
      using that by (intro parse_array_texts skip_value_returns nested k(1)) simp_all
    have err: "utf8_valid (array_error ''array'')"
      by (rule array_error_valid) (simp add: byte_def)
    show ?thesis
      using str obj arr [OF _ err] skip_number_texts [of src q]
      by (subst skip_value.simps) (simp add: p b message_valid)
  qed (subst skip_value.simps; use p in \<open>auto simp: message_valid\<close>)
qed

definition name_text :: "string option \<Rightarrow> bool" where
  "name_text nm \<longleftrightarrow> (case nm of Some n \<Rightarrow> utf8_valid n | None \<Rightarrow> True)"

lemma name_text_simps [simp]: "name_text None" "name_text (Some n) = utf8_valid n"
  by (simp_all add: name_text_def)

lemma check_field_texts:
  assumes "at_char src p" "utf8_valid key" "name_text (cf_name s)"
  shows "texts (\<lambda>s. name_text (cf_name s)) (check_field src key s p)"
  unfolding check_field_def
  by (intro texts_if into_texts [OF parse_string_texts] into_texts [OF parse_u64_texts]
      into_texts [OF parse_u32_texts] into_texts [OF skip_value_texts] assms(1))
    (simp_all add: assms(2,3) message_valid)

definition check_text :: "validation_check \<Rightarrow> bool" where
  "check_text c \<longleftrightarrow> utf8_valid (vc_name c)"

definition fields_text :: "profile_fields \<Rightarrow> bool" where
  "fields_text s \<longleftrightarrow> name_text (pf_name s) \<and> (\<forall>cs. pf_checks s = Some cs \<longrightarrow> (\<forall>c\<in>set cs. check_text c))"

lemma missing_valid: "utf8_valid what \<Longrightarrow> utf8_valid suffix \<Longrightarrow> utf8_valid (missing what suffix)"
  by (simp add: missing_def message_valid)

lemma parse_check_texts:
  assumes "at_char src p"
  shows "texts check_text (parse_check src p)"
proof -
  let ?s = "\<lparr>cf_name = None, cf_addr = None, cf_mask = None, cf_expected = None\<rparr>"
  have obj: "texts (\<lambda>s. name_text (cf_name s)) (parse_object src (check_field src) ?s p)"
    by (rule parse_object_texts [OF check_field_returns check_field_texts assms]) simp_all
  have build: "texts check_text (case build_check s of Inl e \<Rightarrow> Some (Inl e) | Inr c \<Rightarrow> Some (Inr (c, q)))"
    if "name_text (cf_name s)" for s q
    using that by (auto simp: build_check_def missing_def message_valid check_text_def split: option.split)
  show ?thesis
    unfolding parse_check_def
    by (rule texts_bind [OF parse_object_returns [OF check_field_returns assms] obj build])
qed

lemma profile_field_texts:
  assumes "at_char src p" "utf8_valid key" "fields_text s"
  shows "texts fields_text (profile_field src key s p)"
proof -
  let ?each = "\<lambda>cs q. into (parse_check src q) (\<lambda>c. cs @ [c])"
  have each: "texts (\<lambda>cs. \<forall>c\<in>set cs. check_text c) (?each cs q)"
    if "at_char src q" "\<forall>c\<in>set cs. check_text c" for cs q
    using that(2) by (intro into_texts [OF parse_check_texts [OF that(1)]]) auto
  have err: "utf8_valid (array_error (sq ''checks''))"
    by (intro array_error_valid sq_valid) (simp add: byte_def)
  have arr: "texts (\<lambda>cs. \<forall>c\<in>set cs. check_text c) (parse_array (array_error (sq ''checks'')) src ?each [] p)"
    by (rule parse_array_texts [OF into_returns [OF parse_check_returns] each assms(1) _ err]) simp_all
  show ?thesis
    unfolding profile_field_def
    by (intro texts_if into_texts [OF parse_string_texts] into_texts [OF arr]
        into_texts [OF skip_value_texts] assms(1))
      (use assms(2,3) in \<open>simp_all add: message_valid fields_text_def\<close>)
qed

lemma parse_profile_texts:
  assumes "utf8_valid input" "parse_profile input = Some r"
  shows "case r of Inl e \<Rightarrow> utf8_valid e
    | Inr p \<Rightarrow> utf8_valid (sp_name p) \<and> (\<forall>c\<in>set (sp_checks p). utf8_valid (vc_name c))"
proof -
  let ?src = "parser_new input" and ?s = "\<lparr>pf_name = None, pf_checks = None\<rparr>"
  note at = parser_new_at_char [OF assms(1)]
  have obj: "texts fields_text (parse_object ?src (profile_field ?src) ?s 0)"
    by (rule parse_object_texts [OF profile_field_returns profile_field_texts at]) (simp_all add: fields_text_def)
  have build: "case build_profile s of Inl e \<Rightarrow> utf8_valid e
      | Inr p \<Rightarrow> utf8_valid (sp_name p) \<and> (\<forall>c\<in>set (sp_checks p). utf8_valid (vc_name c))" if "fields_text s" for s
    using that by (auto simp: build_profile_def missing_def message_valid fields_text_def check_text_def
        split: option.split)
  show ?thesis
  proof (cases "parse_object ?src (profile_field ?src) ?s 0")
    case (Some x)
    with obj build assms(2) show ?thesis
      by (cases x) (auto simp: parse_profile_def Let_def message_valid split: prod.splits option.splits)
  qed (use assms(2) in \<open>simp add: parse_profile_def\<close>)
qed

section \<open>The property\<close>



end
