(* ===== verification/BusProto.thy ===== *)
theory BusProto
  imports LockProto DeviceBus
begin

text \<open>
  Accesses of many threads and processes to one bus. \<open>LockProto\<close> interleaves the locks; here every bus
  access is a step of its own, so an update is a read and, some steps of others later, a write. The
  lock of the address makes the two one: the bus is in the state that the finished operations reach
  when each runs alone, in the order in which they finished. The last section shows that the calls of
  \<open>src/device.rs\<close> follow this protocol.
\<close>

section \<open>Operations\<close>

text \<open>Bus accesses, and the operations of a device: a read, a write, a masked update.\<close>

datatype bus_access =
    ARead u64 width
  | AWrite u64 width u64

datatype bus_op =
    Plain bus_access
  | Masked u64 u32 u32       \<comment> \<open>address, mask, value\<close>

fun access_addr :: "bus_access \<Rightarrow> u64" where
  "access_addr (ARead a w) = a"
| "access_addr (AWrite a w v) = a"

fun access_width :: "bus_access \<Rightarrow> width" where
  "access_width (ARead a w) = w"
| "access_width (AWrite a w v) = w"

definition aligned :: "bus_access \<Rightarrow> bool" where
  "aligned p \<longleftrightarrow> unat (width_bytes (access_width p)) dvd unat (access_addr p)"

fun run_access :: "'h kernel \<Rightarrow> bus_access \<Rightarrow> 'h \<Rightarrow> u64 \<times> 'h" where
  "run_access K (ARead a w) h = map_prod (width_cut w) id (k_rd K a w h)"
| "run_access K (AWrite a w v) h = (0, k_wr K a w (width_cut w v) h)"

text \<open>An operation that runs alone.\<close>

fun run_op :: "'h kernel \<Rightarrow> bus_op \<Rightarrow> 'h \<Rightarrow> u64 \<times> 'h" where
  "run_op K (Plain p) h = run_access K p h"
| "run_op K (Masked a m u) h = (case run_access K (ARead a WU32) h of
     (c, h1) \<Rightarrow> (case replace_bits (ucast c) m u of
        x \<Rightarrow> (ucast x, snd (run_access K (AWrite a WU32 (ucast x)) h1))))"

section \<open>Steps\<close>

text \<open>
  \<open>key a\<close> is the lock file of address \<open>a\<close>. A thread may access it while it has a guard of that file's
  lock, another process while it holds the file.
\<close>

datatype actor =
    Thread thread
  | Process file_key

fun may_access :: "proto \<Rightarrow> actor \<Rightarrow> file_key \<Rightarrow> bool" where
  "may_access p (Thread t) k \<longleftrightarrow>
     (\<exists>a\<in>set (pr_held p t). \<exists>l. get_lock (pr_heap p) a = Some l \<and> lock_key l = k)"
| "may_access p (Process j) k \<longleftrightarrow> j = k \<and> k \<in> lh_foreign (pr_heap p)"

text \<open>An update half done: address, mask, value, and what was read.\<close>

type_synonym half = "u64 \<times> u32 \<times> u32 \<times> u64"

record 'h bus_state =
  bs_proto :: proto
  bs_hw :: 'h
  bs_half :: "actor \<Rightarrow> half option"
  bs_log :: "(actor \<times> bus_op \<times> u64) list"   \<comment> \<open>finished operations with their results, oldest first\<close>

text \<open>An update keeps its guard from the read to the write.\<close>

definition halves_keep :: "'h bus_state \<Rightarrow> proto \<Rightarrow> bool" where
  "halves_keep s p \<longleftrightarrow>
     (\<forall>t. bs_half s (Thread t) \<noteq> None \<longrightarrow> pr_held p t = pr_held (bs_proto s) t)
   \<and> (\<forall>k. bs_half s (Process k) \<noteq> None \<longrightarrow> k \<in> lh_foreign (pr_heap p))"

inductive bstep ::
  "'h kernel \<Rightarrow> (u64 \<Rightarrow> file_key) \<Rightarrow> nat list \<Rightarrow> (nat \<Rightarrow> nat) \<Rightarrow> 'h bus_state \<Rightarrow> 'h bus_state \<Rightarrow> bool"
  for K :: "'h kernel" and key :: "u64 \<Rightarrow> file_key" and hs :: "nat list" and rank :: "nat \<Rightarrow> nat" where
  locks: "pstep hs rank (bs_proto s) p \<Longrightarrow> halves_keep s p
      \<Longrightarrow> bstep K key hs rank s (s\<lparr>bs_proto := p\<rparr>)"
| plain: "bs_half s A = None \<Longrightarrow> may_access (bs_proto s) A (key (access_addr b)) \<Longrightarrow> aligned b
      \<Longrightarrow> run_access K b (bs_hw s) = (r, h)
      \<Longrightarrow> bstep K key hs rank s (s\<lparr>bs_hw := h, bs_log := bs_log s @ [(A, Plain b, r)]\<rparr>)"
| update_read: "bs_half s A = None \<Longrightarrow> may_access (bs_proto s) A (key a) \<Longrightarrow> aligned (ARead a WU32)
      \<Longrightarrow> run_access K (ARead a WU32) (bs_hw s) = (c, h)
      \<Longrightarrow> bstep K key hs rank s (s\<lparr>bs_hw := h, bs_half := (bs_half s)(A := Some (a, m, u, c))\<rparr>)"
| update_write: "bs_half s A = Some (a, m, u, c) \<Longrightarrow> x = replace_bits (ucast c) m u
      \<Longrightarrow> run_access K (AWrite a WU32 (ucast x)) (bs_hw s) = (r, h)
      \<Longrightarrow> bstep K key hs rank s (s\<lparr>bs_hw := h, bs_half := (bs_half s)(A := None),
            bs_log := bs_log s @ [(A, Masked a m u, ucast x)]\<rparr>)"

text \<open>Start: nobody holds a lock, no update is half done.\<close>

definition bus_start :: "nat list \<Rightarrow> 'h \<Rightarrow> 'h bus_state \<Rightarrow> bool" where
  "bus_start hs h s \<longleftrightarrow> proto_init hs (bs_proto s) \<and> bs_hw s = h \<and> bs_half s = (\<lambda>_. None) \<and> bs_log s = []"

definition bus_reachable ::
  "'h kernel \<Rightarrow> (u64 \<Rightarrow> file_key) \<Rightarrow> nat list \<Rightarrow> (nat \<Rightarrow> nat) \<Rightarrow> 'h \<Rightarrow> 'h bus_state \<Rightarrow> bool"
where
  "bus_reachable K key hs rank h s \<longleftrightarrow> (\<exists>s0. bus_start hs h s0 \<and> (bstep K key hs rank)\<^sup>*\<^sup>* s0 s)"

section \<open>The specification\<close>

text \<open>The operations one after the other, each with the result given for it.\<close>

fun replay :: "'h kernel \<Rightarrow> (actor \<times> bus_op \<times> u64) list \<Rightarrow> 'h \<Rightarrow> 'h option" where
  "replay K [] h = Some h"
| "replay K ((A, b, r) # xs) h = (case run_op K b h of (q, h1) \<Rightarrow> if q = r then replay K xs h1 else None)"

text \<open>Registers behind different lock files do not influence each other.\<close>

definition commute :: "('h \<Rightarrow> u64 \<times> 'h) \<Rightarrow> ('h \<Rightarrow> u64 \<times> 'h) \<Rightarrow> bool" where
  "commute f g \<longleftrightarrow> (\<forall>h. case f h of (x, h1) \<Rightarrow> (case g h1 of (y, h2) \<Rightarrow>
     (case g h of (y', k1) \<Rightarrow> y' = y \<and> f k1 = (x, h2))))"

definition banks_independent :: "'h kernel \<Rightarrow> (u64 \<Rightarrow> file_key) \<Rightarrow> bool" where
  "banks_independent K key \<longleftrightarrow> (\<forall>p q. aligned p \<longrightarrow> aligned q
     \<longrightarrow> key (access_addr p) \<noteq> key (access_addr q) \<longrightarrow> commute (run_access K p) (run_access K q))"

section \<open>Who may access\<close>

lemma replay_append:
  "replay K (xs @ ys) h = (case replay K xs h of None \<Rightarrow> None | Some h1 \<Rightarrow> replay K ys h1)"
  by (induction xs arbitrary: h) (auto split: prod.split)

lemma thread_access_owner:
  assumes "guards_ok p" "may_access p (Thread t) k"
  obtains a l where "get_lock (pr_heap p) a = Some l" "lock_key l = k" "sl_owner l = Some t"
  using assms(2) held_owner [OF assms(1)] that by auto

lemma may_access_unique:
  assumes "proto_inv hs rank p" "may_access p A k" "may_access p B k"
  shows "A = B"
proof -
  have inv: "reg_ok (pr_heap p)" "guards_ok p" "process_ok p"
    using assms(1) by (auto simp: proto_inv_def)
  have other: False if "may_access p (Thread t) k" "may_access p (Process j) k" for t j
    using thread_access_owner [OF inv(2) that(1)] that(2) inv(3) unfolding process_ok_def
    by (metis may_access.simps(2) option.distinct(1))
  have same: "t = u" if "may_access p (Thread t) k" "may_access p (Thread u) k" for t u
    using thread_access_owner [OF inv(2) that(1)] thread_access_owner [OF inv(2) that(2)]
      reg_ok_unique [OF inv(1)] by (metis option.inject)
  show ?thesis
  proof (cases A)
    case (Thread t)
    then show ?thesis
      using assms(2,3) same other by (cases B) blast+
  next
    case (Process j)
    then show ?thesis
      using assms(2,3) other by (cases B) (blast, simp)
  qed
qed

text \<open>A step of the locks changes no lock's file.\<close>

lemma arc_drop_key:
  "get_lock (arc_drop a st) b = Some m \<Longrightarrow> \<exists>l. get_lock st b = Some l \<and> lock_key l = lock_key m"
  by (auto simp: arc_drop_def lock_key_def split: option.splits if_splits dest: get_lock_SomeD)

lemma pstep_key:
  assumes "pstep hs rank p q" "proto_inv hs rank p"
    and "get_lock (pr_heap q) a = Some m"
  shows "\<exists>l. get_lock (pr_heap p) a = Some l \<and> lock_key l = lock_key m"
  using assms
proof (induction rule: pstep.induct)
  case (take s t b xs h st')
  then have "lock_ok hs (pr_heap s)" by (simp add: proto_inv_def)
  with take(2) show ?case
    by (rule acquire_Inr) (use take in \<open>auto simp: lock_key_def split: if_splits\<close>)
next
  case (give s t xs b st')
  show ?case
    using give(3)
    by (rule guard_drop_One) (use give in \<open>auto simp: lock_key_def split: if_splits dest!: arc_drop_key\<close>)
qed auto

lemma may_access_kept:
  assumes "proto_inv hs rank (bs_proto s)" "pstep hs rank (bs_proto s) p" "halves_keep s p"
    and "bs_half s A \<noteq> None" "may_access (bs_proto s) A k"
  shows "may_access p A k"
proof (cases A)
  case (Thread t)
  with assms(5) obtain a l where a: "a \<in> set (pr_held (bs_proto s) t)"
    "get_lock (pr_heap (bs_proto s)) a = Some l" "lock_key l = k" by auto
  have h: "a \<in> set (pr_held p t)"
    using assms(3,4) Thread a(1) by (simp add: halves_keep_def)
  have "guards_ok p"
    using proto_inv_step [OF assms(2,1)] by (simp add: proto_inv_def)
  with h obtain m where m: "get_lock (pr_heap p) a = Some m"
    unfolding guards_ok_def by blast
  with pstep_key [OF assms(2,1) m] a h Thread show ?thesis by auto
next
  case (Process j)
  then have "j \<in> lh_foreign (pr_heap p)"
    using assms(3,4) unfolding halves_keep_def by blast
  with Process assms(5) show ?thesis by simp
qed

section \<open>Accesses that commute\<close>

text \<open>Accesses with their results, run one after the other.\<close>

fun run_accesses :: "'h kernel \<Rightarrow> (bus_access \<times> u64) list \<Rightarrow> 'h \<Rightarrow> 'h option" where
  "run_accesses K [] h = Some h"
| "run_accesses K ((b, r) # xs) h = (case run_access K b h of (q, h1) \<Rightarrow>
     if q = r then run_accesses K xs h1 else None)"

lemma run_accesses_append:
  "run_accesses K (xs @ ys) h = (case run_accesses K xs h of None \<Rightarrow> None | Some h1 \<Rightarrow> run_accesses K ys h1)"
  by (induction xs arbitrary: h) (auto split: prod.split)

lemma commuteD:
  assumes "commute f g" "f h = (x, h1)" "g h1 = (y, h2)"
  obtains k1 where "g h = (y, k1)" "f k1 = (x, h2)"
proof -
  obtain y' k1 where g: "g h = (y', k1)" by (cases "g h")
  have "y' = y \<and> f k1 = (x, h2)"
    using assms(1) [unfolded commute_def, rule_format, of h] assms(2,3) g by simp
  with g that show ?thesis by blast
qed

lemma access_to_front:
  assumes "\<forall>b\<in>set xs. commute (run_access K (fst b)) (run_access K p)"
    and "run_accesses K xs h = Some h1" "run_access K p h1 = (x, h2)"
  shows "\<exists>k. run_access K p h = (x, k) \<and> run_accesses K xs k = Some h2"
  using assms
proof (induction xs arbitrary: h)
  case (Cons b xs)
  obtain q r where b: "b = (q, r)" by (cases b)
  with Cons.prems(2) obtain h' where h': "run_access K q h = (r, h')" "run_accesses K xs h' = Some h1"
    by (auto split: prod.splits if_splits)
  obtain k where k: "run_access K p h' = (x, k)" "run_accesses K xs k = Some h2"
    using Cons.IH [OF _ h'(2) Cons.prems(3)] Cons.prems(1) by auto
  have "commute (run_access K q) (run_access K p)"
    using Cons.prems(1) b by simp
  then obtain k2 where "run_access K p h = (x, k2)" "run_access K q k2 = (r, k)"
    using h'(1) k(1) by (rule commuteD)
  with k(2) b show ?case by simp
qed simp

section \<open>The invariant\<close>

text \<open>
  The updates half done, as a list \<open>pend\<close>, are of different actors, each of which may access its
  address.
\<close>

definition half_access :: "actor \<times> half \<Rightarrow> bus_access \<times> u64" where
  "half_access = (\<lambda>(A, a, m, u, c). (ARead a WU32, c))"

definition pending :: "(actor \<Rightarrow> half option) \<Rightarrow> (actor \<times> half) list \<Rightarrow> bool" where
  "pending half pend \<longleftrightarrow> distinct (map fst pend) \<and> (\<forall>A x. (A, x) \<in> set pend \<longleftrightarrow> half A = Some x)"

definition halves_ok :: "(u64 \<Rightarrow> file_key) \<Rightarrow> 'h bus_state \<Rightarrow> bool" where
  "halves_ok key s \<longleftrightarrow> (\<forall>A a m u c. bs_half s A = Some (a, m, u, c)
     \<longrightarrow> may_access (bs_proto s) A (key a) \<and> aligned (ARead a WU32))"

definition bus_ok :: "(u64 \<Rightarrow> file_key) \<Rightarrow> nat list \<Rightarrow> (nat \<Rightarrow> nat) \<Rightarrow> 'h bus_state \<Rightarrow> bool" where
  "bus_ok key hs rank s \<longleftrightarrow> proto_inv hs rank (bs_proto s) \<and> halves_ok key s"

lemma bus_ok_step:
  assumes "bstep K key hs rank s s'" "bus_ok key hs rank s"
  shows "bus_ok key hs rank s'"
  using assms
proof (induction rule: bstep.induct)
  case (locks s p)
  then have "proto_inv hs rank (bs_proto s)" by (simp add: bus_ok_def)
  with locks show ?case
    using may_access_kept [OF _ locks(1,2)] proto_inv_step [OF locks(1)]
    by (auto simp: bus_ok_def halves_ok_def)
qed (auto simp: bus_ok_def halves_ok_def)

lemma bus_start_ok: "bus_start hs h s \<Longrightarrow> bus_ok key hs rank s"
  by (auto simp: bus_start_def bus_ok_def halves_ok_def intro: proto_inv_init)

lemma bus_reachable_ok:
  assumes "bus_reachable K key hs rank h s"
  shows "bus_ok key hs rank s"
proof -
  obtain s0 where "bus_start hs h s0" "(bstep K key hs rank)\<^sup>*\<^sup>* s0 s"
    using assms by (auto simp: bus_reachable_def)
  from this(2) bus_start_ok [OF this(1)] show ?thesis
    by (induction rule: rtranclp_induct) (auto intro: bus_ok_step)
qed

text \<open>The bus is where the finished operations and then the updates half done lead.\<close>

definition bus_replays :: "'h kernel \<Rightarrow> 'h \<Rightarrow> 'h bus_state \<Rightarrow> bool" where
  "bus_replays K h0 s \<longleftrightarrow> (\<exists>h pend. replay K (bs_log s) h0 = Some h \<and> pending (bs_half s) pend
     \<and> run_accesses K (map half_access pend) h = Some (bs_hw s))"

lemma pending_other:
  assumes ok: "bus_ok key hs rank s"
    and pend: "\<forall>(B, x)\<in>set ys. bs_half s B = Some x \<and> B \<noteq> A"
    and "banks_independent K key" "may_access (bs_proto s) A (key (access_addr p))" "aligned p"
  shows "\<forall>b\<in>set (map half_access ys). commute (run_access K (fst b)) (run_access K p)"
proof
  fix b
  assume "b \<in> set (map half_access ys)"
  then obtain B a m u c where b: "(B, a, m, u, c) \<in> set ys" "fst b = ARead a WU32"
    by (auto simp: half_access_def)
  then have half: "bs_half s B = Some (a, m, u, c)" "B \<noteq> A"
    using pend by blast+
  then have may: "may_access (bs_proto s) B (key a)" "aligned (ARead a WU32)"
    using ok unfolding bus_ok_def halves_ok_def by blast+
  have "proto_inv hs rank (bs_proto s)"
    using ok by (simp add: bus_ok_def)
  then have "key a \<noteq> key (access_addr p)"
    using may_access_unique [OF _ may(1)] assms(4) half(2) by metis
  then show "commute (run_access K (fst b)) (run_access K p)"
    using assms(3,5) may(2) b(2) by (simp add: banks_independent_def)
qed

lemma pendingD: "pending half pend \<Longrightarrow> (A, x) \<in> set pend \<longleftrightarrow> half A = Some x"
  unfolding pending_def by blast

lemma pending_remove:
  assumes "pending half pend" "half A = Some x"
  obtains xs ys where "pend = xs @ (A, x) # ys" "pending (half(A := None)) (xs @ ys)"
    "\<forall>(B, y)\<in>set (xs @ ys). half B = Some y \<and> B \<noteq> A"
proof -
  have "(A, x) \<in> set pend"
    using assms by (simp add: pendingD)
  then obtain xs ys where p: "pend = xs @ (A, x) # ys"
    by (meson split_list)
  have d: "A \<notin> fst ` set (xs @ ys)" "distinct (map fst (xs @ ys))"
    using assms(1) by (auto simp: p pending_def)
  have m: "(B, y) \<in> set (xs @ ys) \<longleftrightarrow> half B = Some y \<and> B \<noteq> A" for B y
  proof -
    have "half B = Some y \<longleftrightarrow> (B, y) \<in> set pend"
      using assms(1) by (simp add: pendingD)
    then show ?thesis
      using d(1) by (force simp: p)
  qed
  have "pending (half(A := None)) (xs @ ys)"
    using d(2) m by (auto simp: pending_def)
  moreover have "\<forall>(B, y)\<in>set (xs @ ys). half B = Some y \<and> B \<noteq> A"
    using m by blast
  ultimately show ?thesis
    by (rule that [OF p])
qed

lemma replays_plain:
  assumes "bus_replays K h0 s" "bus_ok key hs rank s" "banks_independent K key"
    and "bs_half s A = None" "may_access (bs_proto s) A (key (access_addr b))" "aligned b"
    and "run_access K b (bs_hw s) = (r, h)"
  shows "bus_replays K h0 (s\<lparr>bs_hw := h, bs_log := bs_log s @ [(A, Plain b, r)]\<rparr>)"
proof -
  obtain g pend where g: "replay K (bs_log s) h0 = Some g" "pending (bs_half s) pend"
    "run_accesses K (map half_access pend) g = Some (bs_hw s)"
    using assms(1) by (auto simp: bus_replays_def)
  have "\<forall>(B, x)\<in>set pend. bs_half s B = Some x \<and> B \<noteq> A"
    using assms(4) pendingD [OF g(2)] by force
  from access_to_front [OF pending_other [OF assms(2) this assms(3,5,6)] g(3) assms(7)] obtain k
    where k: "run_access K b g = (r, k)" "run_accesses K (map half_access pend) k = Some h"
    by blast
  have "replay K (bs_log s @ [(A, Plain b, r)]) h0 = Some k"
    using g(1) k(1) by (simp add: replay_append)
  with g(2) k(2) show ?thesis
    unfolding bus_replays_def by auto
qed

lemma replays_half:
  assumes "bus_replays K h0 s" "bs_half s A = None" "run_access K (ARead a WU32) (bs_hw s) = (c, h)"
  shows "bus_replays K h0 (s\<lparr>bs_hw := h, bs_half := (bs_half s)(A := Some (a, m, u, c))\<rparr>)"
proof -
  obtain g pend where g: "replay K (bs_log s) h0 = Some g" "pending (bs_half s) pend"
    "run_accesses K (map half_access pend) g = Some (bs_hw s)"
    using assms(1) by (auto simp: bus_replays_def)
  have "pending ((bs_half s)(A := Some (a, m, u, c))) (pend @ [(A, a, m, u, c)])"
    using g(2) assms(2) by (auto simp: pending_def)
  moreover have "run_accesses K (map half_access (pend @ [(A, a, m, u, c)])) g = Some h"
    using g(3) assms(3) by (simp add: run_accesses_append half_access_def)
  ultimately show ?thesis
    using g(1) unfolding bus_replays_def by auto
qed

lemma replays_update:
  assumes "bus_replays K h0 s" "bus_ok key hs rank s" "banks_independent K key"
    and "bs_half s A = Some (a, m, u, c)" "x = replace_bits (ucast c) m u"
    and "run_access K (AWrite a WU32 (ucast x)) (bs_hw s) = (r, h)"
  shows "bus_replays K h0 (s\<lparr>bs_hw := h, bs_half := (bs_half s)(A := None),
      bs_log := bs_log s @ [(A, Masked a m u, ucast x)]\<rparr>)"
proof -
  let ?r = "ARead a WU32" and ?w = "AWrite a WU32 (ucast x)"
  obtain g pend where g: "replay K (bs_log s) h0 = Some g" "pending (bs_half s) pend"
    "run_accesses K (map half_access pend) g = Some (bs_hw s)"
    using assms(1) by (auto simp: bus_replays_def)
  from g(2) assms(4) obtain xs ys where p: "pend = xs @ (A, a, m, u, c) # ys"
    "pending ((bs_half s)(A := None)) (xs @ ys)"
    "\<forall>(B, y)\<in>set (xs @ ys). bs_half s B = Some y \<and> B \<noteq> A"
    by (rule pending_remove) blast
  have may: "may_access (bs_proto s) A (key a)" "aligned ?r"
    using assms(2,4) unfolding bus_ok_def halves_ok_def by blast+
  then have al: "aligned ?w"
    by (simp add: aligned_def)
  note away = pending_other [OF assms(2) _ assms(3)]
  from g(3) obtain g1 g2 where g1: "run_accesses K (map half_access xs) g = Some g1"
    "run_access K ?r g1 = (c, g2)" "run_accesses K (map half_access ys) g2 = Some (bs_hw s)"
    by (auto simp: p(1) run_accesses_append half_access_def split: option.splits prod.splits if_splits)
  have "\<forall>b\<in>set (map half_access xs). commute (run_access K (fst b)) (run_access K ?r)"
    by (rule away) (use p(3) may in auto)
  from access_to_front [OF this g1(1,2)] obtain k1
    where k1: "run_access K ?r g = (c, k1)" "run_accesses K (map half_access xs) k1 = Some g2"
    by blast
  have rest: "run_accesses K (map half_access (xs @ ys)) k1 = Some (bs_hw s)"
    using k1(2) g1(3) by (simp add: run_accesses_append)
  have "\<forall>b\<in>set (map half_access (xs @ ys)). commute (run_access K (fst b)) (run_access K ?w)"
    by (rule away) (use p(3) may al in auto)
  from access_to_front [OF this rest assms(6)] obtain k2
    where k2: "run_access K ?w k1 = (r, k2)" "run_accesses K (map half_access (xs @ ys)) k2 = Some h"
    by blast
  have "replay K (bs_log s @ [(A, Masked a m u, ucast x)]) h0 = Some k2"
    using g(1) k1(1) k2(1) assms(5) by (simp add: replay_append del: run_access.simps)
  with p(2) k2(2) show ?thesis
    unfolding bus_replays_def by auto
qed

lemma bus_replays_step:
  assumes "bstep K key hs rank s s'" "banks_independent K key" "bus_ok key hs rank s" "bus_replays K h0 s"
  shows "bus_replays K h0 s'"
  using assms
proof (induction rule: bstep.induct)
  case (locks s p)
  then show ?case by (simp add: bus_replays_def)
next
  case (plain s A b r h)
  then show ?case by (intro replays_plain)
next
  case (update_read s A a c h m u)
  then show ?case by (intro replays_half)
next
  case (update_write s A a m u c x r h)
  then show ?case by (intro replays_update)
qed

lemma bus_reachable_replays:
  assumes "bus_reachable K key hs rank h s" "banks_independent K key"
  shows "bus_replays K h s"
proof -
  obtain s0 where s0: "bus_start hs h s0" "(bstep K key hs rank)\<^sup>*\<^sup>* s0 s"
    using assms(1) by (auto simp: bus_reachable_def)
  have "bus_replays K h s0"
    using s0(1) by (auto simp: bus_replays_def bus_start_def pending_def intro: exI [of _ "[]"])
  with s0(2) bus_start_ok [OF s0(1), of key rank] have "bus_ok key hs rank s \<and> bus_replays K h s"
    by (induction rule: rtranclp_induct) (auto intro: bus_ok_step bus_replays_step [OF _ assms(2)])
  then show ?thesis ..
qed

text \<open>
  C11: whatever threads and processes do, as long as each access is made under the lock file of its
  address and registers behind different lock files are independent, no update is lost: each finished
  operation gave the result, and when no update is half done the bus is in the state, that the
  finished operations give when they run one after the other.
\<close>

theorem bus_operations_atomic:
  assumes "bus_reachable K key hs rank h0 s" "banks_independent K key"
  shows "\<exists>h. replay K (bs_log s) h0 = Some h \<and> (bs_half s = (\<lambda>_. None) \<longrightarrow> bs_hw s = h)"
proof -
  obtain h pend where h: "replay K (bs_log s) h0 = Some h" "pending (bs_half s) pend"
    "run_accesses K (map half_access pend) h = Some (bs_hw s)"
    using bus_reachable_replays [OF assms] by (auto simp: bus_replays_def)
  have "pend = []" if "bs_half s = (\<lambda>_. None)"
    using pendingD [OF h(2)] that by (cases pend) force+
  with h(1,3) show ?thesis by auto
qed

section \<open>Sequences exclude others\<close>

fun op_addr :: "bus_op \<Rightarrow> u64" where
  "op_addr (Plain b) = access_addr b"
| "op_addr (Masked a m u) = a"

text \<open>Steps during which an actor keeps the right to access what the file \<open>k\<close> guards.\<close>

definition bstep_holding ::
  "'h kernel \<Rightarrow> (u64 \<Rightarrow> file_key) \<Rightarrow> nat list \<Rightarrow> (nat \<Rightarrow> nat) \<Rightarrow> actor \<Rightarrow> file_key
    \<Rightarrow> 'h bus_state \<Rightarrow> 'h bus_state \<Rightarrow> bool"
where
  "bstep_holding K key hs rank A k s s' \<longleftrightarrow> bstep K key hs rank s s' \<and> may_access (bs_proto s') A k"

lemma bstep_log:
  assumes "bstep K key hs rank s s'" "bus_ok key hs rank s"
  shows "\<exists>xs. bs_log s' = bs_log s @ xs \<and> (\<forall>(A, b, r)\<in>set xs. may_access (bs_proto s') A (key (op_addr b)))"
  using assms
proof (induction rule: bstep.induct)
  case (update_write s A a m u c x r h)
  then have "may_access (bs_proto s) A (key a)"
    unfolding bus_ok_def halves_ok_def by blast
  then show ?case by simp
qed auto

text \<open>
  C13: while a thread keeps a guard, as in a sequence under \<open>Device::lock\<close>, every operation that finishes on
  a register behind that lock file is its own, and no other thread or process has an update of such a
  register half done.
\<close>

theorem sequence_excludes_others:
  assumes "bus_reachable K key hs rank h0 s" "may_access (bs_proto s) (Thread t) k"
    and "(bstep_holding K key hs rank (Thread t) k)\<^sup>*\<^sup>* s s'"
  shows "\<exists>xs. bs_log s' = bs_log s @ xs
    \<and> (\<forall>(A, b, r)\<in>set xs. key (op_addr b) = k \<longrightarrow> A = Thread t)
    \<and> (\<forall>A a m u c. bs_half s' A = Some (a, m, u, c) \<longrightarrow> key a = k \<longrightarrow> A = Thread t)"
proof -
  from assms(3) have "\<exists>xs. bs_log s' = bs_log s @ xs \<and> bus_ok key hs rank s'
      \<and> may_access (bs_proto s') (Thread t) k \<and> (\<forall>(A, b, r)\<in>set xs. key (op_addr b) = k \<longrightarrow> A = Thread t)"
  proof (induction rule: rtranclp_induct)
    case base
    then show ?case
      using bus_reachable_ok [OF assms(1)] assms(2) by simp
  next
    case (step y z)
    then obtain xs where xs: "bs_log y = bs_log s @ xs" "bus_ok key hs rank y"
      "\<forall>(A, b, r)\<in>set xs. key (op_addr b) = k \<longrightarrow> A = Thread t"
      by blast
    have z: "bstep K key hs rank y z" "may_access (bs_proto z) (Thread t) k"
      using step(2) by (simp_all add: bstep_holding_def)
    have ok: "bus_ok key hs rank z"
      by (rule bus_ok_step [OF z(1) xs(2)])
    then have inv: "proto_inv hs rank (bs_proto z)"
      by (simp add: bus_ok_def)
    obtain ys where ys: "bs_log z = bs_log y @ ys"
      "\<forall>(A, b, r)\<in>set ys. may_access (bs_proto z) A (key (op_addr b))"
      using bstep_log [OF z(1) xs(2)] by blast
    then have "\<forall>(A, b, r)\<in>set ys. key (op_addr b) = k \<longrightarrow> A = Thread t"
      using may_access_unique [OF inv _ z(2)] by blast
    with xs ys z(2) ok show ?case
      by (intro exI [of _ "xs @ ys"]) auto
  qed
  then obtain xs where xs: "bs_log s' = bs_log s @ xs" "bus_ok key hs rank s'"
    "may_access (bs_proto s') (Thread t) k" "\<forall>(A, b, r)\<in>set xs. key (op_addr b) = k \<longrightarrow> A = Thread t"
    by blast
  have "A = Thread t" if "bs_half s' A = Some (a, m, u, c)" "key a = k" for A a m u c
    using xs(2) that may_access_unique [OF _ _ xs(3)] unfolding bus_ok_def halves_ok_def by metis
  with xs(1,4) show ?thesis by blast
qed

section \<open>Device calls follow the protocol\<close>

text \<open>The lock of an access, when the device has it already (its UIO lock, or the lock of its first page).\<close>

definition access_lock :: "('h, 'm) env \<Rightarrow> u64 \<Rightarrow> 'm device \<Rightarrow> nat option" where
  "access_lock E address d = (case dv_uio_lock d of
       Some a \<Rightarrow> Some a
     | None \<Rightarrow> if page_base (page_size (ev_kernel E)) address = page_base (page_size (ev_kernel E)) (dv_base d)
         then dv_base_page_lock d else None)"

lemma lock_at_known:
  "access_lock E address d = Some a \<Longrightarrow> lock_at E me address (M, d) = on_locks (acquire me a) (M, d)"
  by (auto simp: access_lock_def lock_at_def Let_def split: option.splits if_splits)

text \<open>
  Thread \<open>me\<close> about to access \<open>address\<close>: it is outside of a call, and holds nothing (a single access) or
  the lock of the address (an access of a sequence).
\<close>

definition caller_at ::
  "('h, 'm) env \<Rightarrow> (u64 \<Rightarrow> file_key) \<Rightarrow> nat list \<Rightarrow> thread \<Rightarrow> u64 \<Rightarrow> 'h bus_state \<Rightarrow> 'h machine \<Rightarrow> 'm device \<Rightarrow> bool"
where
  "caller_at E key hs me address s M d \<longleftrightarrow>
     mc_locks M = pr_heap (bs_proto s) \<and> mc_hw M = bs_hw s
   \<and> pr_todo (bs_proto s) me = [] \<and> bs_half s (Thread me) = None
   \<and> (\<exists>a l. access_lock E address d = Some a \<and> a \<in> set hs
        \<and> get_lock (pr_heap (bs_proto s)) a = Some l \<and> lock_key l = key address
        \<and> (pr_held (bs_proto s) me = [] \<or> a \<in> set (pr_held (bs_proto s) me)))"

text \<open>The state after a finished call.\<close>

definition call_done :: "thread \<Rightarrow> bus_op \<Rightarrow> u64 \<Rightarrow> 'h machine \<Rightarrow> 'h bus_state \<Rightarrow> 'h bus_state" where
  "call_done me b r M s = s\<lparr>bs_proto := (bs_proto s)\<lparr>pr_heap := mc_locks M\<rparr>, bs_hw := mc_hw M,
     bs_log := bs_log s @ [(Thread me, b, r)]\<rparr>"

lemma device_access_locked:
  assumes "device_access E me off w wr body (M, d) = Done (Inr x, (M', d'))"
    and "access_lock E (dv_base d + ucast off) d = Some a"
  obtains g L M1 where "check_access d off w wr = Inr (dv_base d + ucast off)"
    "acquire me a (mc_locks M) = Done (Inr g, L)" "body (M\<lparr>mc_locks := L\<rparr>, d) = Done (x, (M1, d'))"
    "guard_drop g (mc_locks M1) = Done (mc_locks M')" "mc_hw M' = mc_hw M1"
proof -
  from assms(1) obtain address where c: "check_access d off w wr = Inr address"
    "with_guard (lock_at E me address) body (M, d) = Done (Inr x, (M', d'))"
    by (auto simp: device_access_def split: sum.splits)
  have a: "address = dv_base d + ucast off"
    using c(1) by (simp add: check_access_Inr)
  show ?thesis
    using c(2) that c(1) unfolding a with_guard_def lock_at_known [OF assms(2)] on_locks_def
    by (auto split: run.splits sum.splits prod.splits)
qed

text \<open>Taking the lock, accesses of the bus, giving the lock back.\<close>

lemma guard_drop_foreign:
  assumes "lock_ok hs st" "a \<in> set hs" "guard_drop (HOne a) st = Done st'"
  shows "lh_foreign st' = lh_foreign st"
  by (rule guard_drop_One_refs [OF assms]) (simp add: set_lock_def)

text \<open>The lock moves of a call; other threads and processes hold what they held.\<close>

definition others_keep :: "thread \<Rightarrow> proto \<Rightarrow> proto \<Rightarrow> bool" where
  "others_keep me p q \<longleftrightarrow> (\<forall>t. t \<noteq> me \<longrightarrow> pr_held q t = pr_held p t)
     \<and> lh_foreign (pr_heap q) = lh_foreign (pr_heap p)"

lemma take_give:
  assumes inv: "proto_inv hs rank p"
    and a: "a \<in> set hs" "get_lock (pr_heap p) a = Some l"
    and me: "pr_todo p me = []" "pr_held p me = [] \<or> a \<in> set (pr_held p me)"
    and take: "acquire me a (pr_heap p) = Done (Inr g, L)"
    and give: "guard_drop g L = Done L'"
  obtains p1 p2 where "pstep hs rank p p1" "pstep hs rank p1 p2" "pstep hs rank p2 (p\<lparr>pr_heap := L'\<rparr>)"
    "may_access p2 (Thread me) (lock_key l)"
    "others_keep me p p1" "others_keep me p p2" "others_keep me p (p\<lparr>pr_heap := L'\<rparr>)"
proof -
  have lok: "lock_ok hs (pr_heap p)"
    using inv by (simp add: proto_inv_def)
  from take lok obtain m where g: "g = HOne a" and m: "get_lock (pr_heap p) a = Some m"
    and L: "L = set_lock a (Some (m\<lparr>sl_owner := Some me, sl_depth := sl_depth m + 1,
        sl_refs := sl_refs m + 1\<rparr>)) (pr_heap p)"
    by (rule acquire_Inr)
  define p1 where "p1 = p\<lparr>pr_todo := (pr_todo p)(me := [a])\<rparr>"
  define p2 where "p2 = p1\<lparr>pr_heap := L, pr_held := (pr_held p1)(me := pr_held p1 me @ [a]),
      pr_todo := (pr_todo p1)(me := [])\<rparr>"
  have "pstep hs rank p p1"
    unfolding p1_def using me a(1) by (auto intro: pstep.sequence pstep.nested)
  moreover have "pstep hs rank p1 p2"
    unfolding p2_def by (rule pstep.take [where h = g]) (use take in \<open>simp_all add: p1_def\<close>)
  moreover have "pstep hs rank p2 (p2\<lparr>pr_heap := L', pr_held := (pr_held p2)(me := pr_held p me)\<rparr>)"
    by (rule pstep.give [where a = a]) (use give g in \<open>simp_all add: p2_def p1_def\<close>)
  then have "pstep hs rank p2 (p\<lparr>pr_heap := L'\<rparr>)"
    using fun_upd_idem [of "pr_todo p" me "[]"] me(1) by (simp add: p2_def p1_def)
  moreover have "lock_ok hs L"
    by (rule acquire_ok [OF take lok])
  then have "lh_foreign L' = lh_foreign L"
    using guard_drop_foreign a(1) give g by blast
  moreover have "lh_foreign L = lh_foreign (pr_heap p)"
    by (simp add: L set_lock_def)
  moreover have "may_access p2 (Thread me) (lock_key l)"
    using a(2) m get_lock_SomeD [OF m] by (auto simp: p2_def p1_def L lock_key_def)
  ultimately show ?thesis
    by (intro that [of p1 p2]) (simp_all add: others_keep_def p2_def p1_def)
qed

lemma others_keep_halves:
  assumes "halves_ok key s" "bs_half s (Thread me) = None" "others_keep me (bs_proto s) q"
    and "others_keep me (bs_proto s) r"
  shows "halves_keep (s\<lparr>bs_proto := q\<rparr>) r"
proof -
  have "k \<in> lh_foreign (pr_heap (bs_proto s))" if "bs_half s (Process k) \<noteq> None" for k
    using that assms(1) unfolding halves_ok_def by (metis may_access.simps(2) not_None_eq prod_cases4)
  then show ?thesis
    using assms(2-4) by (auto simp: halves_keep_def others_keep_def) (metis option.distinct(1))
qed

lemma locked_run:
  assumes ok: "bus_ok key hs rank s"
    and idle: "pr_todo (bs_proto s) me = []" "bs_half s (Thread me) = None"
    and a: "a \<in> set hs" "get_lock (pr_heap (bs_proto s)) a = Some l"
    and own: "pr_held (bs_proto s) me = [] \<or> a \<in> set (pr_held (bs_proto s) me)"
    and take: "acquire me a (pr_heap (bs_proto s)) = Done (Inr g, L)"
    and give: "guard_drop g L = Done L'"
    and bus: "\<And>q. may_access q (Thread me) (lock_key l)
        \<Longrightarrow> (bstep K key hs rank)\<^sup>*\<^sup>* (s\<lparr>bs_proto := q\<rparr>) (s\<lparr>bs_proto := q, bs_hw := h, bs_log := xs\<rparr>)"
  shows "(bstep K key hs rank)\<^sup>*\<^sup>* s (s\<lparr>bs_proto := (bs_proto s)\<lparr>pr_heap := L'\<rparr>, bs_hw := h, bs_log := xs\<rparr>)"
proof -
  have inv: "proto_inv hs rank (bs_proto s)" "halves_ok key s"
    using ok by (simp_all add: bus_ok_def)
  obtain p1 p2 where p: "pstep hs rank (bs_proto s) p1" "pstep hs rank p1 p2"
      "pstep hs rank p2 ((bs_proto s)\<lparr>pr_heap := L'\<rparr>)" "may_access p2 (Thread me) (lock_key l)"
    and o: "others_keep me (bs_proto s) p1" "others_keep me (bs_proto s) p2"
      "others_keep me (bs_proto s) ((bs_proto s)\<lparr>pr_heap := L'\<rparr>)"
    by (rule take_give [OF inv(1) a idle(1) own take give]) blast
  note keep = others_keep_halves [OF inv(2) idle(2)]
  have "bstep K key hs rank s (s\<lparr>bs_proto := p1\<rparr>)"
    using p(1) keep [of "bs_proto s", OF _ o(1)] by (intro bstep.locks) (simp_all add: others_keep_def)
  moreover have "bstep K key hs rank (s\<lparr>bs_proto := p1\<rparr>) (s\<lparr>bs_proto := p1\<rparr>\<lparr>bs_proto := p2\<rparr>)"
    using p(2) keep [OF o(1,2)] by (intro bstep.locks) simp_all
  moreover have "bstep K key hs rank (s\<lparr>bs_proto := p2, bs_hw := h, bs_log := xs\<rparr>)
      (s\<lparr>bs_proto := p2, bs_hw := h, bs_log := xs\<rparr>\<lparr>bs_proto := (bs_proto s)\<lparr>pr_heap := L'\<rparr>\<rparr>)"
    using p(3) keep [OF o(2,3)] by (intro bstep.locks) (simp_all add: halves_keep_def)
  moreover have "s\<lparr>bs_proto := p2, bs_hw := h, bs_log := xs\<rparr>\<lparr>bs_proto := (bs_proto s)\<lparr>pr_heap := L'\<rparr>\<rparr>
      = s\<lparr>bs_proto := (bs_proto s)\<lparr>pr_heap := L'\<rparr>, bs_hw := h, bs_log := xs\<rparr>"
    by (rule bus_state.equality) simp_all
  moreover note bus [OF p(4)]
  ultimately show ?thesis
    by simp
qed

text \<open>A call whose accesses, made under the lock, take the bus from \<open>bs_hw s\<close> to where it leaves it.\<close>

lemma access_call_run:
  assumes ok: "bus_ok key hs rank s" and at: "caller_at E key hs me (dv_base d + ucast off) s M d"
    and call: "device_access E me off w wr body (M, d) = Done (Inr x, (M', d'))"
    and body: "\<And>L M1 q. check_access d off w wr = Inr (dv_base d + ucast off)
        \<Longrightarrow> body (M\<lparr>mc_locks := L\<rparr>, d) = Done (x, (M1, d'))
        \<Longrightarrow> may_access q (Thread me) (key (dv_base d + ucast off))
        \<Longrightarrow> mc_locks M1 = L \<and> (bstep K key hs rank)\<^sup>*\<^sup>* (s\<lparr>bs_proto := q\<rparr>)
            (s\<lparr>bs_proto := q, bs_hw := mc_hw M1, bs_log := bs_log s @ [(Thread me, b, r)]\<rparr>)"
  shows "(bstep K key hs rank)\<^sup>*\<^sup>* s (call_done me b r M' s)"
proof -
  from at obtain a l where a: "access_lock E (dv_base d + ucast off) d = Some a" "a \<in> set hs"
      "get_lock (pr_heap (bs_proto s)) a = Some l" "lock_key l = key (dv_base d + ucast off)"
      "pr_held (bs_proto s) me = [] \<or> a \<in> set (pr_held (bs_proto s) me)"
    and m: "mc_locks M = pr_heap (bs_proto s)"
    and idle: "pr_todo (bs_proto s) me = []" "bs_half s (Thread me) = None"
    by (auto simp: caller_at_def)
  from call a(1) obtain g L M1 where g: "check_access d off w wr = Inr (dv_base d + ucast off)"
    "acquire me a (mc_locks M) = Done (Inr g, L)" "body (M\<lparr>mc_locks := L\<rparr>, d) = Done (x, (M1, d'))"
    "guard_drop g (mc_locks M1) = Done (mc_locks M')" "mc_hw M' = mc_hw M1"
    by (rule device_access_locked) blast
  note run = body [OF g(1,3)]
  have "may_access (bs_proto s\<lparr>pr_held := (\<lambda>_. [a])\<rparr>) (Thread me) (key (dv_base d + ucast off))"
    using a(3,4) by simp
  then have "mc_locks M1 = L"
    using run by blast
  with g(4) have give: "guard_drop g L = Done (mc_locks M')"
    by simp
  show ?thesis
    unfolding call_done_def g(5)
    by (rule locked_run [OF ok idle a(2,3,5) g(2) [unfolded m] give])
      (use run a(4) in auto)
qed

lemma bus_backend:
  assumes "on_bus E d" "check_access d off w wr = Inr a"
  shows "backend_read E off w (M, d) = (case run_access (ev_kernel E) (ARead a w) (mc_hw M) of
      (x, h) \<Rightarrow> Done (x, (M\<lparr>mc_hw := h\<rparr>, d)))"
    and "backend_write E off w v (M, d)
      = Done (M\<lparr>mc_hw := snd (run_access (ev_kernel E) (AWrite a w v) (mc_hw M))\<rparr>, d)"
  using on_bus_accesses(1) [OF assms, where M = M and c = "dv_base_page_lock d" and v = v]
    on_bus_accesses(2) [OF assms, where M = M and c = "dv_base_page_lock d"]
  by (simp_all split: prod.splits)

lemma check_access_aligned:
  "check_access d off w wr = Inr a \<Longrightarrow> aligned (ARead a w) \<and> aligned (AWrite a w v)"
  by (simp add: check_access_Inr aligned_def unat_word_ariths)

lemma read_body_run:
  assumes "on_bus E d" "check_access d off w wr = Inr a" "backend_read E off w (M, d) = Done (x, (M1, d'))"
    and "may_access (bs_proto s) (Thread me) (key a)" "bs_half s (Thread me) = None" "mc_hw M = bs_hw s"
  shows "mc_locks M1 = mc_locks M \<and> (bstep (ev_kernel E) key hs rank)\<^sup>*\<^sup>* s
      (s\<lparr>bs_hw := mc_hw M1, bs_log := bs_log s @ [(Thread me, Plain (ARead a w), x)]\<rparr>)"
proof -
  have "run_access (ev_kernel E) (ARead a w) (bs_hw s) = (x, mc_hw M1)" "mc_locks M1 = mc_locks M"
    using assms(3,6) unfolding bus_backend [OF assms(1,2)] by (auto split: prod.splits)
  with bstep.plain [of s "Thread me" key "ARead a w" "ev_kernel E"] assms(4,5) check_access_aligned [OF assms(2)]
  show ?thesis by auto
qed

lemma write_body_run:
  assumes "on_bus E d" "check_access d off w wr = Inr a" "write_body E off w v (M, d) = Done ((), (M1, d'))"
    and "may_access (bs_proto s) (Thread me) (key a)" "bs_half s (Thread me) = None" "mc_hw M = bs_hw s"
  shows "mc_locks M1 = mc_locks M \<and> (bstep (ev_kernel E) key hs rank)\<^sup>*\<^sup>* s
      (s\<lparr>bs_hw := mc_hw M1, bs_log := bs_log s @ [(Thread me, Plain (AWrite a w v), 0)]\<rparr>)"
proof -
  have "run_access (ev_kernel E) (AWrite a w v) (bs_hw s) = (0, mc_hw M1)" "mc_locks M1 = mc_locks M"
    using assms(3,6) unfolding write_body_def bus_backend [OF assms(1,2)] by auto
  with bstep.plain [of s "Thread me" key "AWrite a w v" "ev_kernel E"] assms(4,5) check_access_aligned [OF assms(2)]
  show ?thesis by auto
qed

lemma update_body_run:
  assumes "on_bus E d" "check_access d off WU32 wr = Inr a" "update_body E off m u (M, d) = Done (y, (M1, d'))"
    and "may_access (bs_proto s) (Thread me) (key a)" "bs_half s (Thread me) = None" "mc_hw M = bs_hw s"
  shows "mc_locks M1 = mc_locks M \<and> (bstep (ev_kernel E) key hs rank)\<^sup>*\<^sup>* s
      (s\<lparr>bs_hw := mc_hw M1, bs_log := bs_log s @ [(Thread me, Masked a m u, ucast y)]\<rparr>)"
proof -
  obtain c h where c: "run_access (ev_kernel E) (ARead a WU32) (bs_hw s) = (c, h)"
    by (cases "run_access (ev_kernel E) (ARead a WU32) (bs_hw s)")
  have y: "y = replace_bits (ucast c) m u" "mc_locks M1 = mc_locks M"
    "run_access (ev_kernel E) (AWrite a WU32 (ucast y)) h = (0, mc_hw M1)"
    using assms(3) c assms(6)
    by (auto simp: update_body_def Let_def bus_backend [OF assms(1,2)] simp del: run_access.simps(1))
  let ?s1 = "s\<lparr>bs_hw := h, bs_half := (bs_half s)(Thread me := Some (a, m, u, c))\<rparr>"
  have "bstep (ev_kernel E) key hs rank s ?s1"
    using assms(4,5) check_access_aligned [OF assms(2)] c by (intro bstep.update_read) auto
  moreover have "bstep (ev_kernel E) key hs rank ?s1 (?s1\<lparr>bs_hw := mc_hw M1,
      bs_half := (bs_half ?s1)(Thread me := None),
      bs_log := bs_log ?s1 @ [(Thread me, Masked a m u, ucast y)]\<rparr>)"
    using y by (intro bstep.update_write) auto
  moreover have "?s1\<lparr>bs_hw := mc_hw M1, bs_half := (bs_half ?s1)(Thread me := None),
      bs_log := bs_log ?s1 @ [(Thread me, Masked a m u, ucast y)]\<rparr>
    = s\<lparr>bs_hw := mc_hw M1, bs_log := bs_log s @ [(Thread me, Masked a m u, ucast y)]\<rparr>"
    using assms(5) by (intro bus_state.equality) auto
  ultimately show ?thesis
    using y(2) by (simp only: converse_rtranclp_into_rtranclp r_into_rtranclp simp_thms)
qed


section \<open>A machine of bytes\<close>

text \<open>The hypothesis holds of plain memory whose pages have a lock file each.\<close>

definition page_key :: "u64 \<Rightarrow> file_key" where
  "page_key a = (1, unat a div 4096)"

lemma access_in_page:
  assumes "unat (width_bytes w) dvd unat a" "unat (b - a) < unat (width_bytes w)"
  shows "page_key b = page_key a"
proof -
  define n where "n = unat (width_bytes w)"
  have n: "n dvd 4096" "n dvd 2 ^ 64"
    by (cases w; simp add: n_def)+
  obtain q where q: "unat a = n * q"
    using assms(1) by (auto simp: n_def)
  obtain m where m: "4096 = n * m"
    using n(1) by (rule dvdE)
  obtain k where k: "2 ^ 64 = n * k"
    using n(2) by (rule dvdE)
  have "unat a < 2 ^ 64"
    using unat_bound [of a] by simp
  then have "q < k"
    unfolding q k by simp
  then have "n * (q + 1) \<le> n * k"
    by (intro mult_le_mono) simp_all
  then have "unat a + unat (b - a) < n * k"
    using assms(2) q by (simp add: n_def [symmetric])
  then have "unat a + unat (b - a) < 2 ^ 64"
    by (simp only: k)
  then have b: "unat b = unat a + unat (b - a)"
    using unat_add_no_wrap [of a "b - a"] by simp
  have "unat b div n = unat a div n"
    using assms(2) unfolding b q by (simp add: n_def [symmetric])
  then have "unat b div (n * m) = unat a div (n * m)"
    by (simp add: div_mult2_eq)
  then show ?thesis
    by (simp add: page_key_def m)
qed

lemma flat_independent: "banks_independent flat_kernel page_key"
proof -
  have far: "\<not> (unat (b - a) < unat (width_bytes w) \<and> unat (b - a') < unat (width_bytes w'))"
    if "unat (width_bytes w) dvd unat a" "unat (width_bytes w') dvd unat a'" "page_key a \<noteq> page_key a'"
    for a a' b w w'
    using access_in_page that by metis
  have off: "unat (a + word_of_nat i - a) < unat (width_bytes w)" if "i < unat (width_bytes w)" for a :: u64 and i w
  proof -
    have "unat (word_of_nat i :: u64) \<le> i"
      by (simp add: unsigned_of_nat)
    with that show ?thesis by simp
  qed
  have same: "snd (flat_read a w ram) = ram" for a w ram
    by (simp add: flat_read_def)
  have rd: "fst (flat_read a w (flat_write a' w' v ram)) = fst (flat_read a w ram)"
    if "unat (width_bytes w) dvd unat a" "unat (width_bytes w') dvd unat a'" "page_key a \<noteq> page_key a'"
    for a a' w w' v ram
  proof -
    have "(\<Sum>i<unat (width_bytes w). flat_write a' w' v ram (a + word_of_nat i) * 256 ^ i)
        = (\<Sum>i<unat (width_bytes w). ram (a + word_of_nat i) * 256 ^ i)"
      by (rule sum.cong) (use far [OF that] off in \<open>auto simp: flat_write_def\<close>)
    then show ?thesis
      by (simp add: flat_read_def)
  qed
  have wr: "flat_write a w v (flat_write a' w' v' ram) = flat_write a' w' v' (flat_write a w v ram)"
    if "unat (width_bytes w) dvd unat a" "unat (width_bytes w') dvd unat a'" "page_key a \<noteq> page_key a'"
    for a a' w w' v v' ram
    using far [OF that] by (auto simp: flat_write_def fun_eq_iff)
  show ?thesis
    unfolding banks_independent_def
  proof (intro allI impI)
    fix p q
    assume "aligned p" "aligned q" "page_key (access_addr p) \<noteq> page_key (access_addr q)"
    then show "commute (run_access flat_kernel p) (run_access flat_kernel q)"
      by (cases p; cases q) (auto simp: commute_def aligned_def flat_kernel_def rd wr same
          map_prod_def split_beta)
  qed
qed

text \<open>
  Thread 7 reads a register for an update, another process writes one of the next page, and thread 7
  writes its register.
\<close>

definition bus0 :: "(u64 \<Rightarrow> nat) bus_state" where
  "bus0 = \<lparr>bs_proto = proto0, bs_hw = (\<lambda>_. 0), bs_half = (\<lambda>_. None), bs_log = []\<rparr>"

definition proto_shared :: proto where
  "proto_shared = proto2\<lparr>pr_heap := foreign_take (1, 2) (pr_heap proto2)\<rparr>"

definition bus_half :: "(u64 \<Rightarrow> nat) bus_state" where
  "bus_half = bus0\<lparr>bs_proto := proto2, bs_half := (\<lambda>_. None)(Thread 7 := Some (0x1000, 0xFF, 5, 0))\<rparr>"

definition bus_mid :: "(u64 \<Rightarrow> nat) bus_state" where
  "bus_mid = bus_half\<lparr>bs_proto := proto_shared, bs_hw := flat_write 0x2000 WU32 9 (\<lambda>_. 0),
     bs_log := [(Process (1, 2), Plain (AWrite 0x2000 WU32 9), 0)]\<rparr>"

definition bus_end :: "(u64 \<Rightarrow> nat) bus_state" where
  "bus_end = bus_mid\<lparr>bs_hw := flat_write 0x1000 WU32 5 (bs_hw bus_mid), bs_half := (\<lambda>_. None),
     bs_log := bs_log bus_mid @ [(Thread 7, Masked 0x1000 0xFF 5, 5)]\<rparr>"

lemma bus0_start: "bus_start [0, 1] (\<lambda>_. 0) bus0"
  using proto0_init by (simp add: bus_start_def bus0_def)

lemma bus_to_half: "(bstep flat_kernel page_key [0, 1] id)\<^sup>*\<^sup>* bus0 bus_half"
proof -
  have "bstep flat_kernel page_key [0, 1] id bus0 (bus0\<lparr>bs_proto := proto1\<rparr>)"
    using proto01 by (intro bstep.locks) (simp_all add: bus0_def halves_keep_def)
  moreover have "bstep flat_kernel page_key [0, 1] id (bus0\<lparr>bs_proto := proto1\<rparr>)
      (bus0\<lparr>bs_proto := proto1\<rparr>\<lparr>bs_proto := proto2\<rparr>)"
    using proto12 by (intro bstep.locks) (simp_all add: bus0_def halves_keep_def)
  moreover have "bstep flat_kernel page_key [0, 1] id (bus0\<lparr>bs_proto := proto2\<rparr>)
      (bus0\<lparr>bs_proto := proto2\<rparr>\<lparr>bs_hw := (\<lambda>_. 0), bs_half := (bs_half (bus0\<lparr>bs_proto := proto2\<rparr>))
        (Thread 7 := Some (0x1000, 0xFF, 5, 0))\<rparr>)"
    by (rule bstep.update_read)
      (simp_all add: bus0_def proto2_def first_taken_def two_locks_get lock_key_def page_key_def aligned_def
        flat_kernel_def flat_read_def width_cut_def)
  ultimately show ?thesis
    by (simp add: bus_half_def bus0_def)
qed

lemma bus_end_steps:
  "bstep flat_kernel page_key [0, 1] id bus_half (bus_half\<lparr>bs_proto := proto_shared\<rparr>)"
  "bstep flat_kernel page_key [0, 1] id (bus_half\<lparr>bs_proto := proto_shared\<rparr>) bus_mid"
  "bstep flat_kernel page_key [0, 1] id bus_mid bus_end"
proof -
  have "\<not> contended (pr_heap proto2) (1, 2)"
    by (simp add: proto2_def contended_def first_taken_def set_lock_def two_locks_def holds_key_def lock_key_def)
  then have "pstep [0, 1] id proto2 proto_shared"
    unfolding proto_shared_def by (rule pstep.foreign_in)
  then show "bstep flat_kernel page_key [0, 1] id bus_half (bus_half\<lparr>bs_proto := proto_shared\<rparr>)"
    by (intro bstep.locks) (simp_all add: bus_half_def halves_keep_def proto_shared_def bus0_def)
  show "bstep flat_kernel page_key [0, 1] id (bus_half\<lparr>bs_proto := proto_shared\<rparr>) bus_mid"
  proof -
    have "bus_mid = bus_half\<lparr>bs_proto := proto_shared\<rparr>\<lparr>bs_hw := flat_write 0x2000 WU32 9 (\<lambda>_. 0),
        bs_log := bs_log (bus_half\<lparr>bs_proto := proto_shared\<rparr>) @ [(Process (1, 2), Plain (AWrite 0x2000 WU32 9), 0)]\<rparr>"
      by (simp add: bus_mid_def bus_half_def bus0_def)
    also have "bstep flat_kernel page_key [0, 1] id (bus_half\<lparr>bs_proto := proto_shared\<rparr>) \<dots>"
      by (rule bstep.plain)
        (simp_all add: bus_half_def bus0_def proto_shared_def foreign_take_def page_key_def aligned_def
          flat_kernel_def width_cut_def take_bit_eq_mod)
    finally show ?thesis .
  qed
  show "bstep flat_kernel page_key [0, 1] id bus_mid bus_end"
  proof -
    have "bus_end = bus_mid\<lparr>bs_hw := flat_write 0x1000 WU32 5 (bs_hw bus_mid),
        bs_half := (bs_half bus_mid)(Thread 7 := None),
        bs_log := bs_log bus_mid @ [(Thread 7, Masked 0x1000 0xFF 5, ucast (5 :: u32))]\<rparr>"
      by (auto simp: bus_end_def bus_mid_def bus_half_def bus0_def)
    also have "bstep flat_kernel page_key [0, 1] id bus_mid \<dots>"
      by (rule bstep.update_write [where c = 0 and r = 0])
        (simp_all add: bus_mid_def bus_half_def bus0_def replace_bits_def flat_kernel_def width_cut_def
          take_bit_eq_mod)
    finally show ?thesis .
  qed
qed

lemma bus_to_end: "(bstep flat_kernel page_key [0, 1] id)\<^sup>*\<^sup>* bus_half bus_end"
  using bus_end_steps by (meson rtranclp.rtrancl_into_rtrancl rtranclp.rtrancl_refl)


theorem bus_operations_atomic_witness:
  "\<exists>h. replay flat_kernel [(Process (1, 2), Plain (AWrite 0x2000 WU32 9), 0),
      (Thread 7, Masked 0x1000 0xFF 5, 5)] (\<lambda>_. 0) = Some h \<and> bs_hw bus_end = h"
proof -
  have "bus_reachable flat_kernel page_key [0, 1] id (\<lambda>_. 0) bus_end"
    using bus0_start bus_to_half bus_to_end unfolding bus_reachable_def by (meson rtranclp_trans)
  from bus_operations_atomic [OF this flat_independent] show ?thesis
    by (simp add: bus_end_def bus_mid_def bus_half_def bus0_def)
qed

lemma bus_half_reachable: "bus_reachable flat_kernel page_key [0, 1] id (\<lambda>_. 0) bus_half"
  using bus0_start bus_to_half unfolding bus_reachable_def by blast

theorem sequence_excludes_others_witness:
  "fst ` set (filter (\<lambda>(A, b, r). page_key (op_addr b) = (1, 1)) (bs_log bus_end)) \<subseteq> {Thread 7}"
proof -
  have hold: "may_access proto2 (Thread 7) (1, 1)" "may_access proto_shared (Thread 7) (1, 1)"
    by (simp_all add: proto_shared_def proto2_def first_taken_def two_locks_get lock_key_def)
  have held: "bs_proto bus_mid = proto_shared" "bs_proto bus_end = proto_shared"
    by (simp_all add: bus_mid_def bus_end_def)
  let ?step = "bstep_holding flat_kernel page_key [0, 1] id (Thread 7) (1, 1)"
  have steps: "?step bus_half (bus_half\<lparr>bs_proto := proto_shared\<rparr>)"
    "?step (bus_half\<lparr>bs_proto := proto_shared\<rparr>) bus_mid" "?step bus_mid bus_end"
    unfolding bstep_holding_def held using bus_end_steps hold(2) by simp_all
  have "?step\<^sup>*\<^sup>* bus_half bus_end"
    using steps by (meson rtranclp.rtrancl_into_rtrancl rtranclp.rtrancl_refl)
  moreover have "may_access (bs_proto bus_half) (Thread 7) (1, 1)"
    using hold(1) by (simp add: bus_half_def)
  ultimately obtain xs where "bs_log bus_end = bs_log bus_half @ xs"
    "\<forall>(A, b, r)\<in>set xs. page_key (op_addr b) = (1, 1) \<longrightarrow> A = Thread 7"
    using sequence_excludes_others [OF bus_half_reachable] by blast
  moreover have "bs_log bus_half = []"
    by (simp add: bus_half_def bus0_def)
  ultimately show ?thesis by auto
qed

text \<open>An update of a device whose lock is the first of \<open>two_locks\<close>.\<close>

definition uio_like :: "unit device" where
  "uio_like = devmem_device\<lparr>dv_uio_lock := Some 0\<rparr>"


end
