(* ===== verification/ErrorText.thy ===== *)
theory ErrorText
  imports Errors
begin

text \<open>
  What a caller can rely on in a message of \<open>src/error.rs\<close>: the code in front tells the failures of the
  troubleshooting guide apart, and a hint follows, with three exceptions.
\<close>

section \<open>Codes\<close>

text \<open>The failures, in the order of the type. The two alignment errors are one failure.\<close>

fun error_no :: "mmreg_error \<Rightarrow> nat" where
  "error_no (BlueprintUnmapped _ _) = 0"
| "error_no (BlueprintSystemRam _ _ _) = 1"
| "error_no (ZombieDtStatus _ _ _) = 2"
| "error_no (ZombieRuntimePm _ _ _ _) = 3"
| "error_no (ZombieSupplierPm _ _ _ _) = 4"
| "error_no (ZombieFpgaState _ _ _ _) = 5"
| "error_no (ZombieClockGated _ _ _) = 6"
| "error_no (ValidationHookFailed _ _ _ _ _ _) = 7"
| "error_no (ValidationProfileParse _) = 8"
| "error_no (DevMemOpen _ _) = 9"
| "error_no (DevMemMmap _ _ _ _) = 10"
| "error_no (UioOpen _ _) = 11"
| "error_no (UioMmap _ _ _ _) = 12"
| "error_no (UioAddressInvalid _ _ _ _) = 13"
| "error_no (UnalignedAccess _ _) = 14"
| "error_no (UnalignedWidthAccess _ _ _) = 14"
| "error_no (OutOfBoundsAccess _ _ _ _) = 15"
| "error_no (LockOpen _ _) = 16"
| "error_no (LockAcquire _) = 17"
| "error_no (LockRangeTooLarge _ _ _) = 18"
| "error_no (RegisterNotFound _ _ _) = 19"
| "error_no (SubRegisterNotFound _ _ _ _) = 20"
| "error_no (InvalidSubRegister _ _ _ _) = 21"
| "error_no (DebugDisabled _) = 22"
| "error_no (UioNotFound _ _) = 23"
| "error_no (UioAmbiguous _ _) = 24"
| "error_no (UioRequired _) = 25"
| "error_no (UioIrq _ _) = 26"
| "error_no (ReadOnly _) = 27"

definition error_codes :: "string list" where
  "error_codes = [''E_BLUEPRINT_UNMAPPED'', ''E_BLUEPRINT_RAM'', ''E_ZOMBIE_DT_STATUS'',
     ''E_ZOMBIE_RUNTIME_PM'', ''E_ZOMBIE_SUPPLIER_PM'', ''E_ZOMBIE_FPGA_STATE'', ''E_ZOMBIE_CLOCK_GATED'',
     ''E_VALIDATION_HOOK_FAILED'', ''E_VALIDATION_PROFILE_PARSE'', ''E_DEVMEM_OPEN'', ''E_DEVMEM_MMAP'',
     ''E_UIO_OPEN'', ''E_UIO_MMAP'', ''E_UIO_ADDRESS'', ''E_UNALIGNED_ACCESS'', ''E_OUT_OF_BOUNDS'',
     ''E_LOCK_OPEN'', ''E_LOCK_ACQUIRE'', ''E_LOCK_RANGE'', ''E_REG_NOT_FOUND'', ''E_SUBREG_NOT_FOUND'',
     ''E_SUBREG_RANGE'', ''E_DEBUG_DISABLED'', ''E_UIO_NOT_FOUND'', ''E_UIO_AMBIGUOUS'', ''E_UIO_REQUIRED'',
     ''E_UIO_IRQ'', ''E_READ_ONLY'']"

lemma error_codes_distinct: "distinct error_codes"
  by code_simp

lemma err_code_nth: "err_code e = error_codes ! error_no e" "error_no e < length error_codes"
  by (cases e; simp add: error_codes_def)+

lemma err_code_eq: "err_code e = err_code f \<longleftrightarrow> error_no e = error_no f"
  using nth_eq_iff_index_eq [OF error_codes_distinct err_code_nth(2) err_code_nth(2)] err_code_nth(1)
  by metis

lemma err_code_prefix: "take 2 (err_code e) = ''E_''"
  by (cases e) simp_all

section \<open>Hints\<close>

text \<open>Some suffix begins with \<open>Remediation: \<close>.\<close>

fun has_hint :: "string \<Rightarrow> bool" where
  "has_hint [] \<longleftrightarrow> False"
| "has_hint (c # s) \<longleftrightarrow> take 13 (c # s) = ''Remediation: '' \<or> has_hint s"

lemma has_hint_append: "has_hint s \<Longrightarrow> has_hint (t @ s)"
  by (induction t) simp_all

lemma has_hint_split: "has_hint s \<Longrightarrow> \<exists>t u. s = t @ ''Remediation: '' @ u"
proof (induction s rule: has_hint.induct)
  case (2 c s)
  show ?case
  proof (cases "take 13 (c # s) = ''Remediation: ''")
    case True
    then have "c # s = [] @ ''Remediation: '' @ drop 13 (c # s)"
      by (metis append_Nil append_take_drop_id)
    then show ?thesis by blast
  next
    case False
    with 2 obtain t u where "s = t @ ''Remediation: '' @ u" by auto
    then have "c # s = (c # t) @ ''Remediation: '' @ u" by simp
    then show ?thesis by blast
  qed
qed simp

text \<open>The errors whose message ends without a hint.\<close>

fun hintless :: "mmreg_error \<Rightarrow> bool" where
  "hintless (LockAcquire _) \<longleftrightarrow> True"
| "hintless (RegisterNotFound _ _ _) \<longleftrightarrow> True"
| "hintless (SubRegisterNotFound _ _ _ _) \<longleftrightarrow> True"
| "hintless _ \<longleftrightarrow> False"

lemma body_hint: "\<not> hintless e \<Longrightarrow> has_hint (err_body e)"
  by (cases e) (simp_all add: err_body_def err_body_access_def err_body_lookup_def has_hint_append)

text \<open>The three have none of their own: what they print beside their fields does not contain one.\<close>

lemma hintless_messages:
  "\<not> has_hint (display (LockAcquire ''EIO''))"
  "\<not> has_hint (display (RegisterNotFound ''i'' ''r'' [''a'']))"
  "\<not> has_hint (display (SubRegisterNotFound ''i'' ''r'' ''s'' [''a'']))"
  by code_simp+

text \<open>
  C23: a message begins with a code in brackets; two errors have messages with the same code exactly when they
  are the same failure; and every message has a remediation hint, but for those of a failed
  \<open>flock\<close> and of an unknown register or field.
\<close>

theorem error_messages:
  "take 3 (display e) = ''[E_''
   \<and> (message_code (display e) = message_code (display f) \<longleftrightarrow> error_no e = error_no f)
   \<and> (hintless e \<or> (\<exists>s t. display e = s @ ''Remediation: '' @ t))"
proof (intro conjI)
  obtain s where "err_code e = ''E_'' @ s"
    by (metis append_take_drop_id err_code_prefix)
  then show "take 3 (display e) = ''[E_''"
    by (simp add: display_def)
  show "message_code (display e) = message_code (display f) \<longleftrightarrow> error_no e = error_no f"
    by (simp add: message_code_display err_code_eq)
  have "has_hint (display e)" if "\<not> hintless e"
    using body_hint [OF that] has_hint_append [of "err_body e" "err_code e @ '']''"]
    by (simp add: display_def)
  then show "hintless e \<or> (\<exists>s t. display e = s @ ''Remediation: '' @ t)"
    using has_hint_split by blast
qed

end
