(* ===== verification/Spec2Isabelle.thy ===== *)
theory Spec2Isabelle
  imports CliSpec CapiRuns JsonText BusProto ErrorText
begin

text \<open>
  \<^bold>\<open>mmreg\<close>: access to memory-mapped registers from user space, through UIO or \<open>/dev/mem\<close>, that refuses
  an access likely to hang the bus. This development models the crate \<open>src/\<close>, its command line
  (\<open>src/main.rs\<close>) and its C interface (\<open>bindings/c/src/lib.rs\<close>), and proves what makes them correct.

  \<^bold>\<open>The program and the theories.\<close> A caller opens a \<^emph>\<open>device\<close>, a window of physical addresses.
  Opening resolves the target (UIO region or \<open>/dev/mem\<close>), checks it against the kernel's view of the
  machine, runs safety profiles, maps the window and opens the lock that guards it. Every access is
  checked, takes the lock, touches the bus and gives the lock back.

    \<^item> \<open>Prelude\<close>: machine integers, checked and saturating operations, page arithmetic, and
      \<open>run\<close> (\<open>Done\<close>, \<open>Blocks\<close>, \<open>Panics\<close>) with the state-and-error monad \<open>prog\<close>.
      \<open>Strings\<close>: Rust's \<open>str\<close> as bytes. \<open>Files\<close>: the file system the crate reads.
    \<^item> \<open>Errors\<close>, \<open>ErrorText\<close>: \<open>src/error.rs\<close>, all variants, codes and messages. The code in front of a
      message tells the failures apart, and all but three messages have a hint.
    \<^item> \<open>Parse\<close>: \<open>src/parse.rs\<close>. The parser accepts exactly the digit strings and gives their value.
    \<^item> \<open>Widths\<close>, \<open>Mapper\<close>: \<open>src/memregs.rs\<close>. The trait \<open>MemoryMapper\<close> is the locale \<open>memory_mapper\<close>,
      which \<open>OsMapper\<close> (\<open>Mapper\<close>) and the mock of the C interface (\<open>MockSpec\<close>) provide.
    \<^item> \<open>Mmio\<close>: \<open>src/mmio.rs\<close>: mappings with their bounds assertion, \<open>flock\<close>, \<open>poll\<close> and \<open>read\<close> loops.
    \<^item> \<open>Uio\<close>, \<open>Iomem\<close>, \<open>Preflight\<close>, \<open>Resolve\<close>: \<open>src/memcheck.rs\<close>: UIO lookup, the blueprint
      (\<open>/proc/iomem\<close> and the Device Tree), the hardware pre-flight with the power guard, and \<open>resolve\<close>,
      which puts them together.
    \<^item> \<open>Lock\<close>: \<open>src/lock.rs\<close>: reentrant locks over \<open>flock\<close> in a heap of reference-counted cells, the
      registry, guards, \<open>lock_all\<close>. It refines one reentrant lock per file. \<open>LockProto\<close>: threads and
      processes that interleave these operations (mutual exclusion, progress). \<open>LockPost\<close>: the contract
      of an operation that takes and gives a guard, the locale \<open>guard_service\<close>. \<open>LockTake\<close>: guards that
      outlive the call that took them.
    \<^item> \<open>Profile\<close>, \<open>Json\<close>, \<open>JsonSpec\<close>, \<open>JsonText\<close>: \<open>src/validation.rs\<close>: safety profiles and their JSON
      reader. It returns on every UTF-8 text, reads back what is printed, and makes only UTF-8 strings.
    \<^item> \<open>Device\<close>: \<open>src/device.rs\<close> and the one-shot accesses of \<open>src/lib.rs\<close>. \<open>DeviceSpec\<close>: which accesses
      are allowed, and that they are balanced in the locks. \<open>DevicePages\<close>: which pages a sequence locks.
      \<open>DeviceBus\<close>: what \<open>open\<close> returns and what reaches the bus. \<open>BusProto\<close>: threads and processes whose
      bus accesses interleave under the locks of \<open>LockProto\<close>; finished operations behave as if they
      ran one after the other, a sequence excludes others, and calls of a device follow the protocol.
    \<^item> \<open>Regs\<close>, \<open>Iface\<close>, \<open>IfaceSpec\<close>: \<open>src/register.rs\<close> and \<open>src/interface.rs\<close>: bit fields, named
      registers over a device mapped on demand, the invariant every operation keeps (locale
      \<open>register_op\<close> for what an operation on a register owes the interface).
    \<^item> \<open>Cli\<close>, \<open>CliSpec\<close>: \<open>src/main.rs\<close>. The trait \<open>CliBackend\<close> is the locale \<open>cli_service\<close>; the
      hardware backend provides it.
    \<^item> \<open>Capi\<close>, \<open>CapiSpec\<close>, \<open>CapiRuns\<close>: the C interface: handles, guard stacks and thread errors; the
      locale \<open>capi_method\<close> is what it relies on when it calls a method of a device, and \<open>capi_reach\<close>
      are the states of a process that uses it from any threads.

  \<^bold>\<open>State.\<close> \<open>machine\<close> holds the hardware (a type parameter \<open>'h\<close>), the file system and the lock heap of
  the process; a device or an interface is carried beside it, handles of the C interface inside
  \<open>capi\<close>. An \<open>Arc\<close>, a pointer or a guard is an index into the list it lives in; reference counts and
  drops are explicit. An operation with \<open>&self\<close> that caches something returns the changed device.

  \<^bold>\<open>The environment\<close> is a parameter: \<open>kernel\<close> (answers of \<open>open\<close>, \<open>mmap\<close>, bus reads and writes),
  \<open>lock_env\<close> (lock files), \<open>cli_env\<close>, the lists of answers that retried calls get, and the code of a
  custom mapper (\<open>mapper_vt\<close>). Theorems say what they assume of it: that the page size is a power of two
  between 4 KiB and 2 GiB (\<open>is_page_size\<close>), that a mapping reaches the physical address it was made for
  (\<open>bus_contract\<close>), that a custom mapper keeps the contract of the trait (\<open>memory_mapper\<close>). Each has a
  witness with a concrete kernel. The file system does not change during one operation except through it.

  \<^bold>\<open>Integers\<close> keep their width. \<open>usize\<close> is 64 bits wide, multi-byte accesses are little-endian as on the
  targets of the crate, and plain arithmetic wraps, as in the release profile, which also aborts on a
  panic (\<open>panic = "abort"\<close> in \<open>Cargo.toml\<close>): \<open>catch_unwind\<close> never returns an error.

  \<^bold>\<open>Errors and loops.\<close> A \<open>Result\<close> is a sum, a panic is \<open>Panics\<close> (\<open>None\<close> in \<open>Json\<close>, where it also stands
  for a loop that does not end), waiting for a lock is \<open>Blocks\<close>. No definition takes fuel: loops are
  structural or have a measure, the loops of the JSON reader over arbitrary element parsers are
  \<open>partial_function\<close>s and are proved to return, and the retry loops run over the list of answers.

  \<^bold>\<open>Concurrency.\<close> A definition that models a function is one step of its thread. \<open>LockProto\<close> interleaves
  single lock operations and \<open>BusProto\<close> also single bus accesses, the read and the write of an update
  apart. \<open>BusProto\<close> assumes that registers behind different lock files do not influence each other
  (\<open>banks_independent\<close>, shown for plain memory), and ties the calls of a device to its steps once the lock
  file of the address is open. In \<open>CapiRuns\<close> whole calls interleave, so a \<open>lock_all\<close> that waits half-way is
  not shown there holding its first locks.

  \<^bold>\<open>Not modelled\<close>: printing, \<open>stderr\<close> and the exit status of the command line; \<open>munmap\<close> and \<open>close\<close> of
  files, which have no state of their own; creating the lock directory and its mode bits; reading a
  profile file (its content is an argument); \<open>mmreg_version\<close> (a constant of the build); trait
  implementations without behaviour (\<open>Debug\<close>, \<open>Clone\<close>); the Python bindings, which are glue over the C
  interface in another language; examples and tests.

  \<^bold>\<open>Findings.\<close> \<open>Interface::map\<close> loses a custom mapper when \<open>open\<close> fails (the last section
  of \<open>IfaceSpec\<close>). Two \<open>/dev/mem\<close> devices of one owner share one power guard, and dropping the first ends it
  for both (\<open>pm_acquire\<close> in \<open>Preflight\<close>). Comments and guides differ from the code in three places: underscores
  are skipped anywhere in a number, a blank UIO name is reported with an empty list of names, and the messages
  of a failed \<open>flock\<close> and of an unknown register or field have no remediation hint (\<open>ErrorText\<close>).
\<close>

end
